(* ===== verification/QS_Prelude.thy ===== *)
theory QS_Prelude
  imports Main "HOL-Library.Word" "HOL-Library.Char_ord"
    "HOL-Library.Code_Target_Numeral"
begin

text \<open>
  Shared vocabulary of the development: bytes and C strings, the C library routines the
  sources call (decimal output, \<open>strtoul\<close>, \<open>atoi\<close>), machine-integer conversions, list
  lemmas about contiguous slices, and the collections of rewrite rules the component
  theories add to.
\<close>

unbundle bit_operations_syntax

section \<open>Collections\<close>

named_theorems char_class \<open>definitions of the character classes of the HTTP parser\<close>
named_theorems frame \<open>fields an operation does not change\<close>

section \<open>Machine integers\<close>

type_synonym u16 = "16 word"
type_synonym u32 = "32 word"
type_synonym u64 = "64 word"

text \<open>
  Signed C integers are \<open>int\<close> values; a conversion to a narrower signed type keeps the
  low bits, as the two's-complement targets of the build do.
\<close>

definition to_int32 :: "int \<Rightarrow> int" where
  "to_int32 x = (x + 2 ^ 31) mod 2 ^ 32 - 2 ^ 31"

definition INT64_MAX :: int where "INT64_MAX = 2 ^ 63 - 1"
definition INT64_MIN :: int where "INT64_MIN = - (2 ^ 63)"

lemma to_int32_id [simp]: "- (2 ^ 31) \<le> x \<Longrightarrow> x < 2 ^ 31 \<Longrightarrow> to_int32 x = x"
  by (simp add: to_int32_def)

lemma to_int32_bounds: "- (2 ^ 31) \<le> to_int32 x \<and> to_int32 x < 2 ^ 31"
proof -
  have "0 \<le> (x + 2 ^ 31) mod (2 ^ 32 :: int)" "(x + 2 ^ 31) mod (2 ^ 32 :: int) < 2 ^ 32"
    by (rule pos_mod_sign, simp) (rule pos_mod_bound, simp)
  then show ?thesis by (simp add: to_int32_def)
qed

section \<open>Bytes and strings\<close>

type_synonym byte = char

text \<open>The value of a byte as an \<open>unsigned char\<close>.\<close>

abbreviation ord :: "byte \<Rightarrow> nat" where
  "ord c \<equiv> of_char c"

abbreviation CR :: byte where "CR \<equiv> CHR 0x0D"
abbreviation LF :: byte where "LF \<equiv> CHR 0x0A"
abbreviation TAB :: byte where "TAB \<equiv> CHR 0x09"
abbreviation FF :: byte where "FF \<equiv> CHR 0x0C"
abbreviation NUL :: byte where "NUL \<equiv> CHR 0x00"
abbreviation SP :: byte where "SP \<equiv> CHR 0x20"
abbreviation DQ :: byte where "DQ \<equiv> CHR 0x22"

lemma ord_less_256 [simp]: "ord c < 256"
  using of_char_of [of "ord c"] by (metis char_of_def char.exhaust of_char_mod_256 mod_less_divisor zero_less_numeral)

lemma byte_eq_iff: "c = d \<longleftrightarrow> ord c = ord d"
  by simp

section \<open>The C library routines the sources use\<close>

subsection \<open>Decimal output\<close>

text \<open>What \<open>operator<<\<close> and \<open>printf("%ld")\<close> write for an integer.\<close>

definition digit_char :: "nat \<Rightarrow> byte" where
  "digit_char d = char_of (48 + d)"

fun show_nat :: "nat \<Rightarrow> string" where
  "show_nat n = (if n < 10 then [digit_char n] else show_nat (n div 10) @ [digit_char (n mod 10)])"

declare show_nat.simps [simp del]

definition show_int :: "int \<Rightarrow> string" where
  "show_int i = (if i < 0 then CHR ''-'' # show_nat (nat (- i)) else show_nat (nat i))"

subsection \<open>Decimal input\<close>

definition is_digit :: "byte \<Rightarrow> bool" where
  "is_digit c \<longleftrightarrow> 48 \<le> ord c \<and> ord c \<le> 57"

definition is_space :: "byte \<Rightarrow> bool" where
  "is_space c \<longleftrightarrow> c = SP \<or> (9 \<le> ord c \<and> ord c \<le> 13)"

fun digits_value :: "nat \<Rightarrow> string \<Rightarrow> nat" where
  "digits_value acc [] = acc"
| "digits_value acc (c # cs) =
     (if is_digit c then digits_value (acc * 10 + (ord c - 48)) cs else acc)"

text \<open>
  \<open>strtol(s, NULL, 10)\<close> and \<open>strtoul\<close>: leading white space, an optional sign, digits up to
  the first other byte, the result clamped to the range of the type. \<open>atoi\<close> is glibc's,
  \<open>(int) strtol(s, NULL, 10)\<close>.
\<close>

definition sign_digits :: "string \<Rightarrow> bool \<times> string" where
  "sign_digits s =
     (case dropWhile is_space s of
        [] \<Rightarrow> (False, [])
      | c # cs \<Rightarrow> if c = CHR ''-'' then (True, cs)
                  else if c = CHR ''+'' then (False, cs) else (False, c # cs))"

definition c_strtol :: "string \<Rightarrow> int" where
  "c_strtol s = (case sign_digits s of (neg, ds) \<Rightarrow>
     (let v = int (digits_value 0 ds) in
      if neg then max INT64_MIN (- v) else min INT64_MAX v))"

definition ULONG_MAX :: nat where "ULONG_MAX = 2 ^ 64 - 1"

definition c_strtoul :: "string \<Rightarrow> nat" where
  "c_strtoul s = (case sign_digits s of (neg, ds) \<Rightarrow>
     (let v = digits_value 0 ds in
      if ULONG_MAX < v then ULONG_MAX
      else if neg then nat ((- int v) mod 2 ^ 64) else v))"

definition c_atoi :: "string \<Rightarrow> int" where
  "c_atoi s = to_int32 (c_strtol s)"

lemma c_atoi_bounds: "- (2 ^ 31) \<le> c_atoi s \<and> c_atoi s < 2 ^ 31"
  unfolding c_atoi_def by (rule to_int32_bounds)

subsection \<open>Decimal output read back\<close>

lemma ord_digit_char [simp]: "d < 10 \<Longrightarrow> ord (digit_char d) = 48 + d"
  by (simp add: digit_char_def of_char_of)

lemma is_digit_digit_char [simp]: "d < 10 \<Longrightarrow> is_digit (digit_char d)"
  by (simp add: is_digit_def)

lemma show_nat_not_Nil [simp]: "show_nat n \<noteq> []"
  by (subst show_nat.simps) simp

lemma show_nat_digits: "c \<in> set (show_nat n) \<Longrightarrow> is_digit c"
proof (induction n rule: show_nat.induct)
  case (1 n)
  then show ?case
    by (subst (asm) (2) show_nat.simps) (auto split: if_splits)
qed

lemma digits_value_append:
  "(\<And>c. c \<in> set xs \<Longrightarrow> is_digit c) \<Longrightarrow>
     digits_value acc (xs @ ys) = digits_value (digits_value acc xs) ys"
  by (induction xs arbitrary: acc) auto

lemma digits_value_show_nat: "digits_value 0 (show_nat n) = n"
proof (induction n rule: show_nat.induct)
  case (1 n)
  show ?case
  proof (cases "n < 10")
    case True
    then show ?thesis by (subst show_nat.simps) simp
  next
    case False
    then have "digits_value 0 (show_nat n)
        = digits_value (digits_value 0 (show_nat (n div 10))) [digit_char (n mod 10)]"
      by (subst show_nat.simps) (simp add: digits_value_append show_nat_digits)
    with False 1 show ?thesis by simp
  qed
qed

section \<open>Slices of a buffer\<close>

text \<open>\<open>subbuf off n xs\<close>: the \<open>n\<close> bytes of \<open>xs\<close> from \<open>off\<close> on, what \<open>memcpy\<close> copies.\<close>

definition subbuf :: "nat \<Rightarrow> nat \<Rightarrow> 'a list \<Rightarrow> 'a list" where
  "subbuf off n xs = take n (drop off xs)"

lemma length_subbuf [simp]: "off + n \<le> length xs \<Longrightarrow> length (subbuf off n xs) = n"
  by (simp add: subbuf_def)

lemma subbuf_0 [simp]: "subbuf off 0 xs = []"
  by (simp add: subbuf_def)

lemma subbuf_append_middle [simp]: "subbuf (length xs) (length ys) (xs @ ys @ zs) = ys"
  by (simp add: subbuf_def)

lemma subbuf_at: "xs = as @ ys @ bs \<Longrightarrow> i = length as \<Longrightarrow> n = length ys \<Longrightarrow> subbuf i n xs = ys"
  by simp

lemma subbuf_split: "n \<le> m \<Longrightarrow> subbuf i n xs @ subbuf (i + n) (m - n) xs = subbuf i m xs"
  using take_add [of n "m - n" "drop i xs"] by (simp add: subbuf_def add.commute)

lemma set_subbuf: "set (subbuf off n xs) \<subseteq> set xs"
  unfolding subbuf_def by (meson order_trans set_drop_subset set_take_subset)

text \<open>Overwriting a stretch of a buffer, what \<open>memcpy\<close> does to its target.\<close>

definition overwrite :: "nat \<Rightarrow> 'a list \<Rightarrow> 'a list \<Rightarrow> 'a list" where
  "overwrite off src dst = take off dst @ src @ drop (off + length src) dst"

lemma length_overwrite [simp]:
  "off + length src \<le> length dst \<Longrightarrow> length (overwrite off src dst) = length dst"
  by (simp add: overwrite_def)

lemma take_overwrite_end:
  "off \<le> length dst \<Longrightarrow> take (off + length src) (overwrite off src dst) = take off dst @ src"
  by (simp add: overwrite_def)

end
