(* ===== verification/Http_Types.thy ===== *)
theory Http_Types
  imports QS_Prelude
begin

text \<open>
  The enumerations, tables and macros of \<open>src/lib/http_parser.h\<close> and the head of
  \<open>src/lib/http_parser.c\<close>: request methods, error codes, the states of the three
  automata, the character tables and the classes computed from them. The build compiles
  the parser with \<open>HTTP_PARSER_STRICT\<close> set, its default, so the strict variants are the
  ones modelled.
\<close>

section \<open>Request methods\<close>

datatype (plugins only: code size) http_method =
    HTTP_DELETE | HTTP_GET | HTTP_HEAD | HTTP_POST
  | HTTP_PUT | HTTP_CONNECT | HTTP_OPTIONS | HTTP_TRACE
  | HTTP_COPY | HTTP_LOCK | HTTP_MKCOL | HTTP_MOVE
  | HTTP_PROPFIND | HTTP_PROPPATCH | HTTP_SEARCH | HTTP_UNLOCK
  | HTTP_BIND | HTTP_REBIND | HTTP_UNBIND | HTTP_ACL
  | HTTP_REPORT | HTTP_MKACTIVITY | HTTP_CHECKOUT | HTTP_MERGE
  | HTTP_MSEARCH | HTTP_NOTIFY | HTTP_SUBSCRIBE | HTTP_UNSUBSCRIBE
  | HTTP_PATCH | HTTP_PURGE | HTTP_MKCALENDAR

text \<open>The numbers of \<open>HTTP_METHOD_MAP\<close>, by which \<open>method_strings\<close> is indexed.\<close>

primrec http_method_num :: "http_method \<Rightarrow> nat" where
  "http_method_num HTTP_DELETE = 0"
| "http_method_num HTTP_GET = 1"
| "http_method_num HTTP_HEAD = 2"
| "http_method_num HTTP_POST = 3"
| "http_method_num HTTP_PUT = 4"
| "http_method_num HTTP_CONNECT = 5"
| "http_method_num HTTP_OPTIONS = 6"
| "http_method_num HTTP_TRACE = 7"
| "http_method_num HTTP_COPY = 8"
| "http_method_num HTTP_LOCK = 9"
| "http_method_num HTTP_MKCOL = 10"
| "http_method_num HTTP_MOVE = 11"
| "http_method_num HTTP_PROPFIND = 12"
| "http_method_num HTTP_PROPPATCH = 13"
| "http_method_num HTTP_SEARCH = 14"
| "http_method_num HTTP_UNLOCK = 15"
| "http_method_num HTTP_BIND = 16"
| "http_method_num HTTP_REBIND = 17"
| "http_method_num HTTP_UNBIND = 18"
| "http_method_num HTTP_ACL = 19"
| "http_method_num HTTP_REPORT = 20"
| "http_method_num HTTP_MKACTIVITY = 21"
| "http_method_num HTTP_CHECKOUT = 22"
| "http_method_num HTTP_MERGE = 23"
| "http_method_num HTTP_MSEARCH = 24"
| "http_method_num HTTP_NOTIFY = 25"
| "http_method_num HTTP_SUBSCRIBE = 26"
| "http_method_num HTTP_UNSUBSCRIBE = 27"
| "http_method_num HTTP_PATCH = 28"
| "http_method_num HTTP_PURGE = 29"
| "http_method_num HTTP_MKCALENDAR = 30"

definition method_strings :: "string list" where
  "method_strings =
    [''DELETE'', ''GET'', ''HEAD'', ''POST'', ''PUT'',
     ''CONNECT'', ''OPTIONS'', ''TRACE'', ''COPY'', ''LOCK'',
     ''MKCOL'', ''MOVE'', ''PROPFIND'', ''PROPPATCH'', ''SEARCH'',
     ''UNLOCK'', ''BIND'', ''REBIND'', ''UNBIND'', ''ACL'',
     ''REPORT'', ''MKACTIVITY'', ''CHECKOUT'', ''MERGE'', ''M-SEARCH'',
     ''NOTIFY'', ''SUBSCRIBE'', ''UNSUBSCRIBE'', ''PATCH'', ''PURGE'',
     ''MKCALENDAR'']"

text \<open>\<open>ELEM_AT(method_strings, m, "<unknown>")\<close>: an enum value outside the table is possible in C.\<close>

definition http_method_str :: "nat \<Rightarrow> string" where
  "http_method_str m = (if m < length method_strings then method_strings ! m else ''<unknown>'')"

section \<open>Parser types, flags, error codes\<close>

datatype http_parser_type = HTTP_REQUEST | HTTP_RESPONSE | HTTP_BOTH

type_synonym flag_word = "7 word"

definition F_CHUNKED :: flag_word where "F_CHUNKED = 1"
definition F_CONNECTION_KEEP_ALIVE :: flag_word where "F_CONNECTION_KEEP_ALIVE = 2"
definition F_CONNECTION_CLOSE :: flag_word where "F_CONNECTION_CLOSE = 4"
definition F_CONNECTION_UPGRADE :: flag_word where "F_CONNECTION_UPGRADE = 8"
definition F_TRAILING :: flag_word where "F_TRAILING = 16"
definition F_UPGRADE :: flag_word where "F_UPGRADE = 32"
definition F_SKIPBODY :: flag_word where "F_SKIPBODY = 64"

lemmas flag_defs = F_CHUNKED_def F_CONNECTION_KEEP_ALIVE_def F_CONNECTION_CLOSE_def
  F_CONNECTION_UPGRADE_def F_TRAILING_def F_UPGRADE_def F_SKIPBODY_def

definition HTTP_MAX_HEADER_SIZE :: nat where "HTTP_MAX_HEADER_SIZE = 80 * 1024"

definition ULLONG_MAX :: u64 where "ULLONG_MAX = - 1"

datatype (plugins only: code size) http_errno =
    HPE_OK | HPE_CB_message_begin | HPE_CB_url
  | HPE_CB_header_field | HPE_CB_header_value | HPE_CB_headers_complete
  | HPE_CB_body | HPE_CB_message_complete | HPE_CB_status
  | HPE_CB_chunk_header | HPE_CB_chunk_complete | HPE_INVALID_EOF_STATE
  | HPE_HEADER_OVERFLOW | HPE_CLOSED_CONNECTION | HPE_INVALID_VERSION
  | HPE_INVALID_STATUS | HPE_INVALID_METHOD | HPE_INVALID_URL
  | HPE_INVALID_HOST | HPE_INVALID_PORT | HPE_INVALID_PATH
  | HPE_INVALID_QUERY_STRING | HPE_INVALID_FRAGMENT | HPE_LF_EXPECTED
  | HPE_INVALID_HEADER_TOKEN | HPE_INVALID_CONTENT_LENGTH | HPE_INVALID_CHUNK_SIZE
  | HPE_INVALID_CONSTANT | HPE_INVALID_INTERNAL_STATE | HPE_STRICT
  | HPE_PAUSED | HPE_UNKNOWN

primrec http_errno_name :: "http_errno \<Rightarrow> string" where
  "http_errno_name HPE_OK = ''HPE_OK''"
| "http_errno_name HPE_CB_message_begin = ''HPE_CB_message_begin''"
| "http_errno_name HPE_CB_url = ''HPE_CB_url''"
| "http_errno_name HPE_CB_header_field = ''HPE_CB_header_field''"
| "http_errno_name HPE_CB_header_value = ''HPE_CB_header_value''"
| "http_errno_name HPE_CB_headers_complete = ''HPE_CB_headers_complete''"
| "http_errno_name HPE_CB_body = ''HPE_CB_body''"
| "http_errno_name HPE_CB_message_complete = ''HPE_CB_message_complete''"
| "http_errno_name HPE_CB_status = ''HPE_CB_status''"
| "http_errno_name HPE_CB_chunk_header = ''HPE_CB_chunk_header''"
| "http_errno_name HPE_CB_chunk_complete = ''HPE_CB_chunk_complete''"
| "http_errno_name HPE_INVALID_EOF_STATE = ''HPE_INVALID_EOF_STATE''"
| "http_errno_name HPE_HEADER_OVERFLOW = ''HPE_HEADER_OVERFLOW''"
| "http_errno_name HPE_CLOSED_CONNECTION = ''HPE_CLOSED_CONNECTION''"
| "http_errno_name HPE_INVALID_VERSION = ''HPE_INVALID_VERSION''"
| "http_errno_name HPE_INVALID_STATUS = ''HPE_INVALID_STATUS''"
| "http_errno_name HPE_INVALID_METHOD = ''HPE_INVALID_METHOD''"
| "http_errno_name HPE_INVALID_URL = ''HPE_INVALID_URL''"
| "http_errno_name HPE_INVALID_HOST = ''HPE_INVALID_HOST''"
| "http_errno_name HPE_INVALID_PORT = ''HPE_INVALID_PORT''"
| "http_errno_name HPE_INVALID_PATH = ''HPE_INVALID_PATH''"
| "http_errno_name HPE_INVALID_QUERY_STRING = ''HPE_INVALID_QUERY_STRING''"
| "http_errno_name HPE_INVALID_FRAGMENT = ''HPE_INVALID_FRAGMENT''"
| "http_errno_name HPE_LF_EXPECTED = ''HPE_LF_EXPECTED''"
| "http_errno_name HPE_INVALID_HEADER_TOKEN = ''HPE_INVALID_HEADER_TOKEN''"
| "http_errno_name HPE_INVALID_CONTENT_LENGTH = ''HPE_INVALID_CONTENT_LENGTH''"
| "http_errno_name HPE_INVALID_CHUNK_SIZE = ''HPE_INVALID_CHUNK_SIZE''"
| "http_errno_name HPE_INVALID_CONSTANT = ''HPE_INVALID_CONSTANT''"
| "http_errno_name HPE_INVALID_INTERNAL_STATE = ''HPE_INVALID_INTERNAL_STATE''"
| "http_errno_name HPE_STRICT = ''HPE_STRICT''"
| "http_errno_name HPE_PAUSED = ''HPE_PAUSED''"
| "http_errno_name HPE_UNKNOWN = ''HPE_UNKNOWN''"

primrec http_errno_description :: "http_errno \<Rightarrow> string" where
  "http_errno_description HPE_OK = ''success''"
| "http_errno_description HPE_CB_message_begin = ''the on_message_begin callback failed''"
| "http_errno_description HPE_CB_url = ''the on_url callback failed''"
| "http_errno_description HPE_CB_header_field = ''the on_header_field callback failed''"
| "http_errno_description HPE_CB_header_value = ''the on_header_value callback failed''"
| "http_errno_description HPE_CB_headers_complete = ''the on_headers_complete callback failed''"
| "http_errno_description HPE_CB_body = ''the on_body callback failed''"
| "http_errno_description HPE_CB_message_complete = ''the on_message_complete callback failed''"
| "http_errno_description HPE_CB_status = ''the on_status callback failed''"
| "http_errno_description HPE_CB_chunk_header = ''the on_chunk_header callback failed''"
| "http_errno_description HPE_CB_chunk_complete = ''the on_chunk_complete callback failed''"
| "http_errno_description HPE_INVALID_EOF_STATE = ''stream ended at an unexpected time''"
| "http_errno_description HPE_HEADER_OVERFLOW = ''too many header bytes seen; overflow detected''"
| "http_errno_description HPE_CLOSED_CONNECTION = ''data received after completed connection: close message''"
| "http_errno_description HPE_INVALID_VERSION = ''invalid HTTP version''"
| "http_errno_description HPE_INVALID_STATUS = ''invalid HTTP status code''"
| "http_errno_description HPE_INVALID_METHOD = ''invalid HTTP method''"
| "http_errno_description HPE_INVALID_URL = ''invalid URL''"
| "http_errno_description HPE_INVALID_HOST = ''invalid host''"
| "http_errno_description HPE_INVALID_PORT = ''invalid port''"
| "http_errno_description HPE_INVALID_PATH = ''invalid path''"
| "http_errno_description HPE_INVALID_QUERY_STRING = ''invalid query string''"
| "http_errno_description HPE_INVALID_FRAGMENT = ''invalid fragment''"
| "http_errno_description HPE_LF_EXPECTED = ''LF character expected''"
| "http_errno_description HPE_INVALID_HEADER_TOKEN = ''invalid character in header''"
| "http_errno_description HPE_INVALID_CONTENT_LENGTH = ''invalid character in content-length header''"
| "http_errno_description HPE_INVALID_CHUNK_SIZE = ''invalid character in chunk size header''"
| "http_errno_description HPE_INVALID_CONSTANT = ''invalid constant string''"
| "http_errno_description HPE_INVALID_INTERNAL_STATE = ''encountered unexpected internal state''"
| "http_errno_description HPE_STRICT = ''strict mode assertion failed''"
| "http_errno_description HPE_PAUSED = ''parser is paused''"
| "http_errno_description HPE_UNKNOWN = ''an unknown error occurred''"

section \<open>Automaton states\<close>

datatype (plugins only: code size) state =
    s_dead | s_start_req_or_res | s_res_or_resp_H
  | s_start_res | s_res_H | s_res_HT
  | s_res_HTT | s_res_HTTP | s_res_first_http_major
  | s_res_http_major | s_res_first_http_minor | s_res_http_minor
  | s_res_first_status_code | s_res_status_code | s_res_status_start
  | s_res_status | s_res_line_almost_done | s_start_req
  | s_req_method | s_req_spaces_before_url | s_req_schema
  | s_req_schema_slash | s_req_schema_slash_slash | s_req_server_start
  | s_req_server | s_req_server_with_at | s_req_path
  | s_req_query_string_start | s_req_query_string | s_req_fragment_start
  | s_req_fragment | s_req_http_start | s_req_http_H
  | s_req_http_HT | s_req_http_HTT | s_req_http_HTTP
  | s_req_first_http_major | s_req_http_major | s_req_first_http_minor
  | s_req_http_minor | s_req_line_almost_done | s_header_field_start
  | s_header_field | s_header_value_discard_ws | s_header_value_discard_ws_almost_done
  | s_header_value_discard_lws | s_header_value_start | s_header_value
  | s_header_value_lws | s_header_almost_done | s_chunk_size_start
  | s_chunk_size | s_chunk_parameters | s_chunk_size_almost_done
  | s_headers_almost_done | s_headers_done | s_chunk_data
  | s_chunk_data_almost_done | s_chunk_data_done | s_body_identity
  | s_body_identity_eof | s_message_done

text \<open>The values of the enumeration, in declaration order from \<open>s_dead = 1\<close>.\<close>

primrec state_num :: "state \<Rightarrow> nat" where
  "state_num s_dead = 1"
| "state_num s_start_req_or_res = 2"
| "state_num s_res_or_resp_H = 3"
| "state_num s_start_res = 4"
| "state_num s_res_H = 5"
| "state_num s_res_HT = 6"
| "state_num s_res_HTT = 7"
| "state_num s_res_HTTP = 8"
| "state_num s_res_first_http_major = 9"
| "state_num s_res_http_major = 10"
| "state_num s_res_first_http_minor = 11"
| "state_num s_res_http_minor = 12"
| "state_num s_res_first_status_code = 13"
| "state_num s_res_status_code = 14"
| "state_num s_res_status_start = 15"
| "state_num s_res_status = 16"
| "state_num s_res_line_almost_done = 17"
| "state_num s_start_req = 18"
| "state_num s_req_method = 19"
| "state_num s_req_spaces_before_url = 20"
| "state_num s_req_schema = 21"
| "state_num s_req_schema_slash = 22"
| "state_num s_req_schema_slash_slash = 23"
| "state_num s_req_server_start = 24"
| "state_num s_req_server = 25"
| "state_num s_req_server_with_at = 26"
| "state_num s_req_path = 27"
| "state_num s_req_query_string_start = 28"
| "state_num s_req_query_string = 29"
| "state_num s_req_fragment_start = 30"
| "state_num s_req_fragment = 31"
| "state_num s_req_http_start = 32"
| "state_num s_req_http_H = 33"
| "state_num s_req_http_HT = 34"
| "state_num s_req_http_HTT = 35"
| "state_num s_req_http_HTTP = 36"
| "state_num s_req_first_http_major = 37"
| "state_num s_req_http_major = 38"
| "state_num s_req_first_http_minor = 39"
| "state_num s_req_http_minor = 40"
| "state_num s_req_line_almost_done = 41"
| "state_num s_header_field_start = 42"
| "state_num s_header_field = 43"
| "state_num s_header_value_discard_ws = 44"
| "state_num s_header_value_discard_ws_almost_done = 45"
| "state_num s_header_value_discard_lws = 46"
| "state_num s_header_value_start = 47"
| "state_num s_header_value = 48"
| "state_num s_header_value_lws = 49"
| "state_num s_header_almost_done = 50"
| "state_num s_chunk_size_start = 51"
| "state_num s_chunk_size = 52"
| "state_num s_chunk_parameters = 53"
| "state_num s_chunk_size_almost_done = 54"
| "state_num s_headers_almost_done = 55"
| "state_num s_headers_done = 56"
| "state_num s_chunk_data = 57"
| "state_num s_chunk_data_almost_done = 58"
| "state_num s_chunk_data_done = 59"
| "state_num s_body_identity = 60"
| "state_num s_body_identity_eof = 61"
| "state_num s_message_done = 62"

datatype (plugins only: code size) header_states =
    h_general | h_C | h_CO
  | h_CON | h_matching_connection | h_matching_proxy_connection
  | h_matching_content_length | h_matching_transfer_encoding | h_matching_upgrade
  | h_connection | h_content_length | h_transfer_encoding
  | h_upgrade | h_matching_transfer_encoding_chunked | h_matching_connection_token_start
  | h_matching_connection_keep_alive | h_matching_connection_close | h_matching_connection_upgrade
  | h_matching_connection_token | h_transfer_encoding_chunked | h_connection_keep_alive
  | h_connection_close | h_connection_upgrade

datatype (plugins only: code size) http_host_state =
    s_http_host_dead | s_http_userinfo_start | s_http_userinfo
  | s_http_host_start | s_http_host_v6_start | s_http_host
  | s_http_host_v6 | s_http_host_v6_end | s_http_host_v6_zone_start
  | s_http_host_v6_zone | s_http_host_port_start | s_http_host_port

section \<open>Character tables\<close>

text \<open>
  C fills the entries an initialiser does not give with zero: \<open>tokens\<close>, \<open>unhex\<close> and
  \<open>normal_url_char\<close> give the first half of their tables only.
\<close>

definition tokens :: "byte list" where
  "tokens =
    [NUL, NUL, NUL, NUL, NUL, NUL, NUL, NUL,
     NUL, NUL, NUL, NUL, NUL, NUL, NUL, NUL,
     NUL, NUL, NUL, NUL, NUL, NUL, NUL, NUL,
     NUL, NUL, NUL, NUL, NUL, NUL, NUL, NUL,
     NUL, CHR ''!'', NUL, CHR ''#'', CHR ''$'', CHR ''%'', CHR ''&'', CHR 0x27,
     NUL, NUL, CHR ''*'', CHR ''+'', NUL, CHR ''-'', CHR ''.'', NUL,
     CHR 0x30, CHR 0x31, CHR 0x32, CHR 0x33, CHR 0x34, CHR 0x35, CHR 0x36, CHR 0x37,
     CHR 0x38, CHR 0x39, NUL, NUL, NUL, NUL, NUL, NUL,
     NUL, CHR ''a'', CHR ''b'', CHR ''c'', CHR ''d'', CHR ''e'', CHR ''f'', CHR ''g'',
     CHR ''h'', CHR ''i'', CHR ''j'', CHR ''k'', CHR ''l'', CHR ''m'', CHR ''n'', CHR ''o'',
     CHR ''p'', CHR ''q'', CHR ''r'', CHR ''s'', CHR ''t'', CHR ''u'', CHR ''v'', CHR ''w'',
     CHR ''x'', CHR ''y'', CHR ''z'', NUL, NUL, NUL, CHR ''^'', CHR ''_'',
     CHR 0x60, CHR ''a'', CHR ''b'', CHR ''c'', CHR ''d'', CHR ''e'', CHR ''f'', CHR ''g'',
     CHR ''h'', CHR ''i'', CHR ''j'', CHR ''k'', CHR ''l'', CHR ''m'', CHR ''n'', CHR ''o'',
     CHR ''p'', CHR ''q'', CHR ''r'', CHR ''s'', CHR ''t'', CHR ''u'', CHR ''v'', CHR ''w'',
     CHR ''x'', CHR ''y'', CHR ''z'', NUL, CHR ''|'', NUL, CHR ''~'', NUL] @ replicate 128 NUL"

definition unhex :: "int list" where
  "unhex =
    [-1, -1, -1, -1, -1, -1, -1, -1, -1, -1, -1, -1, -1, -1, -1, -1,
     -1, -1, -1, -1, -1, -1, -1, -1, -1, -1, -1, -1, -1, -1, -1, -1,
     -1, -1, -1, -1, -1, -1, -1, -1, -1, -1, -1, -1, -1, -1, -1, -1,
     0, 1, 2, 3, 4, 5, 6, 7, 8, 9, -1, -1, -1, -1, -1, -1,
     -1, 10, 11, 12, 13, 14, 15, -1, -1, -1, -1, -1, -1, -1, -1, -1,
     -1, -1, -1, -1, -1, -1, -1, -1, -1, -1, -1, -1, -1, -1, -1, -1,
     -1, 10, 11, 12, 13, 14, 15, -1, -1, -1, -1, -1, -1, -1, -1, -1,
     -1, -1, -1, -1, -1, -1, -1, -1, -1, -1, -1, -1, -1, -1, -1, -1] @ replicate 128 0"

definition normal_url_char :: "nat list" where
  "normal_url_char =
    [0,
     0,
     0,
     0,
     0 OR 2 OR 4 OR 0 OR 16 OR 32 OR 64 OR 128,
     1 OR 2 OR 4 OR 8 OR 16 OR 32 OR 64 OR 128,
     1 OR 2 OR 4 OR 8 OR 16 OR 32 OR 64 OR 128,
     1 OR 2 OR 4 OR 8 OR 16 OR 32 OR 64 OR 0,
     1 OR 2 OR 4 OR 8 OR 16 OR 32 OR 64 OR 128,
     1 OR 2 OR 4 OR 8 OR 16 OR 32 OR 64 OR 128,
     1 OR 2 OR 4 OR 8 OR 16 OR 32 OR 64 OR 128,
     1 OR 2 OR 4 OR 8 OR 16 OR 32 OR 64 OR 128,
     1 OR 2 OR 4 OR 8 OR 16 OR 32 OR 64 OR 128,
     1 OR 2 OR 4 OR 8 OR 16 OR 32 OR 64 OR 128,
     1 OR 2 OR 4 OR 8 OR 16 OR 32 OR 64 OR 128,
     1 OR 2 OR 4 OR 8 OR 16 OR 32 OR 64 OR 0] @ replicate 16 0"

text \<open>\<open>BIT_AT(a, i)\<close>.\<close>

definition BIT_AT :: "nat list \<Rightarrow> nat \<Rightarrow> bool" where
  "BIT_AT a i \<longleftrightarrow> (a ! drop_bit 3 i) AND push_bit (i AND 7) 1 \<noteq> 0"

section \<open>Character classes\<close>

definition LOWER :: "byte \<Rightarrow> nat" where
  "LOWER c = (ord c OR 0x20)"

definition IS_ALPHA :: "byte \<Rightarrow> bool" where
  "IS_ALPHA c \<longleftrightarrow> LOWER c \<ge> ord (CHR ''a'') \<and> LOWER c \<le> ord (CHR ''z'')"

definition IS_NUM :: "byte \<Rightarrow> bool" where
  "IS_NUM c \<longleftrightarrow> ord c \<ge> ord (CHR ''0'') \<and> ord c \<le> ord (CHR ''9'')"

definition IS_ALPHANUM :: "byte \<Rightarrow> bool" where
  "IS_ALPHANUM c \<longleftrightarrow> IS_ALPHA c \<or> IS_NUM c"

definition IS_HEX :: "byte \<Rightarrow> bool" where
  "IS_HEX c \<longleftrightarrow> IS_NUM c \<or> (LOWER c \<ge> ord (CHR ''a'') \<and> LOWER c \<le> ord (CHR ''f''))"

definition IS_MARK :: "byte \<Rightarrow> bool" where
  "IS_MARK c \<longleftrightarrow> c = CHR ''-'' \<or> c = CHR ''_'' \<or> c = CHR ''.'' \<or> c = CHR ''!'' \<or>
     c = CHR ''~'' \<or> c = CHR ''*'' \<or> c = CHR 0x27 \<or> c = CHR ''('' \<or> c = CHR '')''"

definition IS_USERINFO_CHAR :: "byte \<Rightarrow> bool" where
  "IS_USERINFO_CHAR c \<longleftrightarrow> IS_ALPHANUM c \<or> IS_MARK c \<or> c = CHR ''%'' \<or>
     c = CHR '';'' \<or> c = CHR '':'' \<or> c = CHR ''&'' \<or> c = CHR ''='' \<or> c = CHR ''+'' \<or>
     c = CHR ''$'' \<or> c = CHR '',''"

definition STRICT_TOKEN :: "byte \<Rightarrow> byte" where
  "STRICT_TOKEN c = tokens ! ord c"

definition TOKEN :: "byte \<Rightarrow> byte" where
  "TOKEN c = tokens ! ord c"

definition IS_URL_CHAR :: "byte \<Rightarrow> bool" where
  "IS_URL_CHAR c \<longleftrightarrow> BIT_AT normal_url_char (ord c)"

definition IS_HOST_CHAR :: "byte \<Rightarrow> bool" where
  "IS_HOST_CHAR c \<longleftrightarrow> IS_ALPHANUM c \<or> c = CHR ''.'' \<or> c = CHR ''-''"

definition unhex_val :: "byte \<Rightarrow> int" where
  "unhex_val c = unhex ! ord c"

section \<open>The order of the parser states\<close>

text \<open>
  \<open>PARSING_HEADER(state)\<close> compares enumeration values: \<open>state <= s_headers_done\<close>. The
  states are ordered by their numbers, which are distinct.
\<close>

definition all_states :: "state list" where
  "all_states =
    [s_dead, s_start_req_or_res, s_res_or_resp_H, s_start_res,
     s_res_H, s_res_HT, s_res_HTT, s_res_HTTP,
     s_res_first_http_major, s_res_http_major, s_res_first_http_minor, s_res_http_minor,
     s_res_first_status_code, s_res_status_code, s_res_status_start, s_res_status,
     s_res_line_almost_done, s_start_req, s_req_method, s_req_spaces_before_url,
     s_req_schema, s_req_schema_slash, s_req_schema_slash_slash, s_req_server_start,
     s_req_server, s_req_server_with_at, s_req_path, s_req_query_string_start,
     s_req_query_string, s_req_fragment_start, s_req_fragment, s_req_http_start,
     s_req_http_H, s_req_http_HT, s_req_http_HTT, s_req_http_HTTP,
     s_req_first_http_major, s_req_http_major, s_req_first_http_minor, s_req_http_minor,
     s_req_line_almost_done, s_header_field_start, s_header_field, s_header_value_discard_ws,
     s_header_value_discard_ws_almost_done, s_header_value_discard_lws, s_header_value_start, s_header_value,
     s_header_value_lws, s_header_almost_done, s_chunk_size_start, s_chunk_size,
     s_chunk_parameters, s_chunk_size_almost_done, s_headers_almost_done, s_headers_done,
     s_chunk_data, s_chunk_data_almost_done, s_chunk_data_done, s_body_identity,
     s_body_identity_eof, s_message_done]"

lemma nth_all_states: "all_states ! (state_num s - 1) = s"
  by (cases s) (simp_all only: state_num.simps all_states_def, simp_all)

lemma state_num_inject: "state_num s = state_num t \<longleftrightarrow> s = t"
  by (metis nth_all_states)

lemma equal_state_num [code]: "HOL.equal s t \<longleftrightarrow> state_num s = state_num t"
  by (simp add: equal state_num_inject)

instantiation state :: linorder
begin

definition less_eq_state :: "state \<Rightarrow> state \<Rightarrow> bool" where
  "less_eq_state s t \<longleftrightarrow> state_num s \<le> state_num t"

definition less_state :: "state \<Rightarrow> state \<Rightarrow> bool" where
  "less_state s t \<longleftrightarrow> state_num s < state_num t"

instance
  by standard (auto simp: less_eq_state_def less_state_def state_num_inject)

end

definition PARSING_HEADER :: "state \<Rightarrow> bool" where
  "PARSING_HEADER s \<longleftrightarrow> s \<le> s_headers_done"

section \<open>The tables in closed form\<close>

text \<open>
  What the tables hold, entry by entry: a header token is a printable ASCII byte that is no
  separator, and is lower-cased by the table; \<open>unhex\<close> gives hexadecimal digits their
  value, other ASCII bytes \<open>-1\<close>, and the bytes from 128 on, which its initialiser leaves
  out, \<open>0\<close>.
\<close>

definition token_of :: "nat \<Rightarrow> byte" where
  "token_of n =
     (if 65 \<le> n \<and> n \<le> 90 then char_of (n + 32)
      else if n = 33 \<or> (35 \<le> n \<and> n \<le> 39) \<or> n = 42 \<or> n = 43 \<or> n = 45 \<or> n = 46 \<or>
              (48 \<le> n \<and> n \<le> 57) \<or> (94 \<le> n \<and> n \<le> 122) \<or> n = 124 \<or> n = 126
           then char_of n
      else NUL)"

definition unhex_of :: "nat \<Rightarrow> int" where
  "unhex_of n =
     (if 128 \<le> n then 0
      else if 48 \<le> n \<and> n \<le> 57 then int n - 48
      else if 97 \<le> n \<and> n \<le> 102 then int n - 87
      else if 65 \<le> n \<and> n \<le> 70 then int n - 55
      else - 1)"

lemma unhex_table: "unhex = map unhex_of [0..<256]"
  by code_simp

lemma tokens_table: "tokens = map token_of [0..<256]"
  by code_simp

lemma all_bytes: "(\<forall>c\<in>set (Enum.enum :: byte list). P c) \<Longrightarrow> P c"
  by (simp add: enum_UNIV)

lemma unhex_val_eq: "unhex_val c = unhex_of (ord c)"
  by (simp add: unhex_val_def unhex_table)

lemma TOKEN_eq: "TOKEN c = token_of (ord c)"
  by (simp add: TOKEN_def tokens_table)

lemma STRICT_TOKEN_eq: "STRICT_TOKEN c = token_of (ord c)"
  by (simp add: STRICT_TOKEN_def tokens_table)

lemma IS_URL_CHAR_all: "\<forall>c\<in>set Enum.enum.
    IS_URL_CHAR c \<longleftrightarrow> 33 \<le> ord c \<and> ord c \<le> 126 \<and> ord c \<noteq> 35 \<and> ord c \<noteq> 63"
  by code_simp

lemma IS_URL_CHAR_iff [char_class]:
  "IS_URL_CHAR c \<longleftrightarrow> 33 \<le> ord c \<and> ord c \<le> 126 \<and> ord c \<noteq> 35 \<and> ord c \<noteq> 63"
  by (rule all_bytes [OF IS_URL_CHAR_all])

lemma IS_ALPHA_all: "\<forall>c\<in>set Enum.enum.
    IS_ALPHA c \<longleftrightarrow> (65 \<le> ord c \<and> ord c \<le> 90) \<or> (97 \<le> ord c \<and> ord c \<le> 122)"
  by code_simp

lemma IS_ALPHA_iff [char_class]:
  "IS_ALPHA c \<longleftrightarrow> (65 \<le> ord c \<and> ord c \<le> 90) \<or> (97 \<le> ord c \<and> ord c \<le> 122)"
  by (rule all_bytes [OF IS_ALPHA_all])

lemma IS_HEX_all: "\<forall>c\<in>set Enum.enum. IS_HEX c \<longleftrightarrow>
    (48 \<le> ord c \<and> ord c \<le> 57) \<or> (65 \<le> ord c \<and> ord c \<le> 70) \<or> (97 \<le> ord c \<and> ord c \<le> 102)"
  by code_simp

lemma IS_HEX_iff [char_class]: "IS_HEX c \<longleftrightarrow>
    (48 \<le> ord c \<and> ord c \<le> 57) \<or> (65 \<le> ord c \<and> ord c \<le> 70) \<or> (97 \<le> ord c \<and> ord c \<le> 102)"
  by (rule all_bytes [OF IS_HEX_all])

lemma IS_NUM_iff [char_class]: "IS_NUM c \<longleftrightarrow> 48 \<le> ord c \<and> ord c \<le> 57"
  by (simp add: IS_NUM_def)

lemma IS_NUM_is_digit: "IS_NUM = is_digit"
  by (simp add: fun_eq_iff IS_NUM_iff is_digit_def)

declare IS_ALPHANUM_def [char_class] IS_MARK_def [char_class] IS_USERINFO_CHAR_def [char_class]
  IS_HOST_CHAR_def [char_class]

end
