(* ===== verification/Automaton.thy ===== *)
theory Automaton
  imports QS_Prelude
begin

text \<open>
  The interface of the byte automata of \<open>http_parser.c\<close>: a transition function with an
  absorbing error state. The URL automaton (\<open>parse_url_char\<close>) and the authority
  automaton (\<open>http_parse_host_char\<close>) interpret it in \<open>Url_Parser\<close>.
\<close>

fun run_automaton :: "('s \<Rightarrow> 'c \<Rightarrow> 's) \<Rightarrow> 's \<Rightarrow> 'c list \<Rightarrow> 's" where
  "run_automaton step s [] = s"
| "run_automaton step s (c # cs) = run_automaton step (step s c) cs"

lemma run_automaton_append [simp]:
  "run_automaton step s (xs @ ys) = run_automaton step (run_automaton step s xs) ys"
  by (induction xs arbitrary: s) simp_all

lemma run_automaton_stay:
  "(\<And>c. c \<in> set xs \<Longrightarrow> step s c = s) \<Longrightarrow> run_automaton step s xs = s"
  by (induction xs) simp_all

locale sink_automaton =
  fixes step :: "'s \<Rightarrow> 'c \<Rightarrow> 's"
    and dead :: 's
    and forbidden :: "'c \<Rightarrow> bool"
  assumes dead_step: "step dead c = dead"
    and forbidden_step: "forbidden c \<Longrightarrow> step s c = dead"
begin

lemma run_dead: "run_automaton step dead xs = dead"
  by (induction xs) (simp_all add: dead_step)

lemma alive_prefix:
  "run_automaton step s (xs @ ys) \<noteq> dead \<Longrightarrow> run_automaton step s xs \<noteq> dead"
  using run_dead by auto

lemma forbidden_kills: "c \<in> set xs \<Longrightarrow> forbidden c \<Longrightarrow> run_automaton step s xs = dead"
  by (induction xs arbitrary: s) (auto simp: forbidden_step run_dead)

lemma alive_allowed: "run_automaton step s xs \<noteq> dead \<Longrightarrow> c \<in> set xs \<Longrightarrow> \<not> forbidden c"
  using forbidden_kills by blast

end

end
