(* ===== verification/Url_Parser.thy ===== *)
theory Url_Parser
  imports Http_Types Automaton
begin

text \<open>
  The URL parser of \<open>src/lib/http_parser.c\<close>: the two byte automata, the pass that turns
  states into field positions (\<open>http_parser_parse_url\<close>) and the pass over the authority
  (\<open>http_parse_host\<close>). Offsets and lengths are the 16-bit fields of the C structure.
\<close>

section \<open>The URL automaton\<close>

definition parse_url_char :: "state \<Rightarrow> byte \<Rightarrow> state" where
  "parse_url_char s ch =
     (if ch = SP \<or> ch = CR \<or> ch = LF then s_dead
      else if ch = TAB \<or> ch = FF then s_dead
      else
        let server = (if ch = CHR ''/'' then s_req_path
                      else if ch = CHR ''?'' then s_req_query_string_start
                      else if ch = CHR ''@'' then s_req_server_with_at
                      else if IS_USERINFO_CHAR ch \<or> ch = CHR ''['' \<or> ch = CHR '']'' then s_req_server
                      else s_dead);
            query = (if IS_URL_CHAR ch then s_req_query_string
                     else if ch = CHR ''?'' then s_req_query_string
                     else if ch = CHR ''#'' then s_req_fragment_start
                     else s_dead)
        in case s of
          s_req_spaces_before_url \<Rightarrow>
            (if ch = CHR ''/'' \<or> ch = CHR ''*'' then s_req_path
             else if IS_ALPHA ch then s_req_schema
             else s_dead)
        | s_req_schema \<Rightarrow>
            (if IS_ALPHA ch then s
             else if ch = CHR '':'' then s_req_schema_slash
             else s_dead)
        | s_req_schema_slash \<Rightarrow>
            (if ch = CHR ''/'' then s_req_schema_slash_slash else s_dead)
        | s_req_schema_slash_slash \<Rightarrow>
            (if ch = CHR ''/'' then s_req_server_start else s_dead)
        | s_req_server_with_at \<Rightarrow>
            (if ch = CHR ''@'' then s_dead else server)
        | s_req_server_start \<Rightarrow> server
        | s_req_server \<Rightarrow> server
        | s_req_path \<Rightarrow>
            (if IS_URL_CHAR ch then s
             else if ch = CHR ''?'' then s_req_query_string_start
             else if ch = CHR ''#'' then s_req_fragment_start
             else s_dead)
        | s_req_query_string_start \<Rightarrow> query
        | s_req_query_string \<Rightarrow> query
        | s_req_fragment_start \<Rightarrow>
            (if IS_URL_CHAR ch then s_req_fragment
             else if ch = CHR ''?'' then s_req_fragment
             else if ch = CHR ''#'' then s
             else s_dead)
        | s_req_fragment \<Rightarrow>
            (if IS_URL_CHAR ch then s
             else if ch = CHR ''?'' \<or> ch = CHR ''#'' then s
             else s_dead)
        | _ \<Rightarrow> s_dead)"

section \<open>The authority automaton\<close>

definition http_parse_host_char :: "http_host_state \<Rightarrow> byte \<Rightarrow> http_host_state" where
  "http_parse_host_char s ch =
     (let userinfo = (if ch = CHR ''@'' then s_http_host_start
                      else if IS_USERINFO_CHAR ch then s_http_userinfo
                      else s_http_host_dead);
          v6_end = (if ch = CHR '':'' then s_http_host_port_start else s_http_host_dead);
          v6_start = (if IS_HEX ch \<or> ch = CHR '':'' \<or> ch = CHR ''.'' then s_http_host_v6
                      else if s = s_http_host_v6 \<and> ch = CHR ''%'' then s_http_host_v6_zone_start
                      else s_http_host_dead);
          zone_start = (if IS_ALPHANUM ch \<or> ch = CHR ''%'' \<or> ch = CHR ''.'' \<or> ch = CHR ''-'' \<or>
                           ch = CHR ''_'' \<or> ch = CHR ''~'' then s_http_host_v6_zone
                        else s_http_host_dead);
          port = (if IS_NUM ch then s_http_host_port else s_http_host_dead)
      in case s of
          s_http_userinfo \<Rightarrow> userinfo
        | s_http_userinfo_start \<Rightarrow> userinfo
        | s_http_host_start \<Rightarrow>
            (if ch = CHR ''['' then s_http_host_v6_start
             else if IS_HOST_CHAR ch then s_http_host
             else s_http_host_dead)
        | s_http_host \<Rightarrow> (if IS_HOST_CHAR ch then s_http_host else v6_end)
        | s_http_host_v6_end \<Rightarrow> v6_end
        | s_http_host_v6 \<Rightarrow> (if ch = CHR '']'' then s_http_host_v6_end else v6_start)
        | s_http_host_v6_start \<Rightarrow> v6_start
        | s_http_host_v6_zone \<Rightarrow> (if ch = CHR '']'' then s_http_host_v6_end else zone_start)
        | s_http_host_v6_zone_start \<Rightarrow> zone_start
        | s_http_host_port \<Rightarrow> port
        | s_http_host_port_start \<Rightarrow> port
        | _ \<Rightarrow> s_http_host_dead)"

section \<open>The result structure\<close>

datatype http_parser_url_fields =
  UF_SCHEMA | UF_HOST | UF_PORT | UF_PATH | UF_QUERY | UF_FRAGMENT | UF_USERINFO | UF_MAX

primrec uf_num :: "http_parser_url_fields \<Rightarrow> nat" where
  "uf_num UF_SCHEMA = 0"
| "uf_num UF_HOST = 1"
| "uf_num UF_PORT = 2"
| "uf_num UF_PATH = 3"
| "uf_num UF_QUERY = 4"
| "uf_num UF_FRAGMENT = 5"
| "uf_num UF_USERINFO = 6"
| "uf_num UF_MAX = 7"

record url_field =
  off :: u16
  len :: u16

record http_parser_url =
  field_set :: u16
  port :: u16
  field_data :: "http_parser_url_fields \<Rightarrow> url_field"

text \<open>\<open>1 << uf\<close>, the test \<open>field_set & (1 << uf)\<close> and the assignments to one entry.\<close>

definition uf_bit :: "http_parser_url_fields \<Rightarrow> u16" where
  "uf_bit f = push_bit (uf_num f) 1"

definition uf_is_set :: "http_parser_url \<Rightarrow> http_parser_url_fields \<Rightarrow> bool" where
  "uf_is_set u f \<longleftrightarrow> field_set u AND uf_bit f \<noteq> 0"

definition uf_open :: "http_parser_url_fields \<Rightarrow> nat \<Rightarrow> u16 \<Rightarrow> http_parser_url \<Rightarrow> http_parser_url" where
  "uf_open f i n u =
     u\<lparr>field_data := (field_data u)(f := \<lparr>off = of_nat i, len = n\<rparr>),
       field_set := field_set u OR uf_bit f\<rparr>"

definition uf_grow :: "http_parser_url_fields \<Rightarrow> http_parser_url \<Rightarrow> http_parser_url" where
  "uf_grow f u = u\<lparr>field_data := (field_data u)(f := (field_data u f)\<lparr>len := len (field_data u f) + 1\<rparr>)\<rparr>"

definition uf_set_off :: "http_parser_url_fields \<Rightarrow> nat \<Rightarrow> http_parser_url \<Rightarrow> http_parser_url" where
  "uf_set_off f i u = u\<lparr>field_data := (field_data u)(f := (field_data u f)\<lparr>off := of_nat i\<rparr>)\<rparr>"

section \<open>The pass over the authority\<close>

text \<open>One iteration of the loop of \<open>http_parse_host\<close>, after the state was found alive.\<close>

definition host_step :: "http_host_state \<Rightarrow> http_host_state \<Rightarrow> nat \<Rightarrow> http_parser_url \<Rightarrow> http_parser_url" where
  "host_step s new_s i u =
     (case new_s of
        s_http_host \<Rightarrow> uf_grow UF_HOST (if s \<noteq> s_http_host then uf_set_off UF_HOST i u else u)
      | s_http_host_v6 \<Rightarrow> uf_grow UF_HOST (if s \<noteq> s_http_host_v6 then uf_set_off UF_HOST i u else u)
      | s_http_host_v6_zone_start \<Rightarrow> uf_grow UF_HOST u
      | s_http_host_v6_zone \<Rightarrow> uf_grow UF_HOST u
      | s_http_host_port \<Rightarrow> uf_grow UF_PORT (if s \<noteq> s_http_host_port then uf_open UF_PORT i 0 u else u)
      | s_http_userinfo \<Rightarrow> uf_grow UF_USERINFO (if s \<noteq> s_http_userinfo then uf_open UF_USERINFO i 0 u else u)
      | _ \<Rightarrow> u)"

text \<open>The loop over the bytes of the authority, \<open>i\<close> the offset of the next one; \<open>None\<close> is \<open>return 1\<close>.\<close>

fun host_loop :: "http_host_state \<Rightarrow> nat \<Rightarrow> byte list \<Rightarrow> http_parser_url \<Rightarrow>
    (http_host_state \<times> http_parser_url) option" where
  "host_loop s i [] u = Some (s, u)"
| "host_loop s i (c # cs) u =
     (let new_s = http_parse_host_char s c in
      if new_s = s_http_host_dead then None
      else host_loop new_s (Suc i) cs (host_step s new_s i u))"

definition host_end_bad :: "http_host_state \<Rightarrow> bool" where
  "host_end_bad s \<longleftrightarrow> s \<in> {s_http_host_start, s_http_host_v6_start, s_http_host_v6,
     s_http_host_v6_zone_start, s_http_host_v6_zone, s_http_host_port_start,
     s_http_userinfo, s_http_userinfo_start}"

definition http_parse_host :: "byte list \<Rightarrow> http_parser_url \<Rightarrow> bool \<Rightarrow> http_parser_url option" where
  "http_parse_host buf u found_at =
     (let hoff = unat (off (field_data u UF_HOST));
          n = unat (len (field_data u UF_HOST));
          u1 = u\<lparr>field_data := (field_data u)(UF_HOST := (field_data u UF_HOST)\<lparr>len := 0\<rparr>)\<rparr>;
          s0 = (if found_at then s_http_userinfo_start else s_http_host_start)
      in case host_loop s0 hoff (subbuf hoff n buf) u1 of
           None \<Rightarrow> None
         | Some (s, u2) \<Rightarrow> if host_end_bad s then None else Some u2)"

section \<open>The pass over the URL\<close>

text \<open>The \<open>switch\<close> on the new state: \<open>return 1\<close>, \<open>continue\<close>, or the field the byte is in.\<close>

datatype url_action = Reject | Skip | Field http_parser_url_fields

definition url_action :: "state \<Rightarrow> url_action" where
  "url_action s =
     (case s of
        s_dead \<Rightarrow> Reject
      | s_req_schema_slash \<Rightarrow> Skip
      | s_req_schema_slash_slash \<Rightarrow> Skip
      | s_req_server_start \<Rightarrow> Skip
      | s_req_query_string_start \<Rightarrow> Skip
      | s_req_fragment_start \<Rightarrow> Skip
      | s_req_schema \<Rightarrow> Field UF_SCHEMA
      | s_req_server_with_at \<Rightarrow> Field UF_HOST
      | s_req_server \<Rightarrow> Field UF_HOST
      | s_req_path \<Rightarrow> Field UF_PATH
      | s_req_query_string \<Rightarrow> Field UF_QUERY
      | s_req_fragment \<Rightarrow> Field UF_FRAGMENT
      | _ \<Rightarrow> Reject)"

fun url_loop :: "state \<Rightarrow> http_parser_url_fields \<Rightarrow> bool \<Rightarrow> nat \<Rightarrow> byte list \<Rightarrow> http_parser_url \<Rightarrow>
    (bool \<times> http_parser_url) option" where
  "url_loop s old_uf found_at i [] u = Some (found_at, u)"
| "url_loop s old_uf found_at i (c # cs) u =
     (let s' = parse_url_char s c; found' = (found_at \<or> s' = s_req_server_with_at) in
      case url_action s' of
        Reject \<Rightarrow> None
      | Skip \<Rightarrow> url_loop s' old_uf found' (Suc i) cs u
      | Field uf \<Rightarrow>
          if uf = old_uf then url_loop s' old_uf found' (Suc i) cs (uf_grow uf u)
          else url_loop s' uf found' (Suc i) cs (uf_open uf i 1 u))"

text \<open>
  The tail of \<open>http_parser_parse_url\<close>: the checks on the fields and the conversion of the
  port. \<open>strtoul\<close> reads from the start of the port field up to the first byte that is not
  a digit, wherever the buffer ends.
\<close>

definition url_finish :: "byte list \<Rightarrow> bool \<Rightarrow> bool \<Rightarrow> http_parser_url \<Rightarrow> http_parser_url option" where
  "url_finish buf is_connect found_at u =
     (if uf_is_set u UF_SCHEMA \<and> \<not> uf_is_set u UF_HOST then None
      else case (if uf_is_set u UF_HOST then http_parse_host buf u found_at else Some u) of
        None \<Rightarrow> None
      | Some u2 \<Rightarrow>
          if is_connect \<and> field_set u2 \<noteq> (uf_bit UF_HOST OR uf_bit UF_PORT) then None
          else if uf_is_set u2 UF_PORT then
            (let v = c_strtoul (drop (unat (off (field_data u2 UF_PORT))) buf) in
             if v > 0xffff then None else Some (u2\<lparr>port := of_nat v\<rparr>))
          else Some u2)"

text \<open>
  \<open>http_parser_parse_url\<close>: \<open>None\<close> is a nonzero result. \<open>buf\<close> is the memory from the
  pointer on, \<open>u\<close> the caller's structure, whose entries are not initialised.
\<close>

definition http_parser_parse_url :: "byte list \<Rightarrow> nat \<Rightarrow> bool \<Rightarrow> http_parser_url \<Rightarrow> http_parser_url option" where
  "http_parser_parse_url buf buflen is_connect u =
     (case url_loop (if is_connect then s_req_server_start else s_req_spaces_before_url)
             UF_MAX False 0 (take buflen buf) (u\<lparr>port := 0, field_set := 0\<rparr>) of
        None \<Rightarrow> None
      | Some (found_at, u1) \<Rightarrow> url_finish buf is_connect found_at u1)"

section \<open>The two automata as sink automata\<close>

interpretation url: sink_automaton parse_url_char s_dead "\<lambda>c. c \<in> {SP, CR, LF, TAB, FF}"
proof
  show "parse_url_char s_dead c = s_dead" for c
    by (simp add: parse_url_char_def)
  show "parse_url_char s c = s_dead" if "c \<in> {SP, CR, LF, TAB, FF}" for s c
    using that by (elim insertE emptyE; simp only: parse_url_char_def simp_thms if_True if_cancel)
qed

interpretation authority: sink_automaton http_parse_host_char s_http_host_dead
    "\<lambda>c. c \<in> {SP, CR, LF, TAB, FF, CHR ''/'', CHR ''?'', CHR ''#''}"
proof
  show "http_parse_host_char s_http_host_dead c = s_http_host_dead" for c
    by (simp add: http_parse_host_char_def)
  show "http_parse_host_char s c = s_http_host_dead"
    if "c \<in> {SP, CR, LF, TAB, FF, CHR ''/'', CHR ''?'', CHR ''#''}" for s c
    using that by (cases s) (auto simp: http_parse_host_char_def char_class)
qed

section \<open>Lemmas on the result structure\<close>

lemma uf_num_inject [simp]: "uf_num f = uf_num g \<longleftrightarrow> f = g"
  by (cases f; cases g) simp_all

lemma uf_num_less: "uf_num f < 16"
  by (cases f) simp_all

lemma bit_uf_bit [simp]: "bit (uf_bit f) (uf_num g) \<longleftrightarrow> f = g"
  by (cases f; cases g; simp add: uf_bit_def bit_1_iff bit_push_bit_iff)

lemma uf_is_set_bit: "uf_is_set u f \<longleftrightarrow> bit (field_set u) (uf_num f)"
proof -
  have "uf_bit f = 2 ^ uf_num f"
    by (simp add: uf_bit_def push_bit_eq_mult)
  then show ?thesis
    by (simp add: uf_is_set_def and_exp_eq_0_iff_not_bit)
qed

lemma uf_is_set_open [simp]: "uf_is_set (uf_open f i n u) g \<longleftrightarrow> g = f \<or> uf_is_set u g"
  by (auto simp: uf_is_set_bit uf_open_def bit_or_iff)

lemma uf_is_set_grow [simp]: "uf_is_set (uf_grow f u) g = uf_is_set u g"
  by (simp add: uf_is_set_def uf_grow_def)

lemma uf_is_set_set_off [simp]: "uf_is_set (uf_set_off f i u) g = uf_is_set u g"
  by (simp add: uf_is_set_def uf_set_off_def)

lemma uf_is_set_port [simp]: "uf_is_set (u\<lparr>port := v\<rparr>) g = uf_is_set u g"
  by (simp add: uf_is_set_def)

lemma uf_is_set_data [simp]: "uf_is_set (u\<lparr>field_data := d\<rparr>) g = uf_is_set u g"
  by (simp add: uf_is_set_def)

lemma uf_is_set_init [simp]: "\<not> uf_is_set (u\<lparr>port := p, field_set := 0\<rparr>) g"
  by (simp add: uf_is_set_def)

lemma field_data_open [simp]:
  "field_data (uf_open f i n u) g = (if g = f then \<lparr>off = of_nat i, len = n\<rparr> else field_data u g)"
  by (simp add: uf_open_def)

lemma field_data_grow [simp]:
  "field_data (uf_grow f u) g =
     (if g = f then (field_data u f)\<lparr>len := len (field_data u f) + 1\<rparr> else field_data u g)"
  by (simp add: uf_grow_def)

lemma field_data_set_off [simp]:
  "field_data (uf_set_off f i u) g =
     (if g = f then (field_data u f)\<lparr>off := of_nat i\<rparr> else field_data u g)"
  by (simp add: uf_set_off_def)

lemma port_frame [frame]:
  "port (uf_open f i n u) = port u" "port (uf_grow f u) = port u" "port (uf_set_off f i u) = port u"
  by (simp_all add: uf_open_def uf_grow_def uf_set_off_def)

text \<open>The text of a field, as the callers copy it out of the buffer; \<open>None\<close> if it is not set.\<close>

definition uf_text :: "byte list \<Rightarrow> http_parser_url \<Rightarrow> http_parser_url_fields \<Rightarrow> byte list option" where
  "uf_text buf u f =
     (if uf_is_set u f
      then Some (subbuf (unat (off (field_data u f))) (unat (len (field_data u f))) buf)
      else None)"

section \<open>Rejected bytes\<close>

lemma url_loop_dead:
  "run_automaton parse_url_char s cs = s_dead \<Longrightarrow> s \<noteq> s_dead \<Longrightarrow>
     url_loop s old fnd i cs u = None"
proof (induction cs arbitrary: s old fnd i u)
  case (Cons c cs)
  show ?case
  proof (cases "parse_url_char s c = s_dead")
    case True
    then show ?thesis by (simp add: url_action_def)
  next
    case False
    with Cons show ?thesis by (auto simp: Let_def split: url_action.split)
  qed
qed simp

lemma parse_url_alive:
  assumes "http_parser_parse_url buf buflen ic u = Some u'"
  shows "run_automaton parse_url_char (if ic then s_req_server_start else s_req_spaces_before_url)
           (take buflen buf) \<noteq> s_dead"
  using assms url_loop_dead [of "if ic then s_req_server_start else s_req_spaces_before_url" "take buflen buf"]
  by (auto simp: http_parser_parse_url_def split: option.splits if_splits)

end
