(* ===== verification/Url_Facts.thy ===== *)
theory Url_Facts
  imports Url_Parser
begin

text \<open>
  Correctness of the URL parser: every reported field lies inside the buffer
  (\<open>parse_url_bounds\<close>), and a URL of the shape the client builds,
  scheme, authority with optional port, path and optional query, is taken apart into
  exactly these pieces (\<open>parse_url_fields\<close>).
\<close>

section \<open>Rejected bytes\<close>

text \<open>
  C32. An accepted URL holds no space, tab, form feed, carriage return or line feed: a
  header line or request line built from it cannot be split by its bytes.
\<close>

theorem parse_url_no_separator:
  assumes "http_parser_parse_url buf buflen ic u = Some u'"
    and "c \<in> set (take buflen buf)"
  shows "c \<notin> {SP, CR, LF, TAB, FF}"
  using url.alive_allowed [OF parse_url_alive [OF assms(1)] assms(2)] .

section \<open>Steps of the automata on the classes of bytes\<close>

lemma schema_start: "IS_ALPHA c \<Longrightarrow> parse_url_char s_req_spaces_before_url c = s_req_schema"
  by (auto simp: parse_url_char_def char_class byte_eq_iff)

lemma schema_more: "IS_ALPHA c \<Longrightarrow> parse_url_char s_req_schema c = s_req_schema"
  by (auto simp: parse_url_char_def char_class byte_eq_iff)

lemma schema_delims:
  "parse_url_char s_req_schema (CHR '':'') = s_req_schema_slash"
  "parse_url_char s_req_schema_slash (CHR ''/'') = s_req_schema_slash_slash"
  "parse_url_char s_req_schema_slash_slash (CHR ''/'') = s_req_server_start"
  by (simp_all add: parse_url_char_def char_class)

lemma server_char:
  assumes "IS_HOST_CHAR c \<or> IS_NUM c \<or> c = CHR '':''"
  shows "parse_url_char s_req_server_start c = s_req_server"
    and "parse_url_char s_req_server c = s_req_server"
  using assms by (auto simp: parse_url_char_def char_class byte_eq_iff)

lemma path_start:
  "parse_url_char s_req_server (CHR ''/'') = s_req_path"
  by (simp add: parse_url_char_def)

lemma path_more: "IS_URL_CHAR c \<Longrightarrow> parse_url_char s_req_path c = s_req_path"
  by (auto simp: parse_url_char_def char_class byte_eq_iff)

lemma query_start:
  "parse_url_char s_req_path (CHR ''?'') = s_req_query_string_start"
  by (simp add: parse_url_char_def char_class)

lemma query_more:
  assumes "IS_URL_CHAR c \<or> c = CHR ''?''"
  shows "parse_url_char s_req_query_string_start c = s_req_query_string"
    and "parse_url_char s_req_query_string c = s_req_query_string"
  using assms by (auto simp: parse_url_char_def char_class byte_eq_iff)

lemma host_char:
  assumes "IS_HOST_CHAR c"
  shows "http_parse_host_char s_http_host_start c = s_http_host"
    and "http_parse_host_char s_http_host c = s_http_host"
  using assms by (auto simp: http_parse_host_char_def char_class byte_eq_iff)

lemma host_colon: "http_parse_host_char s_http_host (CHR '':'') = s_http_host_port_start"
  by (simp add: http_parse_host_char_def char_class)

lemma port_char:
  assumes "IS_NUM c"
  shows "http_parse_host_char s_http_host_port_start c = s_http_host_port"
    and "http_parse_host_char s_http_host_port c = s_http_host_port"
  using assms by (auto simp: http_parse_host_char_def char_class byte_eq_iff)

section \<open>Segments: a run of bytes inside one field\<close>

definition uf_add :: "http_parser_url_fields \<Rightarrow> nat \<Rightarrow> http_parser_url \<Rightarrow> http_parser_url" where
  "uf_add f n u = u\<lparr>field_data := (field_data u)(f := (field_data u f)\<lparr>len := len (field_data u f) + of_nat n\<rparr>)\<rparr>"

lemma uf_add_0 [simp]: "uf_add f 0 u = u"
  by (simp add: uf_add_def)

lemma uf_add_grow [simp]: "uf_add f n (uf_grow f u) = uf_add f (Suc n) u"
  by (simp add: uf_add_def uf_grow_def add.assoc)

lemma uf_add_open [simp]: "uf_add f n (uf_open f i m u) = uf_open f i (m + of_nat n) u"
  by (simp add: uf_add_def uf_open_def)

lemma url_segment_more:
  assumes "\<And>c. c \<in> set xs \<Longrightarrow> parse_url_char s c = s"
    and "url_action s = Field f" and "s \<noteq> s_req_server_with_at"
  shows "url_loop s f fnd i (xs @ ys) u = url_loop s f fnd (i + length xs) ys (uf_add f (length xs) u)"
  using assms(1)
proof (induction xs arbitrary: i u)
  case (Cons c xs)
  from Cons.prems have "parse_url_char s c = s" by simp
  with assms(2,3) Cons show ?case by simp
qed simp

lemma url_segment:
  assumes "xs \<noteq> []" and "parse_url_char s (hd xs) = s'"
    and "\<And>c. c \<in> set xs \<Longrightarrow> parse_url_char s' c = s'"
    and "url_action s' = Field f" and "s' \<noteq> s_req_server_with_at" and "f \<noteq> old"
  shows "url_loop s old fnd i (xs @ ys) u =
           url_loop s' f fnd (i + length xs) ys (uf_open f i (of_nat (length xs)) u)"
proof (cases xs)
  case (Cons c cs)
  have "url_loop s' f fnd (Suc i) (cs @ ys) (uf_open f i 1 u) =
      url_loop s' f fnd (Suc i + length cs) ys (uf_add f (length cs) (uf_open f i 1 u))"
    by (rule url_segment_more) (use assms Cons in auto)
  with assms Cons show ?thesis by simp
qed (use assms in simp)

lemma url_skip:
  assumes "parse_url_char s c = s'" and "url_action s' = Skip"
  shows "url_loop s old fnd i (c # ys) u = url_loop s' old fnd (Suc i) ys u"
proof -
  have "s' \<noteq> s_req_server_with_at" using assms(2) by (auto simp: url_action_def)
  with assms show ?thesis by simp
qed

lemma host_segment_more:
  assumes "\<And>c. c \<in> set xs \<Longrightarrow> IS_HOST_CHAR c"
  shows "host_loop s_http_host i (xs @ ys) u =
           host_loop s_http_host (i + length xs) ys (uf_add UF_HOST (length xs) u)"
  using assms
  by (induction xs arbitrary: i u) (simp_all add: host_char host_step_def)

lemma port_segment_more:
  assumes "\<And>c. c \<in> set xs \<Longrightarrow> IS_NUM c"
  shows "host_loop s_http_host_port i (xs @ ys) u =
           host_loop s_http_host_port (i + length xs) ys (uf_add UF_PORT (length xs) u)"
  using assms
  by (induction xs arbitrary: i u) (simp_all add: port_char host_step_def)

lemma host_segment:
  assumes "xs \<noteq> []" and "\<And>c. c \<in> set xs \<Longrightarrow> IS_HOST_CHAR c"
  shows "host_loop s_http_host_start i (xs @ ys) u =
           host_loop s_http_host (i + length xs) ys (uf_add UF_HOST (length xs) (uf_set_off UF_HOST i u))"
  using assms
  by (cases xs) (simp_all add: host_char host_step_def host_segment_more)

lemma port_segment:
  assumes "xs \<noteq> []" and "\<And>c. c \<in> set xs \<Longrightarrow> IS_NUM c"
  shows "host_loop s_http_host i (CHR '':'' # xs) u =
           Some (s_http_host_port, uf_open UF_PORT (Suc i) (of_nat (length xs)) u)"
proof (cases xs)
  case (Cons c cs)
  have "uf_grow UF_PORT (uf_open UF_PORT (Suc i) 0 u) = uf_open UF_PORT (Suc i) 1 u"
    by (simp add: uf_grow_def uf_open_def)
  with Cons assms port_segment_more [of cs "Suc (Suc i)" "[]"] show ?thesis
    by (simp add: host_colon port_char host_step_def)
qed (use assms in simp)

section \<open>URLs taken apart\<close>

definition authority_text :: "byte list \<Rightarrow> byte list option \<Rightarrow> byte list" where
  "authority_text host prt = host @ (case prt of None \<Rightarrow> [] | Some ds \<Rightarrow> CHR '':'' # ds)"

definition url_text :: "byte list \<Rightarrow> byte list \<Rightarrow> byte list option \<Rightarrow> byte list \<Rightarrow> byte list option \<Rightarrow> byte list" where
  "url_text sch host prt path query =
     sch @ ''://'' @ authority_text host prt @ path @
     (case query of None \<Rightarrow> [] | Some q \<Rightarrow> CHR ''?'' # q)"

definition url_parts :: "byte list \<Rightarrow> byte list \<Rightarrow> byte list option \<Rightarrow> byte list \<Rightarrow> byte list option \<Rightarrow> bool" where
  "url_parts sch host prt path query \<longleftrightarrow>
     sch \<noteq> [] \<and> list_all IS_ALPHA sch \<and>
     host \<noteq> [] \<and> list_all IS_HOST_CHAR host \<and>
     (case prt of None \<Rightarrow> True
      | Some ds \<Rightarrow> ds \<noteq> [] \<and> list_all IS_NUM ds \<and> digits_value 0 ds \<le> 0xffff) \<and>
     path \<noteq> [] \<and> hd path = CHR ''/'' \<and> list_all IS_URL_CHAR path \<and>
     (case query of None \<Rightarrow> True
      | Some q \<Rightarrow> q \<noteq> [] \<and> list_all (\<lambda>c. IS_URL_CHAR c \<or> c = CHR ''?'') q)"

lemma url_action_simps [simp]:
  "url_action s_req_schema = Field UF_SCHEMA" "url_action s_req_server = Field UF_HOST"
  "url_action s_req_path = Field UF_PATH" "url_action s_req_query_string = Field UF_QUERY"
  "url_action s_req_schema_slash = Skip" "url_action s_req_schema_slash_slash = Skip"
  "url_action s_req_server_start = Skip" "url_action s_req_query_string_start = Skip"
  by (simp_all add: url_action_def)

text \<open>The main pass over a well-formed URL opens one field per piece.\<close>

definition url_opened :: "nat \<Rightarrow> nat \<Rightarrow> nat \<Rightarrow> byte list option \<Rightarrow> http_parser_url \<Rightarrow> http_parser_url" where
  "url_opened n_sch n_auth n_path query u =
     (let u1 = uf_open UF_PATH (n_sch + 3 + n_auth) (of_nat n_path)
                 (uf_open UF_HOST (n_sch + 3) (of_nat n_auth)
                   (uf_open UF_SCHEMA 0 (of_nat n_sch) u))
      in case query of None \<Rightarrow> u1
         | Some q \<Rightarrow> uf_open UF_QUERY (n_sch + 3 + n_auth + n_path + 1) (of_nat (length q)) u1)"

lemma authority_bytes:
  assumes "url_parts sch host prt path query" and "c \<in> set (authority_text host prt)"
  shows "IS_HOST_CHAR c \<or> IS_NUM c \<or> c = CHR '':''"
  using assms by (auto simp: url_parts_def authority_text_def list_all_iff split: option.splits)

lemma authority_not_Nil:
  "url_parts sch host prt path query \<Longrightarrow> authority_text host prt \<noteq> []"
  by (auto simp: url_parts_def authority_text_def)

lemma url_loop_schema:
  assumes "sch \<noteq> []" and "list_all IS_ALPHA sch"
  shows "url_loop s_req_spaces_before_url UF_MAX False 0 (sch @ ''://'' @ rest) u =
    url_loop s_req_server_start UF_SCHEMA False (length sch + 3) rest
      (uf_open UF_SCHEMA 0 (of_nat (length sch)) u)"
proof -
  have "url_loop s_req_spaces_before_url UF_MAX False 0 (sch @ ''://'' @ rest) u =
    url_loop s_req_schema UF_SCHEMA False (0 + length sch) (''://'' @ rest)
      (uf_open UF_SCHEMA 0 (of_nat (length sch)) u)"
    by (rule url_segment) (use assms in \<open>auto simp: list_all_iff schema_start schema_more\<close>)
  also have "\<dots> = url_loop s_req_server_start UF_SCHEMA False (length sch + 3) rest
      (uf_open UF_SCHEMA 0 (of_nat (length sch)) u)"
    by (simp add: url_skip schema_delims eval_nat_numeral del: url_loop.simps)
  finally show ?thesis .
qed

lemma url_loop_tail:
  assumes "path \<noteq> []" and "hd path = CHR ''/''" and "list_all IS_URL_CHAR path"
    and "case query of None \<Rightarrow> True
      | Some q \<Rightarrow> q \<noteq> [] \<and> list_all (\<lambda>c. IS_URL_CHAR c \<or> c = CHR ''?'') q"
  shows "url_loop s_req_server UF_HOST fnd i
      (path @ (case query of None \<Rightarrow> [] | Some q \<Rightarrow> CHR ''?'' # q)) u =
    Some (fnd, (let u1 = uf_open UF_PATH i (of_nat (length path)) u in
       case query of None \<Rightarrow> u1
         | Some q \<Rightarrow> uf_open UF_QUERY (i + length path + 1) (of_nat (length q)) u1))"
proof -
  have path: "url_loop s_req_server UF_HOST fnd i (path @ ys) u =
      url_loop s_req_path UF_PATH fnd (i + length path) ys (uf_open UF_PATH i (of_nat (length path)) u)" for ys
    by (rule url_segment) (use assms in \<open>auto simp: list_all_iff path_start path_more\<close>)
  show ?thesis
  proof (cases query)
    case None
    then show ?thesis using path [of "[]"] by simp
  next
    case (Some q)
    have "url_loop s_req_query_string_start UF_PATH fnd j (q @ []) v =
        url_loop s_req_query_string UF_QUERY fnd (j + length q) [] (uf_open UF_QUERY j (of_nat (length q)) v)"
      for j v
      by (rule url_segment) (use assms Some in \<open>auto simp: list_all_iff query_more\<close>)
    with Some show ?thesis
      by (simp add: path url_skip query_start Let_def del: url_loop.simps) simp
  qed
qed

lemma url_loop_text:
  assumes ok: "url_parts sch host prt path query"
  shows "url_loop s_req_spaces_before_url UF_MAX False 0 (url_text sch host prt path query) u =
    Some (False, url_opened (length sch) (length (authority_text host prt)) (length path) query u)"
proof -
  let ?A = "authority_text host prt"
  have "url_loop s_req_server_start UF_SCHEMA False i (?A @ ys) v =
      url_loop s_req_server UF_HOST False (i + length ?A) ys (uf_open UF_HOST i (of_nat (length ?A)) v)"
    for i ys v
    by (rule url_segment)
      (use authority_not_Nil [OF ok] authority_bytes [OF ok] hd_in_set in \<open>auto simp: server_char\<close>)
  with ok show ?thesis
    by (simp add: url_text_def url_parts_def url_loop_schema url_loop_tail url_opened_def
        del: append_Cons append_Nil)
qed

text \<open>The pass over the authority leaves the host without its port.\<close>

definition host_split :: "nat \<Rightarrow> byte list \<Rightarrow> byte list option \<Rightarrow> http_parser_url \<Rightarrow> http_parser_url" where
  "host_split i host prt u =
     (let u1 = uf_add UF_HOST (length host) (uf_set_off UF_HOST i u) in
      case prt of None \<Rightarrow> u1
      | Some ds \<Rightarrow> uf_open UF_PORT (i + length host + 1) (of_nat (length ds)) u1)"

lemma host_loop_authority:
  assumes "url_parts sch host prt path query"
  shows "\<exists>s. host_loop s_http_host_start i (authority_text host prt) u = Some (s, host_split i host prt u)
           \<and> \<not> host_end_bad s"
proof (cases prt)
  case None
  with assms show ?thesis
    using host_segment [of host i "[]" u]
    by (auto simp: url_parts_def authority_text_def list_all_iff host_split_def host_end_bad_def)
next
  case (Some ds)
  with assms show ?thesis
    using host_segment [of host i "CHR '':'' # ds" u] port_segment [of ds "i + length host"]
    by (auto simp: url_parts_def authority_text_def list_all_iff host_split_def host_end_bad_def
        simp del: host_loop.simps)
qed

lemma strtoul_digits:
  assumes "ds \<noteq> []" and "list_all is_digit ds" and "digits_value 0 ds \<le> 0xffff"
    and "rest = [] \<or> \<not> is_digit (hd rest)"
  shows "c_strtoul (ds @ rest) = digits_value 0 ds"
proof -
  obtain d ds' where ds: "ds = d # ds'" and d: "is_digit d"
    using assms by (cases ds) auto
  then have "\<not> is_space d" "d \<noteq> CHR ''-''" "d \<noteq> CHR ''+''"
    by (auto simp: is_digit_def is_space_def byte_eq_iff)
  with ds have "sign_digits (ds @ rest) = (False, ds @ rest)"
    by (simp add: sign_digits_def)
  moreover have "digits_value 0 (ds @ rest) = digits_value 0 ds"
  proof -
    have "digits_value 0 (ds @ rest) = digits_value (digits_value 0 ds) rest"
      using assms(2) by (simp add: digits_value_append list_all_iff)
    with assms(4) show ?thesis by (cases rest) auto
  qed
  ultimately show ?thesis
    using assms(3) by (simp add: c_strtoul_def ULONG_MAX_def)
qed

lemma unat_of_nat_u16: "n < 2 ^ 16 \<Longrightarrow> unat (of_nat n :: u16) = n"
  by (simp add: unat_of_nat)

lemma port_frame_split [frame]:
  "port (uf_add f n u) = port u" "port (host_split i host prt u) = port u"
  by (simp_all add: uf_add_def host_split_def Let_def frame split: option.split)

lemma uf_is_set_add [simp]: "uf_is_set (uf_add f n u) g = uf_is_set u g"
  by (simp add: uf_is_set_def uf_add_def)

lemma field_data_add [simp]:
  "field_data (uf_add f n u) g =
     (if g = f then (field_data u f)\<lparr>len := len (field_data u f) + of_nat n\<rparr> else field_data u g)"
  by (simp add: uf_add_def)

text \<open>The structure after both passes, before the port is converted.\<close>

lemma parse_host_text:
  assumes ok: "url_parts sch host prt path query"
    and short: "length sch + 3 + length (authority_text host prt) < 2 ^ 16"
    and buf: "buf = url_text sch host prt path query @ rest"
    and u1: "u1 = url_opened (length sch) (length (authority_text host prt)) (length path) query u"
  shows "http_parse_host buf u1 False =
    Some (host_split (length sch + 3) host prt
      (u1\<lparr>field_data := (field_data u1)(UF_HOST := (field_data u1 UF_HOST)\<lparr>len := 0\<rparr>)\<rparr>))"
proof -
  let ?A = "authority_text host prt"
  let ?u2 = "u1\<lparr>field_data := (field_data u1)(UF_HOST := (field_data u1 UF_HOST)\<lparr>len := 0\<rparr>)\<rparr>"
  have size: "length sch + 3 < 2 ^ 16" "length ?A < 2 ^ 16"
    using short by auto
  have host: "field_data u1 UF_HOST = \<lparr>off = of_nat (length sch + 3), len = of_nat (length ?A)\<rparr>"
    unfolding u1 by (simp add: url_opened_def Let_def split: option.split)
  have sub: "subbuf (length sch + 3) (length ?A) buf = ?A"
    unfolding buf url_text_def by (rule subbuf_at [of _ "sch @ ''://''"]) simp_all
  obtain s where "host_loop s_http_host_start (length sch + 3) ?A ?u2 =
      Some (s, host_split (length sch + 3) host prt ?u2)" "\<not> host_end_bad s"
    using host_loop_authority [OF ok] by blast
  then show ?thesis
    unfolding http_parse_host_def Let_def
    by (simp only: host url_field.simps unat_of_nat_u16 size sub if_False option.case prod.case)
qed

lemma url_pieces:
  assumes buf: "buf = url_text sch host prt path query @ rest"
    and n: "n = length sch + 3" and m: "m = n + length (authority_text host prt)"
  shows "subbuf 0 (length sch) buf = sch" "subbuf n (length host) buf = host"
    "prt = Some ds \<Longrightarrow> subbuf (n + length host + 1) (length ds) buf = ds"
    "subbuf m (length path) buf = path"
    "query = Some q \<Longrightarrow> subbuf (m + length path + 1) (length q) buf = q"
proof -
  show "subbuf 0 (length sch) buf = sch"
    unfolding buf url_text_def by (rule subbuf_at [of _ "[]"]) simp_all
  show "subbuf n (length host) buf = host"
    unfolding buf url_text_def authority_text_def n
    by (rule subbuf_at [of _ "sch @ ''://''"]) simp_all
  show "prt = Some ds \<Longrightarrow> subbuf (n + length host + 1) (length ds) buf = ds"
    unfolding buf url_text_def authority_text_def n
    by (rule subbuf_at [of _ "sch @ ''://'' @ host @ '':''"]) simp_all
  show "subbuf m (length path) buf = path"
    unfolding buf url_text_def m n
    by (rule subbuf_at [of _ "sch @ ''://'' @ authority_text host prt"]) simp_all
  show "query = Some q \<Longrightarrow> subbuf (m + length path + 1) (length q) buf = q"
    unfolding buf url_text_def m n
    by (rule subbuf_at [of _ "sch @ ''://'' @ authority_text host prt @ path @ ''?''"]) simp_all
qed

lemma port_value_text:
  assumes ok: "url_parts sch host (Some ds) path query"
    and buf: "buf = url_text sch host (Some ds) path query @ rest"
  shows "c_strtoul (drop (length sch + 3 + length host + 1) buf) = digits_value 0 ds"
proof -
  let ?after = "path @ (case query of None \<Rightarrow> [] | Some q \<Rightarrow> CHR ''?'' # q) @ rest"
  have "drop (length sch + 3 + length host + 1) buf = ds @ ?after"
  proof -
    have "buf = (sch @ ''://'' @ host @ '':'') @ ds @ ?after"
      unfolding buf url_text_def authority_text_def by simp
    moreover have "length (sch @ ''://'' @ host @ '':'') = length sch + 3 + length host + 1"
      by simp
    ultimately show ?thesis by (metis append_eq_conv_conj)
  qed
  moreover have "?after = [] \<or> \<not> is_digit (hd ?after)"
    using ok by (cases path) (auto simp: url_parts_def is_digit_def)
  ultimately show ?thesis
    using ok strtoul_digits [of ds ?after] by (simp add: url_parts_def IS_NUM_is_digit)
qed

lemma parse_url_text:
  assumes ok: "url_parts sch host prt path query"
    and short: "length sch + 3 + length (authority_text host prt) < 2 ^ 16"
    and buf: "buf = url_text sch host prt path query @ rest"
    and u1: "u1 = url_opened (length sch) (length (authority_text host prt)) (length path) query
                    (u\<lparr>port := 0, field_set := 0\<rparr>)"
    and u2: "u2 = host_split (length sch + 3) host prt
      (u1\<lparr>field_data := (field_data u1)(UF_HOST := (field_data u1 UF_HOST)\<lparr>len := 0\<rparr>)\<rparr>)"
  shows "http_parser_parse_url buf (length (url_text sch host prt path query)) False u =
    Some (case prt of None \<Rightarrow> u2 | Some ds \<Rightarrow> u2\<lparr>port := of_nat (digits_value 0 ds)\<rparr>)"
proof -
  have set1: "uf_is_set u1 UF_SCHEMA" "uf_is_set u1 UF_HOST"
    unfolding u1 by (simp_all add: url_opened_def Let_def split: option.split)
  have noport: "\<not> uf_is_set u1 UF_PORT"
    unfolding u1 by (simp add: url_opened_def Let_def split: option.split)
  have size: "length sch + 3 + length host + 1 < 2 ^ 16" if "prt = Some ds" for ds
    using short that by (auto simp: authority_text_def)
  have loop: "http_parser_parse_url buf (length (url_text sch host prt path query)) False u =
      url_finish buf False False u1"
    unfolding http_parser_parse_url_def buf by (simp add: url_loop_text [OF ok] u1)
  have host: "http_parse_host buf u1 False = Some u2"
    using parse_host_text [OF ok short buf u1] u2 by simp
  show ?thesis
  proof (cases prt)
    case None
    then have "\<not> uf_is_set u2 UF_PORT"
      unfolding u2 by (simp add: host_split_def noport)
    then show ?thesis
      unfolding loop by (simp add: None url_finish_def set1 host)
  next
    case (Some ds)
    then have "uf_is_set u2 UF_PORT"
      and off: "off (field_data u2 UF_PORT) = of_nat (length sch + 3 + length host + 1)"
      unfolding u2 by (simp_all add: host_split_def)
    moreover have "digits_value 0 ds \<le> 0xffff"
      using ok Some by (simp add: url_parts_def)
    moreover from off have "c_strtoul (drop (unat (off (field_data u2 UF_PORT))) buf) = digits_value 0 ds"
      using port_value_text [OF ok [unfolded Some] buf [unfolded Some]]
      by (simp only: unat_of_nat_u16 [OF size [OF Some]])
    ultimately show ?thesis
      unfolding loop by (simp add: Some url_finish_def set1 host Let_def)
  qed
qed

lemmas uf_text_simps = uf_text_def url_opened_def host_split_def Let_def

lemma parse_url_pieces:
  assumes ok: "url_parts sch host prt path query"
    and size: "length (url_text sch host prt path query) < 2 ^ 16"
    and buf: "buf = url_text sch host prt path query @ rest"
  shows "\<exists>u'. http_parser_parse_url buf (length (url_text sch host prt path query)) False u = Some u' \<and>
    uf_text buf u' UF_SCHEMA = Some sch \<and> uf_text buf u' UF_HOST = Some host \<and>
    uf_text buf u' UF_PORT = prt \<and> uf_text buf u' UF_PATH = Some path \<and>
    uf_text buf u' UF_QUERY = query \<and> uf_text buf u' UF_FRAGMENT = None \<and>
    uf_text buf u' UF_USERINFO = None \<and>
    port u' = (case prt of None \<Rightarrow> 0 | Some ds \<Rightarrow> of_nat (digits_value 0 ds))"
proof -
  define n where "n = length (authority_text host prt)"
  define u1 where "u1 = url_opened (length sch) n (length path) query (u\<lparr>port := 0, field_set := 0\<rparr>)"
  define u2 where "u2 = host_split (length sch + 3) host prt
      (u1\<lparr>field_data := (field_data u1)(UF_HOST := (field_data u1 UF_HOST)\<lparr>len := 0\<rparr>)\<rparr>)"
  define u' where "u' = (case prt of None \<Rightarrow> u2 | Some ds \<Rightarrow> u2\<lparr>port := of_nat (digits_value 0 ds)\<rparr>)"
  from size have sizes: "length sch < 2 ^ 16" "length sch + 3 < 2 ^ 16" "length host < 2 ^ 16"
    "length sch + 3 + n < 2 ^ 16" "length path < 2 ^ 16"
    "\<And>ds. prt = Some ds \<Longrightarrow> length ds < 2 ^ 16 \<and> length sch + 3 + length host + 1 < 2 ^ 16"
    "\<And>q. query = Some q \<Longrightarrow> length q < 2 ^ 16 \<and> length sch + 3 + n + length path + 1 < 2 ^ 16"
    by (auto simp: url_text_def authority_text_def n_def)
  note at = url_pieces [OF buf refl refl, folded n_def]
  have "uf_text buf u' UF_SCHEMA = Some sch" "uf_text buf u' UF_HOST = Some host"
    "uf_text buf u' UF_PORT = prt" "uf_text buf u' UF_PATH = Some path"
    "uf_text buf u' UF_QUERY = query" "uf_text buf u' UF_FRAGMENT = None"
    "uf_text buf u' UF_USERINFO = None"
    "port u' = (case prt of None \<Rightarrow> 0 | Some ds \<Rightarrow> of_nat (digits_value 0 ds))"
    unfolding u'_def u2_def u1_def using sizes at
    by (simp_all add: uf_text_simps unat_of_nat_u16 frame del: of_nat_add of_nat_Suc of_nat_numeral
        split: option.split)
  then show ?thesis
    using parse_url_text [OF ok sizes(4) [unfolded n_def] buf u1_def [unfolded n_def] u2_def] unfolding u'_def by blast
qed

text \<open>
  C33. A URL made of a scheme, a host, an optional port, a path and an optional query over
  the bytes the parser allows, shorter than 65536 bytes, is accepted and split into exactly
  these pieces, whatever memory follows it and whatever the caller's structure held.
\<close>

theorem parse_url_fields:
  assumes ok: "url_parts sch host prt path query"
    and size: "length (url_text sch host prt path query) < 2 ^ 16"
    and buf: "buf = url_text sch host prt path query @ rest"
  shows "\<exists>u'. http_parser_parse_url buf (length (url_text sch host prt path query)) False u = Some u' \<and>
    uf_text buf u' UF_SCHEMA = Some sch \<and> uf_text buf u' UF_HOST = Some host \<and>
    uf_text buf u' UF_PORT = prt \<and> uf_text buf u' UF_PATH = Some path \<and>
    uf_text buf u' UF_QUERY = query \<and> uf_text buf u' UF_FRAGMENT = None \<and>
    uf_text buf u' UF_USERINFO = None \<and>
    port u' = (case prt of None \<Rightarrow> 0 | Some ds \<Rightarrow> of_nat (digits_value 0 ds))"
  using parse_url_pieces [OF assms] .

text \<open>A caller's structure before the call; its entries are arbitrary.\<close>

definition blank_url :: http_parser_url where
  "blank_url = \<lparr>field_set = 0, port = 0, field_data = (\<lambda>_. \<lparr>off = 0, len = 0\<rparr>)\<rparr>"

lemma example_parts:
  "url_parts ''https'' ''b.pek3a.qingstor.com'' (Some ''443'') ''/k/x'' (Some ''uploads'')"
  by code_simp

theorem parse_url_fields_witness:
  "\<exists>u'. http_parser_parse_url ''https://b.pek3a.qingstor.com:443/k/x?uploads'' 44 False blank_url = Some u' \<and>
     uf_text ''https://b.pek3a.qingstor.com:443/k/x?uploads'' u' UF_PATH = Some ''/k/x'' \<and>
     uf_text ''https://b.pek3a.qingstor.com:443/k/x?uploads'' u' UF_QUERY = Some ''uploads'' \<and> port u' = 443"
proof -
  have url_eq: "url_text ''https'' ''b.pek3a.qingstor.com'' (Some ''443'') ''/k/x'' (Some ''uploads'')
      = ''https://b.pek3a.qingstor.com:443/k/x?uploads''"
    by (simp add: url_text_def authority_text_def)
  have port_eq: "digits_value 0 ''443'' = 443" by code_simp
  have size: "length ''https://b.pek3a.qingstor.com:443/k/x?uploads'' = 44" by simp
  show ?thesis
    using parse_url_fields [OF example_parts, where rest = "[]" and u = blank_url,
        unfolded url_eq size append_Nil2 option.case port_eq, OF _ refl]
    by (auto simp del: digits_value.simps)
qed

text \<open>
  The length fields are 16 bits wide and nothing checks them: a path of 65536 bytes or
  more is accepted, and reported with its length modulo 65536.
\<close>

theorem parse_url_long_path:
  assumes ok: "url_parts sch host None path query"
    and short: "length sch + 3 + length host < 2 ^ 16"
    and buf: "buf = url_text sch host None path query"
  shows "\<exists>u'. http_parser_parse_url buf (length buf) False u = Some u' \<and>
           uf_text buf u' UF_PATH = Some (take (length path mod 65536) path)"
proof -
  define u1 where "u1 = url_opened (length sch) (length (authority_text host None)) (length path) query
    (u\<lparr>port := 0, field_set := 0\<rparr>)"
  define u2 where "u2 = host_split (length sch + 3) host None
      (u1\<lparr>field_data := (field_data u1)(UF_HOST := (field_data u1 UF_HOST)\<lparr>len := 0\<rparr>)\<rparr>)"
  have parse: "http_parser_parse_url buf (length buf) False u = Some u2"
    using parse_url_text [OF ok _ _ u1_def u2_def, where buf = buf and rest = "[]"] short
    by (simp add: buf authority_text_def)
  have drop: "drop (length sch + 3 + length host) buf = path @ (case query of None \<Rightarrow> [] | Some q \<Rightarrow> CHR ''?'' # q)"
    unfolding buf url_text_def authority_text_def by (simp add: eval_nat_numeral)
  have "uf_text buf u2 UF_PATH = Some (subbuf (length sch + 3 + length host) (length path mod 65536) buf)"
    unfolding u2_def u1_def
    using short by (simp add: uf_text_simps authority_text_def unat_of_nat take_bit_eq_mod del: of_nat_add split: option.split)
  also have "\<dots> = Some (take (length path mod 65536) path)"
    unfolding subbuf_def drop by (simp add: take_append mod_less_eq_dividend)
  finally show ?thesis using parse by blast
qed

theorem parse_url_long_path_witness:
  "\<exists>buf u'. http_parser_parse_url buf (length buf) False blank_url = Some u' \<and>
     length buf = 65545 \<and> uf_text buf u' UF_PATH = Some ''/''"
proof -
  let ?path = "CHR ''/'' # replicate 65536 (CHR ''a'')"
  have ok: "url_parts ''http'' ''h'' None ?path None"
    by (simp add: url_parts_def char_class list_all_iff)
  have "\<exists>u'. http_parser_parse_url (url_text ''http'' ''h'' None ?path None)
      (length (url_text ''http'' ''h'' None ?path None)) False blank_url = Some u' \<and>
      uf_text (url_text ''http'' ''h'' None ?path None) u' UF_PATH = Some (take (length ?path mod 65536) ?path)"
    by (rule parse_url_long_path [OF ok _ refl]) simp
  moreover have "length (url_text ''http'' ''h'' None ?path None) = 65545"
    by (simp add: url_text_def authority_text_def)
  moreover have "take (length ?path mod 65536) ?path = ''/''"
    by simp
  ultimately show ?thesis by metis
qed

section \<open>Fields inside the buffer\<close>

definition uf_within :: "http_parser_url \<Rightarrow> nat \<Rightarrow> http_parser_url_fields \<Rightarrow> bool" where
  "uf_within u n f \<longleftrightarrow>
     (uf_is_set u f \<longrightarrow> unat (off (field_data u f)) + unat (len (field_data u f)) \<le> n)"

lemma unat_Suc_le: "unat (x + 1 :: u16) \<le> Suc (unat x)"
  by (simp add: unat_word_ariths)

lemma uf_within_mono: "uf_within u n f \<Longrightarrow> n \<le> m \<Longrightarrow> uf_within u m f"
  by (auto simp: uf_within_def)

lemma uf_within_grow: "uf_within u n f \<Longrightarrow> uf_within (uf_grow g u) (Suc n) f"
  using unat_Suc_le [of "len (field_data u f)"] by (auto simp: uf_within_def)

lemma uf_within_grow_other: "f \<noteq> g \<Longrightarrow> uf_within (uf_grow g u) n f = uf_within u n f"
  by (simp add: uf_within_def)

lemma uf_within_open:
  "uf_within u n f \<Longrightarrow> i + unat m \<le> n \<Longrightarrow> i < 2 ^ 16 \<Longrightarrow> uf_within (uf_open g i m u) n f"
  by (auto simp: uf_within_def unat_of_nat_u16)

lemma uf_within_open_other: "f \<noteq> g \<Longrightarrow> uf_within (uf_open g i m u) n f = uf_within u n f"
  by (simp add: uf_within_def)

lemma uf_within_set_off:
  "len (field_data u g) = 0 \<Longrightarrow> uf_within u i f \<Longrightarrow> i < 2 ^ 16 \<Longrightarrow> uf_within (uf_set_off g i u) i f"
  by (auto simp: uf_within_def unat_of_nat_u16)

lemma uf_within_set_off_other: "f \<noteq> g \<Longrightarrow> uf_within (uf_set_off g i u) n f = uf_within u n f"
  by (simp add: uf_within_def)

lemma url_loop_within:
  "url_loop s old fnd i cs u = Some (fnd', u') \<Longrightarrow> i + length cs < 2 ^ 16 \<Longrightarrow>
     (\<And>f. uf_within u i f) \<Longrightarrow> uf_within u' (i + length cs) f"
proof (induction cs arbitrary: s old fnd i u)
  case (Cons c cs)
  have step: "uf_within u' (Suc i + length cs) f"
    if "url_loop t o1 d (Suc i) cs v = Some (fnd', u')" "\<And>g. uf_within v (Suc i) g" for t o1 d v
    using Cons.IH [OF that(1) _ that(2)] Cons.prems(2) by simp
  have grow: "uf_within (uf_grow uf u) (Suc i) g" for uf g
    by (rule uf_within_grow [OF Cons.prems(3)])
  have same: "uf_within u (Suc i) g" for g
    using Cons.prems(3) by (rule uf_within_mono) simp
  have open1: "uf_within (uf_open uf i 1 u) (Suc i) g" for uf g
    using Cons.prems(2) same by (intro uf_within_open) auto
  show ?case
  proof (cases "url_action (parse_url_char s c)")
    case Skip
    with Cons.prems(1) show ?thesis by (auto simp: Let_def dest: step [OF _ same])
  next
    case (Field uf)
    with Cons.prems(1) show ?thesis
      by (auto simp: Let_def dest: step [OF _ grow] step [OF _ open1] split: if_splits)
  qed (use Cons.prems in \<open>simp add: Let_def\<close>)
qed simp

lemma url_action_not_authority: "url_action s \<noteq> Field UF_PORT" "url_action s \<noteq> Field UF_USERINFO"
  by (cases s; simp add: url_action_def)+

lemma url_loop_no_authority:
  "url_loop s old fnd i cs u = Some (fnd', u') \<Longrightarrow> g \<in> {UF_PORT, UF_USERINFO} \<Longrightarrow>
     uf_is_set u' g = uf_is_set u g"
proof (induction s old fnd i cs u rule: url_loop.induct)
  case (2 s old fnd i c cs u)
  have "url_action (parse_url_char s c) \<noteq> Field g"
    using "2.prems"(2) url_action_not_authority by auto
  with 2 show ?case
    by (auto simp: Let_def split: url_action.splits if_splits)
qed simp

text \<open>
  While the authority is read, its length field is zero until the host proper starts, so
  the new start offset and the length grown from there stay in step.
\<close>

definition host_pending :: "http_host_state set" where
  "host_pending = {s_http_userinfo_start, s_http_userinfo, s_http_host_start, s_http_host_v6_start}"

definition host_inv :: "nat \<Rightarrow> http_host_state \<Rightarrow> nat \<Rightarrow> http_parser_url \<Rightarrow> bool" where
  "host_inv n s i u \<longleftrightarrow>
     (\<forall>f. uf_within u (if f \<in> {UF_HOST, UF_PORT, UF_USERINFO} then i else n) f) \<and>
     (s \<in> host_pending \<longrightarrow> len (field_data u UF_HOST) = 0)"

lemma host_char_into_host:
  "http_parse_host_char s c = s_http_host \<Longrightarrow> s \<noteq> s_http_host \<Longrightarrow> s \<in> host_pending"
  by (cases s; simp add: http_parse_host_char_def host_pending_def split: if_split_asm)

lemma host_char_into_v6:
  "http_parse_host_char s c = s_http_host_v6 \<Longrightarrow> s \<noteq> s_http_host_v6 \<Longrightarrow> s \<in> host_pending"
  by (cases s; simp add: http_parse_host_char_def host_pending_def split: if_split_asm)

lemma host_char_pending: "http_parse_host_char s c \<in> host_pending \<Longrightarrow> s \<in> host_pending"
  by (cases s; simp add: http_parse_host_char_def host_pending_def split: if_split_asm)

lemma host_step_inv:
  assumes inv: "host_inv n s i u" and c: "new_s = http_parse_host_char s c"
    and i: "i < n" "n < 2 ^ 16"
  shows "host_inv n new_s (Suc i) (host_step s new_s i u)"
proof -
  let ?auth = "{UF_HOST, UF_PORT, UF_USERINFO}"
  have within: "uf_within u (if f \<in> ?auth then i else n) f" for f
    using inv unfolding host_inv_def by blast
  have auth: "uf_within u i f" if "f \<in> ?auth" for f
    using within [of f] by (simp only: that if_True)
  have rest: "uf_within u n f" if "f \<notin> ?auth" for f
    using within [of f] by (simp only: that if_False)
  have pend: "len (field_data u UF_HOST) = 0" if "s \<in> host_pending"
    using inv that by (simp add: host_inv_def)
  have grow: "uf_within (uf_grow g v) (Suc i) f" if "uf_within v i f" for f g v
    by (rule uf_within_grow [OF that])
  have host: "uf_within (uf_grow UF_HOST (if b then uf_set_off UF_HOST i u else u)) (Suc i) f"
    if "f \<in> ?auth" "b \<Longrightarrow> s \<in> host_pending" for f b
    using that i by (auto intro!: grow uf_within_set_off auth simp: pend)
  have opened: "uf_within (uf_grow g (if b then uf_open g i 0 u else u)) (Suc i) f"
    if "f \<in> ?auth" for f g b
    using that i by (auto intro!: grow uf_within_open auth)
  have same: "uf_within u (Suc i) f" if "f \<in> ?auth" for f
    using auth [OF that] by (rule uf_within_mono) simp
  have grow1: "uf_within (uf_grow UF_HOST u) (Suc i) f" if "f \<in> ?auth" for f
    using auth [OF that] by (rule grow)
  have "uf_within (host_step s new_s i u) (Suc i) f" if "f \<in> ?auth" for f
    using host [OF that, of True] host [OF that, of False] opened [OF that] same [OF that]
      grow1 [OF that] host_char_into_host [of s c] host_char_into_v6 [of s c] c
    by (cases new_s) (auto simp: host_step_def)
  moreover have "uf_within (host_step s new_s i u) n f" if "f \<notin> ?auth" for f
    using rest [OF that] that
    by (cases new_s) (auto simp: host_step_def uf_within_grow_other uf_within_open_other uf_within_set_off_other)
  moreover have "len (field_data (host_step s new_s i u) UF_HOST) = 0" if "new_s \<in> host_pending"
    using pend host_char_pending [of s c] that c
    by (auto simp: host_step_def host_pending_def)
  ultimately show ?thesis by (simp add: host_inv_def)
qed

lemma host_loop_inv:
  "host_loop s i cs u = Some (s', u') \<Longrightarrow> host_inv n s i u \<Longrightarrow> i + length cs \<le> n \<Longrightarrow> n < 2 ^ 16 \<Longrightarrow>
     host_inv n s' (i + length cs) u'"
proof (induction cs arbitrary: s i u)
  case (Cons c cs)
  let ?t = "http_parse_host_char s c"
  have inv: "host_inv n ?t (Suc i) (host_step s ?t i u)"
    using Cons.prems(3,4) by (intro host_step_inv [OF Cons.prems(2) refl]) simp_all
  have "host_loop ?t (Suc i) cs (host_step s ?t i u) = Some (s', u')"
    using Cons.prems(1) by (simp add: Let_def split: if_splits)
  from Cons.IH [OF this inv] Cons.prems(3,4) show ?case by simp
qed simp

lemma http_parse_host_within:
  assumes host: "http_parse_host buf u fnd = Some u'"
    and set: "uf_is_set u UF_HOST" "\<not> uf_is_set u UF_PORT" "\<not> uf_is_set u UF_USERINFO"
    and within: "\<And>f. uf_within u n f" and n: "n \<le> length buf" "n < 2 ^ 16"
  shows "uf_within u' n f"
proof -
  let ?o = "unat (off (field_data u UF_HOST))" and ?l = "unat (len (field_data u UF_HOST))"
  let ?u1 = "u\<lparr>field_data := (field_data u)(UF_HOST := (field_data u UF_HOST)\<lparr>len := 0\<rparr>)\<rparr>"
  let ?s = "if fnd then s_http_userinfo_start else s_http_host_start"
  have on: "?o + ?l \<le> n" using within [of UF_HOST] set by (simp add: uf_within_def)
  obtain s where loop: "host_loop ?s ?o (subbuf ?o ?l buf) ?u1 = Some (s, u')"
    using host by (auto simp: http_parse_host_def Let_def split: option.splits if_splits)
  have init: "host_inv n ?s ?o ?u1"
    unfolding host_inv_def
  proof (intro conjI allI impI)
    show "uf_within ?u1 (if g \<in> {UF_HOST, UF_PORT, UF_USERINFO} then ?o else n) g" for g
      using within [of g] set by (auto simp: uf_within_def)
  qed simp
  have "length (subbuf ?o ?l buf) = ?l" using on n by simp
  then have "host_inv n s (?o + ?l) u'"
    using host_loop_inv [OF loop init] on n by simp
  then have "uf_within u' (if f \<in> {UF_HOST, UF_PORT, UF_USERINFO} then ?o + ?l else n) f"
    unfolding host_inv_def by blast
  then show ?thesis using on by (auto intro: uf_within_mono split: if_splits)
qed

text \<open>
  C34. Whatever the bytes, every field an accepted URL of fewer than 65536 bytes reports
  lies inside those bytes: the copies its callers make stay in the buffer.
\<close>

theorem parse_url_bounds:
  assumes parse: "http_parser_parse_url buf buflen ic u = Some u'"
    and n: "buflen \<le> length buf" "buflen < 2 ^ 16" and f: "uf_is_set u' f"
  shows "unat (off (field_data u' f)) + unat (len (field_data u' f)) \<le> buflen"
proof -
  let ?u0 = "u\<lparr>port := 0, field_set := 0\<rparr>"
  obtain fnd u1 where loop: "url_loop (if ic then s_req_server_start else s_req_spaces_before_url)
        UF_MAX False 0 (take buflen buf) ?u0 = Some (fnd, u1)"
    and fin: "url_finish buf ic fnd u1 = Some u'"
    using parse by (auto simp: http_parser_parse_url_def split: option.splits)
  have u1: "uf_within u1 buflen g" for g
    using url_loop_within [OF loop] n by (simp add: uf_within_def)
  have no: "\<not> uf_is_set u1 UF_PORT" "\<not> uf_is_set u1 UF_USERINFO"
    using url_loop_no_authority [OF loop] by simp_all
  obtain u2 where u2: "(if uf_is_set u1 UF_HOST then http_parse_host buf u1 fnd else Some u1) = Some u2"
    and u': "u' = u2 \<or> (\<exists>v. u' = u2\<lparr>port := v\<rparr>)"
    using fin by (auto simp: url_finish_def Let_def split: option.splits if_splits)
  have "uf_within u2 buflen f"
    using u2 http_parse_host_within [of buf u1 fnd u2 buflen] u1 no n by (auto split: if_splits)
  with u' f show ?thesis by (auto simp: uf_within_def)
qed

theorem parse_url_bounds_witness:
  "\<exists>u'. http_parser_parse_url ''http://h/k'' 10 False blank_url = Some u' \<and> uf_is_set u' UF_PATH \<and>
     unat (off (field_data u' UF_PATH)) + unat (len (field_data u' UF_PATH)) \<le> 10"
proof -
  have "case http_parser_parse_url ''http://h/k'' 10 False blank_url of None \<Rightarrow> False | Some u' \<Rightarrow> uf_is_set u' UF_PATH"
    by code_simp
  then obtain u' where u': "http_parser_parse_url ''http://h/k'' 10 False blank_url = Some u'"
    and f: "uf_is_set u' UF_PATH"
    by (auto split: option.splits)
  have "unat (off (field_data u' UF_PATH)) + unat (len (field_data u' UF_PATH)) \<le> 10"
    by (rule parse_url_bounds [OF u' _ _ f]) simp_all
  with u' f show ?thesis by blast
qed

theorem parse_url_no_separator_witness:
  "\<exists>u'. http_parser_parse_url ''http://h/k'' 10 False blank_url = Some u' \<and>
     CHR ''k'' \<in> set (take 10 ''http://h/k'') \<and> CHR ''k'' \<notin> {SP, CR, LF, TAB, FF}"
proof -
  have "http_parser_parse_url ''http://h/k'' 10 False blank_url \<noteq> None"
    by code_simp
  then obtain u' where u': "http_parser_parse_url ''http://h/k'' 10 False blank_url = Some u'"
    by blast
  have k: "CHR ''k'' \<in> set (take 10 ''http://h/k'')" by simp
  from parse_url_no_separator [OF u' k] u' k show ?thesis by blast
qed

end
