(* ===== verification/QS_Exceptions.thy ===== *)
theory QS_Exceptions
  imports QS_Prelude
begin

text \<open>
  The exception classes of \<open>src/Exception.h\<close>, the outcome of a C++ call, and the way the
  library handles exceptions: the re-throwing \<open>catch (QingStorException & e) { ... throw e; }\<close>
  of its request functions, the message of \<open>src/ExceptionInternal.cpp\<close>, and the
  translation to \<open>errno\<close> at the C interface (\<open>handleException\<close> in \<open>src/QingStor.cpp\<close>).
\<close>

section \<open>Classes\<close>

datatype exn_class =
    QingStorException
  | QingStorIOException
  | QingStorEndOfStream
  | QingStorNetworkException
  | QingStorNetworkConnectException
  | AccessControlException
  | QingStorCanceled
  | QingStorConfigInvalid
  | QingStorConfigNotFound
  | QingStorTimeoutException
  | InvalidParameter
  | IllegalArgumentException
  | OutOfMemoryException
  | std_bad_alloc
  | std_exception

text \<open>The direct base class.\<close>

primrec base_class :: "exn_class \<Rightarrow> exn_class option" where
  "base_class QingStorException = Some std_exception"
| "base_class QingStorIOException = Some QingStorException"
| "base_class QingStorEndOfStream = Some QingStorIOException"
| "base_class QingStorNetworkException = Some QingStorIOException"
| "base_class QingStorNetworkConnectException = Some QingStorNetworkException"
| "base_class AccessControlException = Some QingStorException"
| "base_class QingStorCanceled = Some QingStorException"
| "base_class QingStorConfigInvalid = Some QingStorException"
| "base_class QingStorConfigNotFound = Some QingStorException"
| "base_class QingStorTimeoutException = Some QingStorException"
| "base_class InvalidParameter = Some QingStorException"
| "base_class IllegalArgumentException = Some InvalidParameter"
| "base_class OutOfMemoryException = Some QingStorException"
| "base_class std_bad_alloc = Some std_exception"
| "base_class std_exception = None"

primrec class_depth :: "exn_class \<Rightarrow> nat" where
  "class_depth QingStorException = 1"
| "class_depth QingStorIOException = 2"
| "class_depth QingStorEndOfStream = 3"
| "class_depth QingStorNetworkException = 3"
| "class_depth QingStorNetworkConnectException = 4"
| "class_depth AccessControlException = 2"
| "class_depth QingStorCanceled = 2"
| "class_depth QingStorConfigInvalid = 2"
| "class_depth QingStorConfigNotFound = 2"
| "class_depth QingStorTimeoutException = 2"
| "class_depth InvalidParameter = 2"
| "class_depth IllegalArgumentException = 3"
| "class_depth OutOfMemoryException = 2"
| "class_depth std_bad_alloc = 1"
| "class_depth std_exception = 0"

lemma base_class_depth: "base_class c = Some d \<Longrightarrow> class_depth d < class_depth c"
  by (cases c) auto

text \<open>\<open>catch (d &)\<close> takes an exception of class \<open>c\<close>.\<close>

function is_a :: "exn_class \<Rightarrow> exn_class \<Rightarrow> bool" where
  "is_a c d \<longleftrightarrow> c = d \<or> (case base_class c of None \<Rightarrow> False | Some b \<Rightarrow> is_a b d)"
  by pat_completeness auto
termination by (relation "measure (class_depth \<circ> fst)") (auto simp: base_class_depth)

declare is_a.simps [simp del]

lemma is_a_refl [simp]: "is_a c c"
  by (simp add: is_a.simps)

primrec class_name :: "exn_class \<Rightarrow> string" where
  "class_name QingStorException = ''QingStorException''"
| "class_name QingStorIOException = ''QingStorIOException''"
| "class_name QingStorEndOfStream = ''QingStorEndOfStream''"
| "class_name QingStorNetworkException = ''QingStorNetworkException''"
| "class_name QingStorNetworkConnectException = ''QingStorNetworkConnectException''"
| "class_name AccessControlException = ''AccessControlException''"
| "class_name QingStorCanceled = ''QingStorCanceled''"
| "class_name QingStorConfigInvalid = ''QingStorConfigInvalid''"
| "class_name QingStorConfigNotFound = ''QingStorConfigNotFound''"
| "class_name QingStorTimeoutException = ''QingStorTimeoutException''"
| "class_name InvalidParameter = ''InvalidParameter''"
| "class_name IllegalArgumentException = ''IllegalArgumentException''"
| "class_name OutOfMemoryException = ''OutOfMemoryException''"
| "class_name std_bad_alloc = ''bad_alloc''"
| "class_name std_exception = ''exception''"

section \<open>Exceptions and outcomes\<close>

text \<open>
  An exception: its dynamic class, the text of \<open>what()\<close> and the nested exception of
  \<open>throw_with_nested\<close>. File, line and stack text, which only reach the log, are in
  \<open>QS_Exception_Text\<close>.
\<close>

datatype exn = Exn (exn_class: exn_class) (what: string) (nested: "exn option")

text \<open>
  A call returns, throws, or runs into undefined behaviour (a null or uninitialised pointer
  used). Divergence is \<open>None\<close> of the loops that may not end.
\<close>

datatype 'a outcome = Ret 'a | Throw exn | Undefined

primrec bind :: "'a outcome \<Rightarrow> ('a \<Rightarrow> 'b outcome) \<Rightarrow> 'b outcome" where
  "bind (Ret x) k = k x"
| "bind (Throw e) k = Throw e"
| "bind Undefined k = Undefined"

lemma bind_Ret_iff: "bind m k = Ret y \<longleftrightarrow> (\<exists>x. m = Ret x \<and> k x = Ret y)"
  by (cases m) auto

text \<open>\<open>THROW(class, fmt, ...)\<close>: \<open>ThrowException\<close> prefixes the class name to the message.\<close>

definition mk_exn :: "exn_class \<Rightarrow> string \<Rightarrow> exn" where
  "mk_exn c m = Exn c (class_name c @ '': '' @ m) None"

definition THROW :: "exn_class \<Rightarrow> string \<Rightarrow> 'a outcome" where
  "THROW c m = Throw (mk_exn c m)"

text \<open>
  \<open>catch (QingStorException & e) { cleanup; throw e; }\<close>: the expression \<open>throw e\<close> throws a
  copy of the static type, so the exception that leaves is a plain \<open>QingStorException\<close> with
  the same text. Exceptions of other classes pass through.
\<close>

definition slice_exn :: "exn \<Rightarrow> exn" where
  "slice_exn e =
     (if is_a (exn_class e) QingStorException then Exn QingStorException (what e) None else e)"

primrec catch_rethrow :: "'a outcome \<Rightarrow> 'a outcome" where
  "catch_rethrow (Ret x) = Ret x"
| "catch_rethrow (Throw e) = Throw (slice_exn e)"
| "catch_rethrow Undefined = Undefined"

section \<open>Messages\<close>

text \<open>
  The text \<open>GetExceptionMessage\<close> writes: \<open>what()\<close>, then for each nested exception, one
  level deeper, its text after that many tabs and \<open>Caused by: \<close>.
\<close>

fun message_from :: "nat \<Rightarrow> exn \<Rightarrow> string" where
  "message_from level (Exn c w nst) =
     replicate level TAB @ (if level > 0 then ''Caused by: '' else []) @ w @
     (case nst of None \<Rightarrow> [] | Some n \<Rightarrow> message_from (Suc level) n)"

definition GetExceptionMessage :: "exn \<Rightarrow> string" where
  "GetExceptionMessage e =
     (if is_a (exn_class e) std_bad_alloc then ''Out of memory'' else message_from 0 e)"

text \<open>\<open>snprintf\<close> into 64 bytes: at most 63 of the text; \<open>strerror\<close> is the C library's.\<close>

definition GetSystemErrorInfo :: "(int \<Rightarrow> string) \<Rightarrow> int \<Rightarrow> string" where
  "GetSystemErrorInfo strerror eno = take 63 (''(errno: '' @ show_int eno @ '') '' @ strerror eno)"

section \<open>Translation to errno\<close>

definition EIO :: int where "EIO = 5"
definition ENOMEM :: int where "ENOMEM = 12"
definition EACCES :: int where "EACCES = 13"
definition EINVAL :: int where "EINVAL = 22"
definition EINTERNAL :: int where "EINTERNAL = 255"

text \<open>The handlers of \<open>handleException\<close>, in their order.\<close>

definition handleException :: "exn \<Rightarrow> int" where
  "handleException e =
     (let c = exn_class e in
      if is_a c AccessControlException then EACCES
      else if is_a c QingStorCanceled then EIO
      else if is_a c QingStorConfigInvalid then EINVAL
      else if is_a c QingStorConfigNotFound then EINVAL
      else if is_a c QingStorTimeoutException then EIO
      else if is_a c IllegalArgumentException then EINVAL
      else if is_a c InvalidParameter then EINVAL
      else if is_a c QingStorNetworkException then EIO
      else if is_a c QingStorIOException then EIO
      else if is_a c QingStorException then EINTERNAL
      else EINTERNAL)"

lemma handle_plain [simp]: "handleException (Exn QingStorException w n) = EINTERNAL"
  by (simp add: handleException_def is_a.simps Let_def)

lemma slice_exn_library [simp]:
  "is_a (exn_class e) QingStorException \<Longrightarrow> exn_class (slice_exn e) = QingStorException"
  by (simp add: slice_exn_def)

lemma what_slice_exn [simp]: "what (slice_exn e) = what e"
  by (simp add: slice_exn_def)

lemma slice_exn_idem [simp]: "slice_exn (slice_exn e) = slice_exn e"
  by (simp add: slice_exn_def)

lemma handle_sliced:
  "is_a (exn_class e) QingStorException \<Longrightarrow> handleException (slice_exn e) = EINTERNAL"
  by (simp add: slice_exn_def)

lemma catch_rethrow_Throw:
  "catch_rethrow m = Throw e \<Longrightarrow> exn_class e = QingStorException \<or> \<not> is_a (exn_class e) QingStorException"
  by (cases m) (auto simp: slice_exn_def split: if_splits)

lemma catch_rethrow_Ret [simp]: "catch_rethrow m = Ret x \<longleftrightarrow> m = Ret x"
  by (cases m) auto

lemma catch_rethrow_Undefined [simp]: "catch_rethrow m = Undefined \<longleftrightarrow> m = Undefined"
  by (cases m) auto

text \<open>The errno each class would give if it reached the C interface unsliced.\<close>

lemma handleException_classes:
  "handleException (mk_exn AccessControlException m) = EACCES"
  "handleException (mk_exn QingStorNetworkException m) = EIO"
  "handleException (mk_exn QingStorNetworkConnectException m) = EIO"
  "handleException (mk_exn QingStorEndOfStream m) = EIO"
  "handleException (mk_exn InvalidParameter m) = EINVAL"
  "handleException (mk_exn QingStorConfigInvalid m) = EINVAL"
  "handleException (mk_exn OutOfMemoryException m) = EINTERNAL"
  by (simp_all add: handleException_def mk_exn_def is_a.simps Let_def)

end
