(* ===== verification/Byte_Streams.thy ===== *)
theory Byte_Streams
  imports QS_Prelude
begin

text \<open>
  Interfaces of the code's buffers. A \<open>sink\<close> takes pieces of a stream, a \<open>source\<close> hands
  pieces out; the laws say that no byte is lost, repeated or reordered. The response buffer
  (\<open>ParserCallback\<close>) and the fetcher's buffer (\<open>WriterCallback\<close>) interpret the sinks,
  the upload memory (\<open>mem_read_callback\<close>) and the fetcher's reader (\<open>HTTPFetcher::get\<close>)
  the sources.
\<close>

section \<open>Sinks\<close>

text \<open>A sink that may refuse a piece, which then leaves its content alone.\<close>

locale bounded_sink =
  fixes push :: "'s \<Rightarrow> byte list \<Rightarrow> 's"
    and accepts :: "'s \<Rightarrow> byte list \<Rightarrow> bool"
    and content :: "'s \<Rightarrow> byte list"
    and inv :: "'s \<Rightarrow> bool"
  assumes push_inv: "inv s \<Longrightarrow> inv (push s c)"
    and push_content: "inv s \<Longrightarrow> content (push s c) = content s @ (if accepts s c then c else [])"
begin

fun accepted :: "'s \<Rightarrow> byte list list \<Rightarrow> byte list" where
  "accepted s [] = []"
| "accepted s (c # cs) = (if accepts s c then c else []) @ accepted (push s c) cs"

lemma fold_inv: "inv s \<Longrightarrow> inv (fold (\<lambda>c s. push s c) cs s)"
  by (induction cs arbitrary: s) (simp_all add: push_inv)

lemma fold_content: "inv s \<Longrightarrow> content (fold (\<lambda>c s. push s c) cs s) = content s @ accepted s cs"
  by (induction cs arbitrary: s) (simp_all add: push_inv push_content)

end

text \<open>A sink that takes everything.\<close>

locale sink =
  fixes push :: "'s \<Rightarrow> byte list \<Rightarrow> 's"
    and content :: "'s \<Rightarrow> byte list"
    and inv :: "'s \<Rightarrow> bool"
  assumes sink_inv: "inv s \<Longrightarrow> inv (push s c)"
    and sink_content: "inv s \<Longrightarrow> content (push s c) = content s @ c"

sublocale sink \<subseteq> bounded: bounded_sink push "\<lambda>_ _. True" content inv
  by unfold_locales (simp_all add: sink_inv sink_content)

context sink begin

lemma all_accepted: "bounded.accepted s cs = concat cs"
  by (induction cs arbitrary: s) simp_all

lemma fold_concat: "inv s \<Longrightarrow> content (fold (\<lambda>c s. push s c) cs s) = content s @ concat cs"
  by (simp add: bounded.fold_content all_accepted)

end

section \<open>Sources\<close>

fun run_pulls :: "(nat \<Rightarrow> 's \<Rightarrow> byte list \<times> 's) \<Rightarrow> nat list \<Rightarrow> 's \<Rightarrow> byte list \<times> 's" where
  "run_pulls pull [] s = ([], s)"
| "run_pulls pull (n # ns) s =
     (let (bs, s1) = pull n s; (rest, s2) = run_pulls pull ns s1 in (bs @ rest, s2))"

locale source =
  fixes pull :: "nat \<Rightarrow> 's \<Rightarrow> byte list \<times> 's"
    and remaining :: "'s \<Rightarrow> byte list"
    and inv :: "'s \<Rightarrow> bool"
  assumes pull_inv: "inv s \<Longrightarrow> inv (snd (pull n s))"
    and pull_remaining: "inv s \<Longrightarrow> fst (pull n s) @ remaining (snd (pull n s)) = remaining s"
    and pull_bound: "inv s \<Longrightarrow> length (fst (pull n s)) = min n (length (remaining s))"
begin

lemma run_inv: "inv s \<Longrightarrow> inv (snd (run_pulls pull ns s))"
proof (induction ns arbitrary: s)
  case (Cons n ns)
  from Cons.IH [OF pull_inv [OF Cons.prems, of n]] show ?case
    by (simp add: case_prod_unfold Let_def)
qed simp

lemma run_remaining:
  "inv s \<Longrightarrow> fst (run_pulls pull ns s) @ remaining (snd (run_pulls pull ns s)) = remaining s"
proof (induction ns arbitrary: s)
  case (Cons n ns)
  from Cons.IH [OF pull_inv [OF Cons.prems, of n]] pull_remaining [OF Cons.prems, of n] show ?case
    by (simp add: case_prod_unfold Let_def)
qed simp

lemma run_length:
  "inv s \<Longrightarrow> length (fst (run_pulls pull ns s)) = min (sum_list ns) (length (remaining s))"
proof (induction ns arbitrary: s)
  case (Cons n ns)
  have "length (remaining s) = length (fst (pull n s)) + length (remaining (snd (pull n s)))"
    using pull_remaining [OF Cons.prems, of n] by (metis length_append)
  with Cons.IH [OF pull_inv [OF Cons.prems, of n]] pull_bound [OF Cons.prems, of n] show ?case
    by (simp add: case_prod_unfold Let_def)
qed simp

lemma run_take:
  assumes "inv s"
  shows "fst (run_pulls pull ns s) = take (sum_list ns) (remaining s)"
    and "remaining (snd (run_pulls pull ns s)) = drop (sum_list ns) (remaining s)"
proof -
  let ?m = "length (fst (run_pulls pull ns s))"
  have eq: "fst (run_pulls pull ns s) = take ?m (remaining s)"
      "remaining (snd (run_pulls pull ns s)) = drop ?m (remaining s)"
    using run_remaining [OF assms, of ns] by (metis append_eq_conv_conj)+
  show "fst (run_pulls pull ns s) = take (sum_list ns) (remaining s)"
    "remaining (snd (run_pulls pull ns s)) = drop (sum_list ns) (remaining s)"
    using eq run_length [OF assms, of ns] by (auto simp: min_def split: if_splits)
qed

end

end
