(* ===== verification/QS_Common.thy ===== *)
theory QS_Common
  imports Url_Facts QS_Exceptions Byte_Streams
begin

text \<open>
  \<open>src/QingStorCommon.cpp\<close>: header lines, the request signature, the libcurl callbacks that
  collect a response and feed an upload, URL and header splitting, and one JSON request with
  its retries. libcurl, json-c, OpenSSL and the clock are not under \<open>src/\<close>: they are the
  fields of the records \<open>json_api\<close> and \<open>http_env\<close>, arguments of the definitions.
\<close>

section \<open>Types\<close>

record QSCredential =
  keyid :: string
  secret :: string

datatype HeaderField =
  HOST | LOCATION | RANGE | DATE | CONTENTLENGTH | CONTENTMD5 | CONTENTTYPE | EXPECT | AUTHORIZATION | ETAG

type_synonym HeaderContent = "string list"

datatype QSRequestType =
    QSRT_NONE | QSRT_LIST_BUCKET | QSRT_CREATE_BUCKET | QSRT_DELETE_BUCKET | QSRT_LIST_OBJECT
  | QSRT_HEAD_OBJECT | QSRT_DELETE_OBJECT | QSRT_GET_DATA | QSRT_INIT_MP_UPLOAD | QSRT_UPLOAD_MP
  | QSRT_ABORT_MP_UPLOAD | QSRT_COMP_MP_UPLOAD

primrec qsrt_num :: "QSRequestType \<Rightarrow> int" where
  "qsrt_num QSRT_NONE = 0"
| "qsrt_num QSRT_LIST_BUCKET = 1"
| "qsrt_num QSRT_CREATE_BUCKET = 2"
| "qsrt_num QSRT_DELETE_BUCKET = 3"
| "qsrt_num QSRT_LIST_OBJECT = 4"
| "qsrt_num QSRT_HEAD_OBJECT = 5"
| "qsrt_num QSRT_DELETE_OBJECT = 6"
| "qsrt_num QSRT_GET_DATA = 7"
| "qsrt_num QSRT_INIT_MP_UPLOAD = 8"
| "qsrt_num QSRT_UPLOAD_MP = 9"
| "qsrt_num QSRT_ABORT_MP_UPLOAD = 10"
| "qsrt_num QSRT_COMP_MP_UPLOAD = 11"

text \<open>The memory an upload reads: the block \<open>advance\<close> points into, its offset, the bytes left.\<close>

record MemoryData =
  md_block :: "byte list"
  md_advance :: nat
  md_sizeleft :: nat

record BufferInfo =
  bi_data :: "byte list option"
  bi_size :: nat
  bi_position :: nat

section \<open>Header lines\<close>

primrec GetFieldString :: "HeaderField \<Rightarrow> string" where
  "GetFieldString HOST = ''Host''"
| "GetFieldString LOCATION = ''Location''"
| "GetFieldString RANGE = ''Range''"
| "GetFieldString DATE = ''Date''"
| "GetFieldString CONTENTLENGTH = ''Content-Length''"
| "GetFieldString CONTENTMD5 = ''Content-MD5''"
| "GetFieldString CONTENTTYPE = ''Content-Type''"
| "GetFieldString EXPECT = ''Expect''"
| "GetFieldString AUTHORIZATION = ''Authorization''"
| "GetFieldString ETAG = ''ETag''"

definition header_line :: "HeaderField \<Rightarrow> string \<Rightarrow> string" where
  "header_line f v = GetFieldString f @ '': '' @ v"

definition HeaderContent_Add :: "HeaderContent \<Rightarrow> HeaderField \<Rightarrow> string \<Rightarrow> bool \<times> HeaderContent" where
  "HeaderContent_Add h f v =
     (if v \<noteq> [] then (True, h @ [header_line f v]) else (False, h))"

text \<open>The callers that drop the result of \<open>HeaderContent_Add\<close>.\<close>

definition header_add :: "HeaderField \<Rightarrow> string \<Rightarrow> HeaderContent \<Rightarrow> HeaderContent" where
  "header_add f v h = snd (HeaderContent_Add h f v)"

text \<open>\<open>curl_slist_append\<close> of each line in order.\<close>

fun HeaderContent_GetList :: "HeaderContent \<Rightarrow> string list" where
  "HeaderContent_GetList [] = []"
| "HeaderContent_GetList (l # ls) = l # HeaderContent_GetList ls"

section \<open>Libraries the code calls\<close>

text \<open>
  json-c over an abstract type of values. \<open>json_get_string\<close> is \<open>None\<close> where the library
  returns a null pointer.
\<close>

record 'j json_api =
  json_tokener_parse :: "string \<Rightarrow> 'j option"
  json_get_ex :: "'j \<Rightarrow> string \<Rightarrow> 'j option"
  json_get_string :: "'j \<Rightarrow> string option"
  json_get_int :: "'j \<Rightarrow> int"
  json_get_int64 :: "'j \<Rightarrow> int"
  json_array_length :: "'j \<Rightarrow> int"
  json_array_get_idx :: "'j \<Rightarrow> nat \<Rightarrow> 'j"
  json_to_string :: "'j \<Rightarrow> string"
  json_new_object :: "'j"
  json_new_array :: "'j"
  json_new_int :: "int \<Rightarrow> 'j"
  json_object_add :: "'j \<Rightarrow> string \<Rightarrow> 'j \<Rightarrow> 'j"
  json_array_add :: "'j \<Rightarrow> 'j \<Rightarrow> 'j"

text \<open>
  What \<open>curl_easy_setopt\<close> configured, and what \<open>curl_easy_perform\<close> did: its result code,
  the calls of the write and header callbacks, and the sizes asked of the read callback.
\<close>

record request =
  rq_url :: string
  rq_nobody :: bool
  rq_custom :: "string option"
  rq_post :: bool
  rq_postfields :: "string option"
  rq_upload :: bool
  rq_infilesize :: "nat option"
  rq_headers :: "string list"

datatype curl_code = CURLE_OK | CURLE_OPERATION_TIMEDOUT | CURLE_OTHER string

record response =
  rs_code :: curl_code
  rs_body :: "byte list list"
  rs_header :: "byte list list"
  rs_reads :: "nat list"

text \<open>
  The environment of a request, over a world state \<open>'w\<close>: whether \<open>curl_easy_init\<close>
  succeeds, the transfer itself (given the request and the bytes the read callback can still
  deliver), the formatted time of \<open>gmtime\<close>/\<open>strftime\<close>, and OpenSSL's HMAC-SHA256 and Base64.
\<close>

record ('j, 'w) http_env =
  env_json :: "'j json_api"
  env_init :: "'w \<Rightarrow> bool"
  env_perform :: "request \<Rightarrow> byte list \<Rightarrow> 'w \<Rightarrow> response \<times> 'w"
  env_date :: "'w \<Rightarrow> string"
  env_hmac :: "string \<Rightarrow> string \<Rightarrow> string"
  env_base64 :: "string \<Rightarrow> string"
  env_strerror :: "curl_code \<Rightarrow> string"

section \<open>The signature\<close>

definition string_to_sign :: "QSRequestType \<Rightarrow> string \<Rightarrow> string \<Rightarrow> string outcome" where
  "string_to_sign qsrt timebuf path_with_query =
     (let tail = timebuf @ [LF] @ path_with_query in
      if qsrt = QSRT_LIST_OBJECT \<or> qsrt = QSRT_GET_DATA \<or> qsrt = QSRT_LIST_BUCKET
      then Ret (''GET'' @ [LF, LF, LF] @ tail)
      else if qsrt = QSRT_HEAD_OBJECT then Ret (''HEAD'' @ [LF, LF, LF] @ tail)
      else if qsrt = QSRT_DELETE_OBJECT \<or> qsrt = QSRT_DELETE_BUCKET \<or> qsrt = QSRT_ABORT_MP_UPLOAD
      then Ret (''DELETE'' @ [LF, LF, LF] @ tail)
      else if qsrt = QSRT_INIT_MP_UPLOAD then Ret (''POST'' @ [LF, LF] @ ''plain/text'' @ [LF] @ tail)
      else if qsrt = QSRT_CREATE_BUCKET then Ret (''PUT'' @ [LF, LF, LF] @ tail)
      else if qsrt = QSRT_UPLOAD_MP then Ret (''PUT'' @ [LF, LF] @ ''plain/text'' @ [LF] @ tail)
      else if qsrt = QSRT_COMP_MP_UPLOAD then Ret (''POST'' @ [LF, LF] @ ''application/json'' @ [LF] @ tail)
      else THROW InvalidParameter (''unknown QSRequestType '' @ show_int (qsrt_num qsrt)))"

text \<open>The content type the branches of \<open>Signature\<close> add; empty adds nothing.\<close>

definition content_type_of :: "QSRequestType \<Rightarrow> string" where
  "content_type_of qsrt =
     (if qsrt = QSRT_INIT_MP_UPLOAD \<or> qsrt = QSRT_UPLOAD_MP then ''plain/text''
      else if qsrt = QSRT_COMP_MP_UPLOAD then ''application/json'' else [])"

text \<open>The length header of the head of \<open>Signature\<close>; \<open>md->sizeleft\<close> dereferences its argument.\<close>

definition content_length_of :: "QSRequestType \<Rightarrow> MemoryData option \<Rightarrow> string outcome" where
  "content_length_of qsrt md =
     (if qsrt \<in> {QSRT_LIST_OBJECT, QSRT_INIT_MP_UPLOAD, QSRT_GET_DATA, QSRT_LIST_BUCKET,
                 QSRT_HEAD_OBJECT, QSRT_DELETE_OBJECT, QSRT_ABORT_MP_UPLOAD} then Ret ''0''
      else if qsrt = QSRT_UPLOAD_MP \<or> qsrt = QSRT_COMP_MP_UPLOAD
      then (case md of None \<Rightarrow> Undefined | Some d \<Rightarrow> Ret (show_nat (md_sizeleft d)))
      else Ret [])"

definition authorization_value :: "(string \<Rightarrow> string \<Rightarrow> string) \<Rightarrow> (string \<Rightarrow> string) \<Rightarrow>
    QSCredential \<Rightarrow> string \<Rightarrow> string" where
  "authorization_value hmac base64 cred sts =
     ''QS-HMAC-SHA256 '' @ keyid cred @ '':'' @ base64 (hmac (secret cred) sts)"

definition Signature :: "(string \<Rightarrow> string \<Rightarrow> string) \<Rightarrow> (string \<Rightarrow> string) \<Rightarrow> string \<Rightarrow>
    HeaderContent \<Rightarrow> string \<Rightarrow> QSCredential \<Rightarrow> QSRequestType \<Rightarrow> MemoryData option \<Rightarrow> HeaderContent outcome" where
  "Signature hmac base64 timebuf h path_with_query cred qsrt md =
     bind (content_length_of qsrt md) (\<lambda>cl.
       let h1 = header_add DATE timebuf (header_add CONTENTLENGTH cl h) in
       bind (string_to_sign qsrt timebuf path_with_query) (\<lambda>sts.
         let h2 = header_add CONTENTTYPE (content_type_of qsrt) h1 in
         Ret (if keyid cred \<noteq> [] \<and> secret cred \<noteq> []
              then header_add AUTHORIZATION (authorization_value hmac base64 cred sts) h2
              else h2)))"

section \<open>The callbacks\<close>

text \<open>
  \<open>while (position + realsize >= size) size <<= 1\<close>. A buffer has at least 1024 bytes, so
  the guard for size 0, which would loop in C, is never taken (\<open>buffer_ok\<close> below).
\<close>

function grow_size :: "nat \<Rightarrow> nat \<Rightarrow> nat" where
  "grow_size need sz = (if need < sz \<or> sz = 0 then sz else grow_size need (2 * sz))"
  by pat_completeness auto
termination by (relation "measure (\<lambda>(need, sz). Suc need - sz)") auto

declare grow_size.simps [simp del]

text \<open>Cells of a new block hold no defined value before they are written; the model fills them with NUL.\<close>

definition enlarge :: "byte list \<Rightarrow> nat \<Rightarrow> nat \<Rightarrow> byte list" where
  "enlarge dat position sz = take position dat @ replicate (sz - position) NUL"

definition ParserCallback :: "BufferInfo \<Rightarrow> byte list \<Rightarrow> nat \<times> BufferInfo" where
  "ParserCallback bi contents =
     (let realsize = length contents;
          (dat, sz, position) =
            (case bi_data bi of None \<Rightarrow> (replicate 1024 NUL, 1024, 0)
             | Some d \<Rightarrow> (d, bi_size bi, bi_position bi));
          sz' = grow_size (position + realsize) sz;
          dat' = (if sz' = sz then dat else enlarge dat position sz')
      in (realsize, \<lparr>bi_data = Some (overwrite position contents dat'), bi_size = sz',
                     bi_position = position + realsize\<rparr>))"

definition mem_read_callback :: "nat \<Rightarrow> MemoryData \<Rightarrow> byte list \<times> MemoryData" where
  "mem_read_callback realsize md =
     (let n2read = (if realsize < md_sizeleft md then realsize else md_sizeleft md) in
      if n2read = 0 then ([], md)
      else (subbuf (md_advance md) n2read (md_block md),
            md\<lparr>md_advance := md_advance md + n2read, md_sizeleft := md_sizeleft md - n2read\<rparr>))"

text \<open>The bytes the read callback can still deliver.\<close>

definition md_rest :: "MemoryData \<Rightarrow> byte list" where
  "md_rest md = subbuf (md_advance md) (md_sizeleft md) (md_block md)"

text \<open>The calls of the two callbacks during one transfer.\<close>

definition run_reads :: "nat list \<Rightarrow> MemoryData \<Rightarrow> byte list \<times> MemoryData" where
  "run_reads = run_pulls mem_read_callback"

definition run_writes :: "byte list list \<Rightarrow> BufferInfo \<Rightarrow> BufferInfo" where
  "run_writes chunks bi = fold (\<lambda>c b. snd (ParserCallback b c)) chunks bi"

section \<open>The response buffer as a sink\<close>

definition buffer_ok :: "BufferInfo \<Rightarrow> bool" where
  "buffer_ok bi \<longleftrightarrow>
     (case bi_data bi of None \<Rightarrow> True
      | Some d \<Rightarrow> length d = bi_size bi \<and> bi_position bi < bi_size bi \<and> 1024 \<le> bi_size bi)"

definition buffer_content :: "BufferInfo \<Rightarrow> byte list" where
  "buffer_content bi = (case bi_data bi of None \<Rightarrow> [] | Some d \<Rightarrow> take (bi_position bi) d)"

lemma grow_size_enough: "0 < sz \<Longrightarrow> need < grow_size need sz \<and> sz \<le> grow_size need sz"
proof (induction need sz rule: grow_size.induct)
  case (1 need sz)
  then show ?case by (cases "need < sz") (auto simp: grow_size.simps [of need sz])
qed

text \<open>The growth stops at the first power-of-two multiple that is large enough.\<close>

lemma grow_size_tight: "0 < sz \<Longrightarrow> grow_size need sz \<le> max sz (2 * need)"
proof (induction need sz rule: grow_size.induct)
  case (1 need sz)
  then show ?case by (cases "need < sz") (auto simp: grow_size.simps [of need sz])
qed

lemma ParserCallback_step:
  assumes "buffer_ok bi"
  shows "buffer_ok (snd (ParserCallback bi c))"
    and "buffer_content (snd (ParserCallback bi c)) = buffer_content bi @ c"
proof -
  define dat sz pos where "dat = (case bi_data bi of None \<Rightarrow> replicate 1024 NUL | Some d \<Rightarrow> d)"
    and "sz = (case bi_data bi of None \<Rightarrow> 1024 | Some d \<Rightarrow> bi_size bi)"
    and "pos = (case bi_data bi of None \<Rightarrow> 0 | Some d \<Rightarrow> bi_position bi)"
  note defs = dat_def sz_def pos_def
  define sz' where "sz' = grow_size (pos + length c) sz"
  define dat' where "dat' = (if sz' = sz then dat else enlarge dat pos sz')"
  have ok: "length dat = sz" "pos < sz" "1024 \<le> sz"
    using assms by (auto simp: buffer_ok_def defs split: option.splits)
  have sz': "pos + length c < sz'" "sz \<le> sz'"
    using grow_size_enough [of sz "pos + length c"] ok by (auto simp: sz'_def)
  have dat': "length dat' = sz'" "take pos dat' = take pos dat"
    using ok sz' by (auto simp: dat'_def enlarge_def)
  have cb: "snd (ParserCallback bi c) =
      \<lparr>bi_data = Some (overwrite pos c dat'), bi_size = sz', bi_position = pos + length c\<rparr>"
    by (auto simp: ParserCallback_def Let_def defs sz'_def dat'_def split: option.split)
  show "buffer_ok (snd (ParserCallback bi c))"
    unfolding cb using dat' sz' ok by (simp add: buffer_ok_def)
  show "buffer_content (snd (ParserCallback bi c)) = buffer_content bi @ c"
    unfolding cb using dat' sz' ok
    by (auto simp: buffer_content_def take_overwrite_end defs split: option.split)
qed

interpretation response: sink "\<lambda>b c. snd (ParserCallback b c)" buffer_content buffer_ok
  by unfold_locales (auto simp: ParserCallback_step)

section \<open>The upload memory as a source\<close>

definition md_ok :: "MemoryData \<Rightarrow> bool" where
  "md_ok md \<longleftrightarrow> md_advance md + md_sizeleft md \<le> length (md_block md)"

lemma length_md_rest [simp]: "md_ok md \<Longrightarrow> length (md_rest md) = md_sizeleft md"
  by (simp add: md_ok_def md_rest_def)

interpretation upload: source mem_read_callback md_rest md_ok
proof
  fix md n assume ok: "md_ok md"
  show "md_ok (snd (mem_read_callback n md))"
    using ok by (auto simp: mem_read_callback_def md_ok_def Let_def)
  show "fst (mem_read_callback n md) @ md_rest (snd (mem_read_callback n md)) = md_rest md"
    using subbuf_split [of n "md_sizeleft md" "md_advance md" "md_block md"]
    by (auto simp: mem_read_callback_def md_rest_def Let_def)
  show "length (fst (mem_read_callback n md)) = min n (length (md_rest md))"
    using ok by (auto simp: mem_read_callback_def md_ok_def Let_def)
qed

text \<open>
  Whatever pieces a response arrives in, the buffer holds exactly their concatenation,
  and the terminating zero the caller stores behind it is inside the block.
\<close>

theorem response_collected:
  "buffer_content (run_writes chunks \<lparr>bi_data = None, bi_size = 0, bi_position = 0\<rparr>) = concat chunks \<and>
   buffer_ok (run_writes chunks \<lparr>bi_data = None, bi_size = 0, bi_position = 0\<rparr>)"
proof -
  let ?b = "\<lparr>bi_data = None, bi_size = 0, bi_position = 0\<rparr>"
  have "buffer_ok ?b" "buffer_content ?b = []"
    by (simp_all add: buffer_ok_def buffer_content_def)
  then show ?thesis
    using response.fold_concat [of ?b chunks] response.bounded.fold_inv [of ?b chunks]
    by (simp add: run_writes_def)
qed

text \<open>
  The read callback hands out the upload memory in order, without loss or repetition,
  whatever sizes libcurl asks for: after requests for \<open>sum_list ns\<close> bytes it has delivered
  that prefix and the rest is left.
\<close>

theorem upload_delivered:
  assumes "md_ok md"
  shows "fst (run_reads ns md) = take (sum_list ns) (md_rest md) \<and>
         md_rest (snd (run_reads ns md)) = drop (sum_list ns) (md_rest md) \<and>
         md_ok (snd (run_reads ns md))"
  using upload.run_take [OF assms] upload.run_inv [OF assms] by (simp add: run_reads_def)

theorem upload_delivered_witness:
  "fst (run_reads [2, 5] \<lparr>md_block = ''abcdef'', md_advance = 1, md_sizeleft = 4\<rparr>) = ''bcde''"
proof -
  let ?md = "\<lparr>md_block = ''abcdef'', md_advance = 1, md_sizeleft = 4\<rparr>"
  have ok: "md_ok ?md" by (simp add: md_ok_def)
  show ?thesis
    using upload_delivered [OF ok, of "[2, 5]"] by (simp add: md_rest_def subbuf_def)
qed

end
