(* ===== verification/QS_Request.thy ===== *)
theory QS_Request
  imports QS_Common
begin

text \<open>
  The second half of \<open>src/QingStorCommon.cpp\<close>: the pieces of a URL, the response header as
  JSON, one request (\<open>DoGetJSON_Internal\<close>) and its retries (\<open>DoGetJSON\<close>).
\<close>

section \<open>URL pieces\<close>

definition extract_field :: "string \<Rightarrow> http_parser_url \<Rightarrow> http_parser_url_fields \<Rightarrow> string option" where
  "extract_field url u i =
     (if uf_is_set u i
      then Some (subbuf (unat (off (field_data u i))) (unat (len (field_data u i))) url)
      else None)"

text \<open>The two loops over the query: count the slashes, then copy with each one escaped.\<close>

fun count_slashes :: "nat \<Rightarrow> string \<Rightarrow> nat" where
  "count_slashes num [] = num"
| "count_slashes num (c # cs) = count_slashes (if c = CHR ''/'' then num + 1 else num) cs"

fun escape_slashes :: "string \<Rightarrow> string" where
  "escape_slashes [] = []"
| "escape_slashes (c # cs) =
     (if c = CHR ''/'' then ''%2F'' @ escape_slashes cs else c # escape_slashes cs)"

text \<open>The size of the target block, without its terminator.\<close>

definition escape_capacity :: "string \<Rightarrow> nat" where
  "escape_capacity q = length q + 2 * count_slashes 0 q"

text \<open>
  \<open>qs_parse_url(url, NULL, NULL, &path, &query, NULL)\<close>, the form of both callers: the path
  and the escaped query. \<open>u\<close> is the uninitialised local structure. A URL without a path
  leaves a null \<open>*path\<close>, which \<open>strlen\<close> then reads.
\<close>

definition qs_parse_url :: "http_parser_url \<Rightarrow> string \<Rightarrow> (string \<times> string option) outcome" where
  "qs_parse_url u url =
     (case http_parser_parse_url url (length url) False u of
        None \<Rightarrow> THROW InvalidParameter
          (''could not parse URL '' @ [DQ] @ url @ [DQ] @ '': error code 1'' @ [LF])
      | Some u' \<Rightarrow>
          (case extract_field url u' UF_PATH of
             None \<Rightarrow> Undefined
           | Some path \<Rightarrow>
               let path' = (if length path = 1 \<and> hd path = CHR ''/'' then [] else path) in
               Ret (path', map_option escape_slashes (extract_field url u' UF_QUERY))))"

text \<open>
  \<open>sstr << "/" << bucket << path << "?" << query\<close>. A null \<open>bucket\<close> (bucket listing) puts a
  libstdc++ stream into its bad state, which drops all later output.
\<close>

definition resource_path :: "string option \<Rightarrow> string \<Rightarrow> string option \<Rightarrow> string" where
  "resource_path bucket path query =
     (case bucket of None \<Rightarrow> ''/''
      | Some b \<Rightarrow> ''/'' @ b @ path @ (case query of None \<Rightarrow> [] | Some q \<Rightarrow> ''?'' @ q))"

section \<open>The response header as JSON\<close>

text \<open>\<open>std::getline\<close> until the stream ends: pieces between line feeds, the last one if not empty.\<close>

fun get_lines :: "string \<Rightarrow> string \<Rightarrow> string list" where
  "get_lines acc [] = (if acc = [] then [] else [acc])"
| "get_lines acc (c # cs) = (if c = LF then acc # get_lines [] cs else get_lines (acc @ [c]) cs)"

text \<open>\<open>str.find(":")\<close> as a position, \<open>None\<close> for \<open>npos\<close>.\<close>

fun find_byte :: "byte \<Rightarrow> string \<Rightarrow> nat option" where
  "find_byte b [] = None"
| "find_byte b (c # cs) = (if c = b then Some 0 else map_option Suc (find_byte b cs))"

definition header_value :: "string \<Rightarrow> nat \<Rightarrow> string" where
  "header_value str pos =
     (let value = drop (pos + 2) str in
      case find_byte CR value of None \<Rightarrow> value | Some epos \<Rightarrow> take epos value)"

definition header_entry :: "string \<Rightarrow> string \<Rightarrow> string" where
  "header_entry key value =
     (if key \<noteq> ''Content-Length'' \<and> key \<noteq> ''ETag''
      then [DQ] @ key @ [DQ] @ '': '' @ [DQ] @ value @ [DQ] @ '','' @ [LF]
      else [DQ] @ key @ [DQ] @ '': '' @ value @ '','' @ [LF])"

text \<open>The loop over the lines; \<open>None\<close> is the early \<open>return NULL\<close>.\<close>

fun header_json_lines :: "string list \<Rightarrow> string option" where
  "header_json_lines [] = Some []"
| "header_json_lines (str # strs) =
     (case find_byte (CHR '':'') str of
        None \<Rightarrow> header_json_lines strs
      | Some pos \<Rightarrow>
          if pos + 2 \<ge> length str then None
          else map_option (append (header_entry (take pos str) (header_value str pos)))
                 (header_json_lines strs))"

definition header_json :: "string \<Rightarrow> string option" where
  "header_json content =
     map_option (\<lambda>body. ''{'' @ [LF] @ body @ ''}'') (header_json_lines (get_lines [] content))"

definition ParseHttpHeader :: "'j json_api \<Rightarrow> string \<Rightarrow> 'j option" where
  "ParseHttpHeader J content = Option.bind (header_json content) (json_tokener_parse J)"

section \<open>One request\<close>

text \<open>\<open>data[position] = 0\<close> and the C string read from there.\<close>

definition buffer_text :: "BufferInfo \<Rightarrow> string option" where
  "buffer_text bi = map_option (\<lambda>d. takeWhile (\<lambda>c. c \<noteq> NUL) (take (bi_position bi) d)) (bi_data bi)"

definition empty_buffer :: BufferInfo where
  "empty_buffer = \<lparr>bi_data = None, bi_size = 0, bi_position = 0\<rparr>"

definition is_upload :: "QSRequestType \<Rightarrow> bool" where
  "is_upload qsrt \<longleftrightarrow> qsrt = QSRT_UPLOAD_MP \<or> qsrt = QSRT_COMP_MP_UPLOAD"

text \<open>The options set on the handle.\<close>

definition make_request :: "string \<Rightarrow> QSRequestType \<Rightarrow> MemoryData option \<Rightarrow> string list \<Rightarrow> request" where
  "make_request url qsrt md headers =
     \<lparr>rq_url = url,
      rq_nobody = (qsrt = QSRT_HEAD_OBJECT),
      rq_custom =
        (if qsrt = QSRT_DELETE_OBJECT \<or> qsrt = QSRT_DELETE_BUCKET \<or> qsrt = QSRT_ABORT_MP_UPLOAD
         then Some ''DELETE''
         else if qsrt = QSRT_CREATE_BUCKET then Some ''PUT'' else None),
      rq_post = (qsrt = QSRT_INIT_MP_UPLOAD \<or> qsrt = QSRT_COMP_MP_UPLOAD),
      rq_postfields = (if qsrt = QSRT_INIT_MP_UPLOAD then Some ''uploads'' else None),
      rq_upload = (qsrt = QSRT_UPLOAD_MP),
      rq_infilesize = (if is_upload qsrt then map_option md_sizeleft md else None),
      rq_headers = headers\<rparr>"

text \<open>The branches after \<open>curl_easy_perform\<close>.\<close>

definition handle_response :: "('j, 'w) http_env \<Rightarrow> QSRequestType \<Rightarrow> response \<Rightarrow> 'j option outcome" where
  "handle_response E qsrt resp =
     (let J = env_json E;
          json = buffer_text (run_writes (rs_body resp) empty_buffer);
          yaml = buffer_text (run_writes (rs_header resp) empty_buffer);
          with_qsrt = '' with qsrt as '' @ show_int (qsrt_num qsrt)
      in if rs_code resp \<noteq> CURLE_OK
         then THROW QingStorNetworkConnectException
                (''curl_easy_perform() failed: '' @ env_strerror E (rs_code resp))
         else if qsrt = QSRT_LIST_OBJECT \<or> qsrt = QSRT_INIT_MP_UPLOAD \<or> qsrt = QSRT_LIST_BUCKET
         then (case json of
                 None \<Rightarrow> THROW QingStorNetworkException ''HTTP response is empty''
               | Some t \<Rightarrow>
                   (case json_tokener_parse J t of
                      None \<Rightarrow> THROW QingStorNetworkException
                        (''HTTP response could not parse into JSON: '' @ t @ with_qsrt)
                    | Some j \<Rightarrow> Ret (Some j)))
         else (case json of
                 Some t \<Rightarrow> THROW QingStorNetworkException (''HTTP response is non-empty: '' @ t @ with_qsrt)
               | None \<Rightarrow>
                   if qsrt = QSRT_HEAD_OBJECT
                   then (case yaml of
                           None \<Rightarrow> THROW QingStorNetworkException ''HTTP response header is empty''
                         | Some t \<Rightarrow>
                             (case ParseHttpHeader J t of
                                None \<Rightarrow> THROW QingStorNetworkException
                                  (''HTTP Header response could not parse into JSON: '' @ t @ with_qsrt)
                              | Some j \<Rightarrow> Ret (Some j)))
                   else Ret None))"

text \<open>The header list: \<open>Host\<close>, \<open>Location\<close> if given, and what \<open>Signature\<close> adds.\<close>

definition request_headers :: "('j, 'w) http_env \<Rightarrow> http_parser_url \<Rightarrow> string \<Rightarrow> string \<Rightarrow> string \<Rightarrow>
    string option \<Rightarrow> string option \<Rightarrow> QSCredential \<Rightarrow> QSRequestType \<Rightarrow> MemoryData option \<Rightarrow> HeaderContent outcome" where
  "request_headers E u date host url bucket location cred qsrt md =
     (let h1 = header_add HOST host [];
          h2 = (case location of None \<Rightarrow> h1 | Some l \<Rightarrow> header_add LOCATION l h1)
      in bind (qs_parse_url u url) (\<lambda>(path, query).
           Signature (env_hmac E) (env_base64 E) date h2 (resource_path bucket path query) cred qsrt md))"

definition DoGetJSON_Internal :: "('j, 'w) http_env \<Rightarrow> string \<Rightarrow> string \<Rightarrow> string option \<Rightarrow> string option \<Rightarrow>
    QSCredential \<Rightarrow> QSRequestType \<Rightarrow> MemoryData option \<Rightarrow> 'w \<Rightarrow>
    'j option outcome \<times> MemoryData option \<times> 'w" where
  "DoGetJSON_Internal E host url bucket location cred qsrt md w =
     (if \<not> env_init E w
      then (catch_rethrow (THROW OutOfMemoryException ''cound not create curl instance''), md, w)
      else if is_upload qsrt \<and> md = None
      then (catch_rethrow (THROW InvalidParameter
              (''qsrt type is '' @ show_int (qsrt_num qsrt) @ '' while MemoryData is empty'')), md, w)
      else case request_headers E blank_url (env_date E w) host url bucket location cred qsrt md of
             Ret h \<Rightarrow>
               (let (resp, w') = env_perform E (make_request url qsrt md (HeaderContent_GetList h))
                                   (if is_upload qsrt then (case md of None \<Rightarrow> [] | Some d \<Rightarrow> md_rest d) else []) w;
                    md' = (if is_upload qsrt then map_option (snd \<circ> run_reads (rs_reads resp)) md else md)
                in (catch_rethrow (handle_response E qsrt resp), md', w'))
           | Throw e \<Rightarrow> (catch_rethrow (Throw e), md, w)
           | Undefined \<Rightarrow> (Undefined, md, w))"

section \<open>Retries\<close>

text \<open>
  The \<open>retry\<close> loop: \<open>failing\<close> counts the attempts that threw; the upload memory is passed
  to each attempt as the one before left it.
\<close>

function retry_loop :: "(MemoryData option \<Rightarrow> 'w \<Rightarrow> 'a outcome \<times> MemoryData option \<times> 'w) \<Rightarrow> int \<Rightarrow> nat \<Rightarrow>
    MemoryData option \<Rightarrow> 'w \<Rightarrow> 'a outcome \<times> MemoryData option \<times> 'w" where
  "retry_loop attempt retries failing md w =
     (case attempt md w of
        (Throw e, md', w') \<Rightarrow>
          if int (Suc failing) < retries then retry_loop attempt retries (Suc failing) md' w'
          else (Throw e, md', w')
      | r \<Rightarrow> r)"
  by pat_completeness auto
termination
  by (relation "measure (\<lambda>(attempt, retries, failing, md, w). nat (retries - int failing))") auto

declare retry_loop.simps [simp del]

definition DoGetJSON :: "('j, 'w) http_env \<Rightarrow> string \<Rightarrow> string \<Rightarrow> string option \<Rightarrow> string option \<Rightarrow>
    QSCredential \<Rightarrow> QSRequestType \<Rightarrow> MemoryData option \<Rightarrow> int \<Rightarrow> 'w \<Rightarrow>
    'j option outcome \<times> MemoryData option \<times> 'w" where
  "DoGetJSON E host url bucket location cred qsrt md retries w =
     retry_loop (DoGetJSON_Internal E host url bucket location cred qsrt) retries 0 md w"

end
