(* ===== verification/QS_Config.thy ===== *)
theory QS_Config
  imports QS_Exceptions
begin

text \<open>
  \<open>src/Configuration.cpp\<close>: the two constructors of \<open>Configuration\<close>. The YAML scanner is not
  under \<open>src/\<close>; what it delivers, the list of tokens of the file, is an argument.
\<close>

record Configuration =
  mAccessKeyId :: string
  mSecretAccessKey :: string
  mHost :: string
  mLocation :: string
  mPort :: int
  mProtocol :: string
  mConnectionRetries :: int
  mNConnections :: int
  mChunkSize :: int
  mLogLevel :: string

section \<open>From the arguments of the C interface\<close>

definition Configuration_direct :: "string \<Rightarrow> string \<Rightarrow> string \<Rightarrow> int \<Rightarrow> Configuration" where
  "Configuration_direct location access_key_id secret_access_key chunk_size =
     \<lparr>mAccessKeyId = access_key_id, mSecretAccessKey = secret_access_key,
      mHost = ''qingstor.com'', mLocation = location, mPort = 443, mProtocol = ''https'',
      mConnectionRetries = 3, mNConnections = 3, mChunkSize = chunk_size, mLogLevel = ''debug''\<rparr>"

section \<open>The tokens of the file\<close>

text \<open>
  The token types the \<open>switch\<close> names; \<open>Neutral\<close> stands for those of its first group, which
  do nothing, \<open>Other\<close> for every type that reaches \<open>default\<close>.
\<close>

datatype yaml_token =
    STREAM_END_TOKEN | Neutral | KEY_TOKEN | VALUE_TOKEN | SCALAR_TOKEN string | Other

record scan =
  sc_kvs :: "string \<Rightarrow> string option"
  sc_token_key :: string
  sc_token_value :: string
  sc_reach_key :: bool
  sc_reach_value :: bool

definition scan_start :: scan where
  "scan_start = \<lparr>sc_kvs = (\<lambda>_. None), sc_token_key = [], sc_token_value = [],
     sc_reach_key = False, sc_reach_value = False\<rparr>"

text \<open>\<open>std::map::insert\<close> leaves an entry that is already there.\<close>

definition kvs_insert :: "string \<Rightarrow> string \<Rightarrow> (string \<Rightarrow> string option) \<Rightarrow> (string \<Rightarrow> string option)" where
  "kvs_insert k v m = (case m k of None \<Rightarrow> m(k \<mapsto> v) | Some _ \<Rightarrow> m)"

definition scan_scalar :: "string \<Rightarrow> scan \<Rightarrow> scan outcome" where
  "scan_scalar text s =
     (let (s', config_invalid) =
        (if sc_reach_key s then (s\<lparr>sc_token_key := text, sc_reach_key := False\<rparr>, False)
         else if sc_reach_value s
         then (s\<lparr>sc_token_value := text, sc_reach_value := False\<rparr>, sc_token_key s = [] \<or> text = [])
         else (s, True))
      in if config_invalid then THROW QingStorConfigInvalid ''YAML configuration is invalid''
         else Ret (s'\<lparr>sc_kvs := kvs_insert (sc_token_key s') (sc_token_value s') (sc_kvs s'),
                      sc_token_key := [], sc_token_value := []\<rparr>))"

definition invalid_token :: "'a outcome" where
  "invalid_token =
     THROW QingStorConfigInvalid (''YAML configuration is invalid with token type 0'' @ [LF])"

text \<open>
  The scan up to the end of the stream. Past the last token the scanner delivers empty
  tokens, which reach \<open>default\<close>; the token is deleted, which clears its type, before the
  message is made.
\<close>

fun scan_tokens :: "yaml_token list \<Rightarrow> scan \<Rightarrow> scan outcome" where
  "scan_tokens [] s = invalid_token"
| "scan_tokens (t # ts) s =
     (case t of
        STREAM_END_TOKEN \<Rightarrow> Ret s
      | Neutral \<Rightarrow> scan_tokens ts s
      | KEY_TOKEN \<Rightarrow> scan_tokens ts (s\<lparr>sc_reach_key := True\<rparr>)
      | VALUE_TOKEN \<Rightarrow> scan_tokens ts (s\<lparr>sc_reach_value := True\<rparr>)
      | SCALAR_TOKEN text \<Rightarrow> bind (scan_scalar text s) (scan_tokens ts)
      | Other \<Rightarrow> invalid_token)"

section \<open>The settings\<close>

text \<open>\<open>kvs[key]\<close>: the empty string where there is no entry.\<close>

definition kv :: "(string \<Rightarrow> string option) \<Rightarrow> string \<Rightarrow> string" where
  "kv kvs key = (case kvs key of None \<Rightarrow> [] | Some v \<Rightarrow> v)"

definition text_setting :: "string \<Rightarrow> string \<Rightarrow> string" where
  "text_setting v dflt = (if v = [] then dflt else v)"

text \<open>A number by \<open>atoi\<close>; one outside \<open>1 .. hi\<close> is replaced by the default.\<close>

definition int_setting :: "string \<Rightarrow> int \<Rightarrow> int \<Rightarrow> int" where
  "int_setting v hi dflt =
     (if v = [] then dflt
      else let n = c_atoi v in if n \<le> 0 \<or> n > hi then dflt else n)"

definition chunk_setting :: "string \<Rightarrow> int" where
  "chunk_setting v =
     (if v = [] then 32 * 1024 * 1024
      else let n = c_atoi v in if n \<le> 0 then 32 * 1024 * 1024 else n)"

definition config_of_kvs :: "(string \<Rightarrow> string option) \<Rightarrow> Configuration outcome" where
  "config_of_kvs kvs =
     (if kv kvs ''access_key_id'' = [] then THROW QingStorConfigInvalid ''missing access_key_id''
      else if kv kvs ''secret_access_key'' = [] then THROW QingStorConfigInvalid ''missing secret_access_key''
      else Ret
        \<lparr>mAccessKeyId = kv kvs ''access_key_id'',
         mSecretAccessKey = kv kvs ''secret_access_key'',
         mHost = text_setting (kv kvs ''host'') ''qingstor.com'',
         mLocation = text_setting (kv kvs ''location'') ''pek3a'',
         mPort = int_setting (kv kvs ''port'') 65535 443,
         mProtocol = text_setting (kv kvs ''protocol'') ''https'',
         mConnectionRetries = int_setting (kv kvs ''connection_retries'') 16 3,
         mNConnections = int_setting (kv kvs ''num_connections'') 8 3,
         mChunkSize = chunk_setting (kv kvs ''chunk_size''),
         mLogLevel = text_setting (kv kvs ''log_level'') ''debug''\<rparr>)"

text \<open>The constructor: \<open>file\<close> is \<open>None\<close> when \<open>fopen\<close> fails.\<close>

definition Configuration_file :: "bool \<Rightarrow> string \<Rightarrow> yaml_token list option \<Rightarrow> Configuration outcome" where
  "Configuration_file parser_ok config_file file =
     (if \<not> parser_ok then THROW OutOfMemoryException ''couldn't initialize yaml parser''
      else case file of
        None \<Rightarrow> THROW QingStorIOException (''couldn't open configure file '' @ config_file)
      | Some tokens \<Rightarrow> bind (scan_tokens tokens scan_start) (\<lambda>s. config_of_kvs (sc_kvs s)))"

section \<open>No file is accepted\<close>

text \<open>
  Between two tokens both texts are cleared, and no entry has a value: the entry made for
  a key gets the cleared value, and a value is always looked at with the cleared key.
\<close>

definition scan_blank :: "scan \<Rightarrow> bool" where
  "scan_blank s \<longleftrightarrow> sc_token_key s = [] \<and> sc_token_value s = [] \<and> (\<forall>k. kv (sc_kvs s) k = [])"

lemma scan_scalar_blank: "scan_scalar text s = Ret s' \<Longrightarrow> scan_blank s \<Longrightarrow> scan_blank s'"
  by (auto simp: scan_scalar_def scan_blank_def THROW_def kvs_insert_def kv_def
      split: if_splits option.splits)

lemma scan_tokens_blank: "scan_tokens ts s = Ret s' \<Longrightarrow> scan_blank s \<Longrightarrow> scan_blank s'"
proof (induction ts arbitrary: s)
  case (Cons t ts)
  show ?case
  proof (cases t)
    case (SCALAR_TOKEN v)
    with Cons.prems(1) obtain s1 where "scan_scalar v s = Ret s1" "scan_tokens ts s1 = Ret s'"
      by (auto simp: bind_Ret_iff)
    with Cons.IH Cons.prems(2) scan_scalar_blank show ?thesis by blast
  qed (use Cons in \<open>auto simp: invalid_token_def THROW_def scan_blank_def\<close>)
qed (simp add: invalid_token_def THROW_def)

lemma Configuration_file_throws: "\<exists>e. Configuration_file parser_ok config_file file = Throw e"
proof (cases "scan_tokens (the file) scan_start")
  case (Ret s)
  have "kv (sc_kvs s) ''access_key_id'' = []"
    using scan_tokens_blank [OF Ret] by (simp add: scan_blank_def scan_start_def kv_def)
  with Ret show ?thesis
    by (auto simp: Configuration_file_def THROW_def config_of_kvs_def split: option.split)
next
  case Undefined
  have "scan_tokens ts s \<noteq> Undefined" for ts s
    by (induction ts s rule: scan_tokens.induct)
      (auto simp: invalid_token_def THROW_def scan_scalar_def split: yaml_token.split)
  with Undefined show ?thesis by blast
qed (auto simp: Configuration_file_def THROW_def split: option.split)

text \<open>
  The file constructor never succeeds: a value is always looked at with a cleared key,
  so a file with any value is rejected as invalid, and one without has no access key. Its
  callers get an exception for every configuration file.
\<close>

theorem Configuration_file_fails: "\<exists>e. Configuration_file parser_ok config_file file = Throw e"
  by (rule Configuration_file_throws)

section \<open>The settings are in range\<close>

lemma int_setting_range: "1 \<le> dflt \<Longrightarrow> dflt \<le> hi \<Longrightarrow> 1 \<le> int_setting v hi dflt \<and> int_setting v hi dflt \<le> hi"
  by (auto simp: int_setting_def Let_def)

lemma dropWhile_show_nat: "dropWhile is_space (show_nat n) = show_nat n"
proof (cases "show_nat n")
  case (Cons c cs)
  then have "is_digit c" using show_nat_digits [of c n] by simp
  then have "\<not> is_space c" by (auto simp: is_digit_def is_space_def byte_eq_iff)
  with Cons show ?thesis by simp
qed simp

lemma sign_digits_show_nat: "sign_digits (show_nat n) = (False, show_nat n)"
proof (cases "show_nat n")
  case (Cons c cs)
  then have "is_digit c" using show_nat_digits [of c n] by simp
  then have "c \<noteq> CHR ''-''" "c \<noteq> CHR ''+''" by (auto simp: is_digit_def)
  with Cons dropWhile_show_nat [of n] show ?thesis by (simp add: sign_digits_def)
qed simp

lemma c_atoi_show_nat: "n < 2 ^ 31 \<Longrightarrow> c_atoi (show_nat n) = int n"
  by (simp add: c_atoi_def c_strtol_def sign_digits_show_nat digits_value_show_nat INT64_MAX_def)

text \<open>
  Whatever the file says, a configuration built from its entries has a usable port,
  between 1 and 16 retries, between 1 and 8 connections and a positive chunk size, and a
  port written in decimal between 1 and 65535 is the port used.
\<close>

theorem config_of_kvs_ranges:
  assumes "config_of_kvs kvs = Ret c"
  shows "1 \<le> mPort c \<and> mPort c \<le> 65535 \<and> 1 \<le> mConnectionRetries c \<and> mConnectionRetries c \<le> 16 \<and>
         1 \<le> mNConnections c \<and> mNConnections c \<le> 8 \<and> 1 \<le> mChunkSize c \<and> mChunkSize c < 2 ^ 31 \<and>
         mAccessKeyId c \<noteq> [] \<and> mSecretAccessKey c \<noteq> [] \<and>
         (\<forall>p. 1 \<le> p \<and> p \<le> 65535 \<and> kvs ''port'' = Some (show_nat p) \<longrightarrow> mPort c = int p)"
proof -
  have chunk: "1 \<le> chunk_setting v \<and> chunk_setting v < 2 ^ 31" for v
    using c_atoi_bounds [of v] by (auto simp: chunk_setting_def Let_def)
  have port: "int_setting (show_nat p) 65535 443 = int p" if "1 \<le> p" "p \<le> 65535" for p
    using that by (simp add: int_setting_def c_atoi_show_nat)
  show ?thesis
    using assms chunk [of "kv kvs ''chunk_size''"] port int_setting_range [of 443 65535 "kv kvs ''port''"]
      int_setting_range [of 3 16 "kv kvs ''connection_retries''"]
      int_setting_range [of 3 8 "kv kvs ''num_connections''"]
    by (auto simp: config_of_kvs_def THROW_def kv_def split: if_splits)
qed

theorem config_of_kvs_ranges_witness:
  "\<exists>c. config_of_kvs [''access_key_id'' \<mapsto> ''a'', ''secret_access_key'' \<mapsto> ''s'', ''port'' \<mapsto> show_nat 80] = Ret c \<and> mPort c = 80"
proof -
  let ?kvs = "[''access_key_id'' \<mapsto> ''a'', ''secret_access_key'' \<mapsto> ''s'', ''port'' \<mapsto> show_nat 80]"
  obtain c where c: "config_of_kvs ?kvs = Ret c"
    by (simp add: config_of_kvs_def kv_def)
  have "1 \<le> (80 :: nat) \<and> 80 \<le> (65535 :: nat) \<and> ?kvs ''port'' = Some (show_nat 80)" by simp
  with config_of_kvs_ranges [OF c] have "mPort c = int 80" by blast
  with c show ?thesis by auto
qed

end
