(* ===== verification/QS_Calls.thy ===== *)
theory QS_Calls
  imports QS_Request QS_Config
begin

text \<open>
  Calls that change a state: a state in, an outcome and a state out, with their sequencing,
  and the requests the objects of the library issue through \<open>DoGetJSON\<close> with the settings
  of their configuration.
\<close>

section \<open>Sequencing\<close>

type_synonym ('a, 's) call = "'s \<Rightarrow> 'a outcome \<times> 's"

definition return :: "'a \<Rightarrow> ('a, 's) call" where
  "return x s = (Ret x, s)"

definition raise :: "exn_class \<Rightarrow> string \<Rightarrow> ('a, 's) call" where
  "raise c m s = (THROW c m, s)"

definition then_call :: "('a, 's) call \<Rightarrow> ('a \<Rightarrow> ('b, 's) call) \<Rightarrow> ('b, 's) call" where
  "then_call m k s =
     (case m s of
        (Ret x, s') \<Rightarrow> k x s'
      | (Throw e, s') \<Rightarrow> (Throw e, s')
      | (Undefined, s') \<Rightarrow> (Undefined, s'))"

text \<open>\<open>catch (QingStorException & e) { cleanup; throw e; }\<close> around a call.\<close>

definition rethrowing :: "('a, 's) call \<Rightarrow> ('a, 's) call" where
  "rethrowing m s = (case m s of (r, s') \<Rightarrow> (catch_rethrow r, s'))"

definition get_state :: "('s, 's) call" where
  "get_state s = (Ret s, s)"

definition modify :: "('s \<Rightarrow> 's) \<Rightarrow> (unit, 's) call" where
  "modify f s = (Ret (), f s)"

lemma call_simps [simp]:
  "return x s = (Ret x, s)" "raise c m s = (THROW c m, s)" "get_state s = (Ret s, s)" "modify f s = (Ret (), f s)"
  by (simp_all add: return_def raise_def get_state_def modify_def)

lemma then_return [simp]: "then_call (return x) k = k x"
  by (rule ext) (simp add: then_call_def)

lemma then_Ret: "m s = (Ret x, s') \<Longrightarrow> then_call m k s = k x s'"
  by (simp add: then_call_def)

lemma then_Throw: "m s = (Throw e, s') \<Longrightarrow> then_call m k s = (Throw e, s')"
  by (simp add: then_call_def)

lemma then_Ret_iff: "then_call m k s = (Ret y, s2) \<longleftrightarrow> (\<exists>x s1. m s = (Ret x, s1) \<and> k x s1 = (Ret y, s2))"
  by (auto simp: then_call_def split: prod.split outcome.split)

lemma rethrowing_Ret_iff: "rethrowing m s = (Ret y, s') \<longleftrightarrow> m s = (Ret y, s')"
  by (auto simp: rethrowing_def split: prod.split)

lemma rethrowing_Ret: "m s = (Ret y, s') \<Longrightarrow> rethrowing m s = (Ret y, s')"
  by (simp add: rethrowing_Ret_iff)

section \<open>Requests with the settings of a configuration\<close>

text \<open>\<open>{mConfiguration->mAccessKeyId, mConfiguration->mSecretAccessKey}\<close>.\<close>

definition config_cred :: "Configuration \<Rightarrow> QSCredential" where
  "config_cred cfg = \<lparr>keyid = mAccessKeyId cfg, secret = mSecretAccessKey cfg\<rparr>"

text \<open>\<open>sstr << bucket << "." << mLocation << "." << mHost\<close>.\<close>

definition bucket_host :: "Configuration \<Rightarrow> string \<Rightarrow> string" where
  "bucket_host cfg bucket = bucket @ ''.'' @ mLocation cfg @ ''.'' @ mHost cfg"

text \<open>\<open>sstr << mProtocol << "://" << host << "/" << key\<close>.\<close>

definition object_url :: "Configuration \<Rightarrow> string \<Rightarrow> string \<Rightarrow> string" where
  "object_url cfg host key = mProtocol cfg @ ''://'' @ host @ ''/'' @ key"

text \<open>\<open>DoGetJSON\<close> as a call; the upload memory is a local variable of the callers.\<close>

definition get_json :: "('j, 'w) http_env \<Rightarrow> Configuration \<Rightarrow> string \<Rightarrow> string \<Rightarrow> string option \<Rightarrow> string option \<Rightarrow>
    QSCredential \<Rightarrow> QSRequestType \<Rightarrow> MemoryData option \<Rightarrow> ('j option, 'w) call" where
  "get_json E cfg host url bucket location cred qsrt md w =
     (case DoGetJSON E host url bucket location cred qsrt md (mConnectionRetries cfg) w of
        (r, md', w') \<Rightarrow> (r, w'))"

text \<open>
  \<open>std::string(json_object_get_string(value))\<close>: a null pointer, which json-c returns for the
  JSON value \<open>null\<close>, is undefined behaviour.
\<close>

definition json_std_string :: "'j json_api \<Rightarrow> 'j \<Rightarrow> string outcome" where
  "json_std_string J j = (case json_get_string J j of None \<Rightarrow> Undefined | Some s \<Rightarrow> Ret s)"

text \<open>A call on the world alone, made by an object with its own state.\<close>

definition on_world :: "('a, 'w) call \<Rightarrow> ('a, 'o \<times> 'w) call" where
  "on_world m s = (case m (snd s) of (r, w') \<Rightarrow> (r, fst s, w'))"

definition with_object :: "('o \<Rightarrow> ('a, 'o \<times> 'w) call) \<Rightarrow> ('a, 'o \<times> 'w) call" where
  "with_object f s = f (fst s) s"

definition change_object :: "('o \<Rightarrow> 'o) \<Rightarrow> (unit, 'o \<times> 'w) call" where
  "change_object f s = (Ret (), f (fst s), snd s)"

lemma object_simps [simp]:
  "with_object f (o1, w) = f o1 (o1, w)" "change_object g (o1, w) = (Ret (), g o1, w)"
  "on_world m (o1, w) = (case m w of (r, w') \<Rightarrow> (r, o1, w'))"
  by (simp_all add: with_object_def change_object_def on_world_def)

text \<open>A result of one of the \<open>extract\<close> functions lifted to a call.\<close>

definition lift_outcome :: "'a outcome \<Rightarrow> ('a, 's) call" where
  "lift_outcome r s = (r, s)"

lemma lift_outcome [simp]: "lift_outcome r s = (r, s)"
  by (simp add: lift_outcome_def)

end
