(* ===== verification/QS_Context.thy ===== *)
theory QS_Context
  imports QS_Calls "HOL-Library.List_Lexorder"
begin

text \<open>
  \<open>src/Context.cpp\<close>: listing buckets and objects, reading the attributes of an object,
  creating and deleting buckets, deleting objects. The configuration of a context does not
  change, so it is an argument.
\<close>

section \<open>Results\<close>

record RangeInfo =
  range_start :: int
  range_end :: int

record ObjectInfo =
  obj_key :: string
  obj_size :: int
  obj_range :: RangeInfo

text \<open>The range of a listed object is never set; the model gives it zeros.\<close>

definition unset_range :: RangeInfo where
  "unset_range = \<lparr>range_start = 0, range_end = 0\<rparr>"

record ListObjectResult =
  lor_name :: string
  lor_prefix :: string
  lor_limit :: u32
  lor_objects :: "ObjectInfo list"

record BucketInfo =
  bkt_name :: string
  bkt_location :: string
  bkt_url :: string
  bkt_created :: string

record HeadObjectResult =
  hor_content_type :: string
  hor_content_length :: int
  hor_last_modified :: string
  hor_etag :: string

section \<open>Reading the responses\<close>

text \<open>
  \<open>if (!json_object_object_get_ex(...)) return false\<close>: the outcome of the rest is the result,
  \<open>Ret (False, _)\<close> the early return with what has been filled in so far.
\<close>

definition field_or :: "'j json_api \<Rightarrow> 'j \<Rightarrow> string \<Rightarrow> 'r \<Rightarrow> ('j \<Rightarrow> (bool \<times> 'r) outcome) \<Rightarrow> (bool \<times> 'r) outcome" where
  "field_or J j name r k = (case json_get_ex J j name of None \<Rightarrow> Ret (False, r) | Some v \<Rightarrow> k v)"

text \<open>One object of the \<open>keys\<close> array.\<close>

definition object_item :: "'j json_api \<Rightarrow> 'j \<Rightarrow> 'r \<Rightarrow> (ObjectInfo \<Rightarrow> (bool \<times> 'r) outcome) \<Rightarrow> (bool \<times> 'r) outcome" where
  "object_item J el r k =
     field_or J el ''key'' r (\<lambda>v. bind (json_std_string J v) (\<lambda>ky.
     field_or J el ''size'' r (\<lambda>v.
       k \<lparr>obj_key = ky, obj_size = json_get_int64 J v, obj_range = unset_range\<rparr>)))"

text \<open>
  The loop over the array: \<open>i\<close> runs to the array length; the marker becomes the key of the
  last element.
\<close>

fun object_items :: "'j json_api \<Rightarrow> 'j \<Rightarrow> nat list \<Rightarrow> ListObjectResult \<times> string \<times> bool \<Rightarrow>
    (bool \<times> ListObjectResult \<times> string \<times> bool) outcome" where
  "object_items J arr [] s = Ret (True, s)"
| "object_items J arr (i # is) s =
     object_item J (json_array_get_idx J arr i) s (\<lambda>item.
       case s of (res, marker, eof) \<Rightarrow>
         object_items J arr is
           (res\<lparr>lor_objects := lor_objects res @ [item]\<rparr>,
            if int i = json_array_length J arr - 1 then obj_key item else marker, eof))"

text \<open>
  \<open>qsort\<close> with \<open>strcmp\<close> on the keys, the lexicographic order of their bytes. It moves the elements byte by byte; that the strings in
  them survive this depends on the standard library's string.
\<close>

definition sort_objects :: "ObjectInfo list \<Rightarrow> ObjectInfo list" where
  "sort_objects = sort_key obj_key"

definition extractListObjectContent :: "'j json_api \<Rightarrow> 'j option \<Rightarrow> ListObjectResult \<times> string \<times> bool \<Rightarrow>
    (bool \<times> ListObjectResult \<times> string \<times> bool) outcome" where
  "extractListObjectContent J resp s =
     (case resp of None \<Rightarrow> Ret (False, s)
      | Some r \<Rightarrow>
          field_or J r ''name'' s (\<lambda>v. bind (json_std_string J v) (\<lambda>nm.
          case s of (res, marker, eof) \<Rightarrow>
          let res = res\<lparr>lor_name := nm\<rparr> in
          field_or J r ''prefix'' (res, marker, eof) (\<lambda>v. bind (json_std_string J v) (\<lambda>pf.
          let res = res\<lparr>lor_prefix := pf\<rparr> in
          field_or J r ''limit'' (res, marker, eof) (\<lambda>v.
          let res = res\<lparr>lor_limit := of_int (json_get_int J v)\<rparr> in
          field_or J r ''keys'' (res, marker, eof) (\<lambda>arr.
          let n = json_array_length J arr;
              eof = (if n = 0 \<or> n < sint (lor_limit res) then True else eof) in
          bind (object_items J arr [0..<nat n] (res, marker, eof)) (\<lambda>(ok, res, marker, eof).
            if \<not> ok then Ret (False, res, marker, eof)
            else Ret (True, res\<lparr>lor_objects := sort_objects (lor_objects res)\<rparr>, marker, eof)))))))))"

text \<open>One bucket of the \<open>buckets\<close> array.\<close>

fun bucket_items :: "'j json_api \<Rightarrow> 'j \<Rightarrow> nat list \<Rightarrow> BucketInfo list \<Rightarrow> (bool \<times> BucketInfo list) outcome" where
  "bucket_items J arr [] bs = Ret (True, bs)"
| "bucket_items J arr (i # is) bs =
     (let el = json_array_get_idx J arr i in
      field_or J el ''name'' bs (\<lambda>v. bind (json_std_string J v) (\<lambda>nm.
      field_or J el ''location'' bs (\<lambda>v. bind (json_std_string J v) (\<lambda>loc.
      field_or J el ''url'' bs (\<lambda>v. bind (json_std_string J v) (\<lambda>u.
      field_or J el ''created'' bs (\<lambda>v. bind (json_std_string J v) (\<lambda>cr.
        bucket_items J arr is
          (bs @ [\<lparr>bkt_name = nm, bkt_location = loc, bkt_url = u, bkt_created = cr\<rparr>]))))))))))"

definition extractListBucketContent :: "'j json_api \<Rightarrow> 'j option \<Rightarrow> BucketInfo list \<Rightarrow>
    (bool \<times> BucketInfo list) outcome" where
  "extractListBucketContent J resp bs =
     (case resp of None \<Rightarrow> Ret (False, bs)
      | Some r \<Rightarrow>
          field_or J r ''count'' bs (\<lambda>v.
          let count = json_get_int J v in
          field_or J r ''buckets'' bs (\<lambda>arr.
          if json_array_length J arr \<noteq> count then Ret (False, bs)
          else bucket_items J arr [0..<nat count] bs)))"

definition extractHeadObjectContent :: "'j json_api \<Rightarrow> 'j option \<Rightarrow> HeadObjectResult \<Rightarrow>
    (bool \<times> HeadObjectResult) outcome" where
  "extractHeadObjectContent J resp h =
     (case resp of None \<Rightarrow> Ret (False, h)
      | Some r \<Rightarrow>
          field_or J r ''Content-Type'' h (\<lambda>v. bind (json_std_string J v) (\<lambda>ct.
          let h = h\<lparr>hor_content_type := ct\<rparr> in
          field_or J r ''Content-Length'' h (\<lambda>v.
          let h = h\<lparr>hor_content_length := json_get_int64 J v\<rparr> in
          field_or J r ''Last-Modified'' h (\<lambda>v. bind (json_std_string J v) (\<lambda>lm.
            Ret (True, h\<lparr>hor_last_modified := lm\<rparr>)))))))"

section \<open>Buckets\<close>

definition listBuckets :: "('j, 'w) http_env \<Rightarrow> Configuration \<Rightarrow> string \<Rightarrow> (BucketInfo list, 'w) call" where
  "listBuckets E cfg location =
     (let url = mProtocol cfg @ ''://'' @ mHost cfg @ ''/''; J = env_json E in
      rethrowing (then_call
        (get_json E cfg (mHost cfg) url None (if location = [] then None else Some location) (config_cred cfg)
           QSRT_LIST_BUCKET None)
        (\<lambda>resp. case resp of
           None \<Rightarrow> raise QingStorNetworkException (''could not list bucket '' @ [DQ] @ url @ [DQ])
         | Some r \<Rightarrow> then_call (lift_outcome (extractListBucketContent J (Some r) [])) (\<lambda>(ok, bs).
             if \<not> ok then raise QingStorNetworkException
               (''could not parse list bucket result '' @ [DQ] @ json_to_string J r @ [DQ])
             else return bs))))"

text \<open>The host of the bucket requests: at the given location, or that of the configuration.\<close>

definition located_host :: "Configuration \<Rightarrow> string \<Rightarrow> string \<Rightarrow> string" where
  "located_host cfg location bucket =
     bucket @ ''.'' @ (if location = [] then mLocation cfg else location) @ ''.'' @ mHost cfg"

definition createBucket :: "('j, 'w) http_env \<Rightarrow> Configuration \<Rightarrow> string \<Rightarrow> string \<Rightarrow> (unit, 'w) call" where
  "createBucket E cfg location bucket =
     (let host = located_host cfg location bucket in
      rethrowing (then_call
        (get_json E cfg host (object_url cfg host []) (Some bucket) None (config_cred cfg) QSRT_CREATE_BUCKET None)
        (\<lambda>_. return ())))"

definition deleteBucket :: "('j, 'w) http_env \<Rightarrow> Configuration \<Rightarrow> string \<Rightarrow> string \<Rightarrow> (unit, 'w) call" where
  "deleteBucket E cfg location bucket =
     (let host = located_host cfg location bucket in
      rethrowing (then_call
        (get_json E cfg host (object_url cfg host []) (Some bucket) None (config_cred cfg) QSRT_DELETE_BUCKET None)
        (\<lambda>_. return ())))"

section \<open>Objects\<close>

text \<open>\<open>std::string\<close> members of a new result are empty; its \<open>int64_t\<close> is written before it is read.\<close>

definition empty_head :: HeadObjectResult where
  "empty_head = \<lparr>hor_content_type = [], hor_content_length = 0, hor_last_modified = [], hor_etag = []\<rparr>"

definition headObject :: "('j, 'w) http_env \<Rightarrow> Configuration \<Rightarrow> string \<Rightarrow> string \<Rightarrow> (HeadObjectResult, 'w) call" where
  "headObject E cfg bucket key =
     (let host = bucket_host cfg bucket; url = object_url cfg host key; J = env_json E in
      rethrowing (then_call
        (get_json E cfg host url (Some bucket) None (config_cred cfg) QSRT_HEAD_OBJECT None)
        (\<lambda>resp. case resp of
           None \<Rightarrow> raise QingStorNetworkException (''could not head object '' @ [DQ] @ url @ [DQ])
         | Some r \<Rightarrow> then_call (lift_outcome (extractHeadObjectContent J (Some r) empty_head)) (\<lambda>(ok, h).
             if \<not> ok then raise QingStorNetworkException
               (''could not parse head object result '' @ [DQ] @ json_to_string J r @ [DQ])
             else return h))))"

definition deleteObject :: "('j, 'w) http_env \<Rightarrow> Configuration \<Rightarrow> string \<Rightarrow> string \<Rightarrow> (unit, 'w) call" where
  "deleteObject E cfg bucket key =
     (let host = bucket_host cfg bucket in
      rethrowing (then_call
        (get_json E cfg host (object_url cfg host key) (Some bucket) None (config_cred cfg) QSRT_DELETE_OBJECT None)
        (\<lambda>_. return ())))"

section \<open>Listing objects\<close>

definition list_url :: "Configuration \<Rightarrow> string \<Rightarrow> string \<Rightarrow> string \<Rightarrow> string" where
  "list_url cfg host prefix marker =
     mProtocol cfg @ ''://'' @ host @
     (if prefix \<noteq> []
      then if marker = [] then ''/?prefix='' @ prefix else ''/?marker='' @ marker @ ''&prefix='' @ prefix
      else if marker = [] then ''/'' else ''/?marker='' @ marker)"

text \<open>What is thrown for a response that is no listing; \<open>strcmp\<close> reads a null code text.\<close>

definition list_failure :: "'j json_api \<Rightarrow> Configuration \<Rightarrow> string \<Rightarrow> 'j \<Rightarrow> 'a outcome" where
  "list_failure J cfg bucket r =
     (case json_get_ex J r ''code'' of
        None \<Rightarrow> THROW QingStorNetworkException
          (''could not list bucket with response '' @ [DQ] @ json_to_string J r @ [DQ])
      | Some c \<Rightarrow>
          (case json_get_string J c of None \<Rightarrow> Undefined
           | Some err \<Rightarrow>
               if err = ''bucket_not_exists''
               then THROW QingStorNetworkException
                      (''the bucket '' @ bucket @ '' you are accessing doesn't exist'')
               else if err = ''permission_denied''
               then THROW AccessControlException
                      (''you don't have enough permission to access bucket '' @ bucket)
               else if err = ''invalid_access_key_id''
               then THROW InvalidParameter
                      (''the access key id '' @ [DQ] @ keyid (config_cred cfg) @ [DQ] @ '' you provided does not exist'')
               else THROW QingStorNetworkException
                      (''could not list bucket with response '' @ [DQ] @ json_to_string J r @ [DQ])))"

text \<open>
  One turn of the loop. From the second turn on (\<open>again\<close>) the variable \<open>resp_body\<close> still
  points to the response of the turn before, which has been released: when the request
  throws, the handler releases it once more.
\<close>

definition released_twice :: "bool \<Rightarrow> 'a outcome \<Rightarrow> bool" where
  "released_twice again r \<longleftrightarrow> again \<and> (case r of Throw e \<Rightarrow> is_a (exn_class e) QingStorException | _ \<Rightarrow> False)"

definition list_page :: "('j, 'w) http_env \<Rightarrow> Configuration \<Rightarrow> string \<Rightarrow> string \<Rightarrow> bool \<Rightarrow>
    ListObjectResult \<times> string \<times> bool \<Rightarrow> (ListObjectResult \<times> string \<times> bool, 'w) call" where
  "list_page E cfg bucket prefix again s w =
     (let host = bucket_host cfg bucket; url = list_url cfg host prefix (fst (snd s)); J = env_json E;
          (resp, w') = get_json E cfg host url (Some bucket) None (config_cred cfg) QSRT_LIST_OBJECT None w in
      if released_twice again resp then (Undefined, w')
      else rethrowing (then_call (lift_outcome resp)
        (\<lambda>resp. case resp of
           None \<Rightarrow> raise QingStorNetworkException (''could not list bucket '' @ [DQ] @ url @ [DQ])
         | Some r \<Rightarrow> then_call (lift_outcome (extractListObjectContent J (Some r) s)) (\<lambda>(ok, s).
             if \<not> ok then lift_outcome (list_failure J cfg bucket r) else return s))) w')"

text \<open>\<open>do { ... } while (!eof)\<close>; \<open>None\<close> when the server never ends the listing.\<close>

partial_function (option) list_loop :: "('j, 'w) http_env \<Rightarrow> Configuration \<Rightarrow> string \<Rightarrow> string \<Rightarrow> bool \<Rightarrow>
    ListObjectResult \<times> string \<times> bool \<Rightarrow> 'w \<Rightarrow> (ListObjectResult outcome \<times> 'w) option" where
  "list_loop E cfg bucket prefix again s w =
     (case list_page E cfg bucket prefix again s w of
        (Ret (res, marker, eof), w') \<Rightarrow>
          if eof then Some (Ret res, w') else list_loop E cfg bucket prefix True (res, marker, eof) w'
      | (Throw e, w') \<Rightarrow> Some (Throw e, w')
      | (Undefined, w') \<Rightarrow> Some (Undefined, w'))"

declare list_loop.simps [code]

definition empty_listing :: ListObjectResult where
  "empty_listing = \<lparr>lor_name = [], lor_prefix = [], lor_limit = 0, lor_objects = []\<rparr>"

definition listObjects :: "('j, 'w) http_env \<Rightarrow> Configuration \<Rightarrow> string \<Rightarrow> string \<Rightarrow> 'w \<Rightarrow>
    (ListObjectResult outcome \<times> 'w) option" where
  "listObjects E cfg bucket prefix w = list_loop E cfg bucket prefix False (empty_listing, [], False) w"

end
