(* ===== verification/QS_Writer.thy ===== *)
theory QS_Writer
  imports QS_Calls
begin

text \<open>
  \<open>src/QingStorWriter.cpp\<close>: an object under construction as a multipart upload. Each
  operation is a call over the writer and the world the transport works on.
\<close>

section \<open>The object\<close>

text \<open>
  \<open>mBuffer\<close> is \<open>None\<close> when null. The positions are \<open>int64_t\<close>, the number of parts is an
  \<open>int32_t\<close>.
\<close>

record writer =
  wr_configuration :: Configuration
  wr_bucket :: string
  wr_object_key :: string
  wr_upload_id :: string
  wr_key :: string
  wr_cred :: QSCredential
  wr_buffer :: "byte list option"
  wr_buff_size :: int
  wr_write_pos :: nat
  wr_part_num :: int
  wr_canceled :: bool
  wr_cache :: bool

text \<open>\<open>mProtocol://host/mKey?...\<close>.\<close>

definition writer_host :: "writer \<Rightarrow> string" where
  "writer_host wr = bucket_host (wr_configuration wr) (wr_bucket wr)"

definition part_url :: "writer \<Rightarrow> string" where
  "part_url wr = object_url (wr_configuration wr) (writer_host wr) (wr_key wr) @
     ''?part_number='' @ show_int (wr_part_num wr) @ ''&upload_id='' @ wr_upload_id wr"

definition upload_url :: "writer \<Rightarrow> string" where
  "upload_url wr = object_url (wr_configuration wr) (writer_host wr) (wr_key wr) @
     ''?upload_id='' @ wr_upload_id wr"

section \<open>Starting the upload\<close>

text \<open>The upload id is stored before the key is looked for. The result is the \<open>bool\<close> returned.\<close>

definition extractUploadIDContent :: "'j json_api \<Rightarrow> 'j option \<Rightarrow> (bool, writer \<times> 'w) call" where
  "extractUploadIDContent J resp =
     (case resp of None \<Rightarrow> return False
      | Some r \<Rightarrow>
          (case json_get_ex J r ''upload_id'' of None \<Rightarrow> return False
           | Some v \<Rightarrow> then_call (lift_outcome (json_std_string J v)) (\<lambda>uid.
               then_call (change_object (wr_upload_id_update (\<lambda>_. uid))) (\<lambda>_.
               case json_get_ex J r ''key'' of None \<Rightarrow> return False
               | Some v \<Rightarrow> then_call (lift_outcome (json_std_string J v)) (\<lambda>k.
                   then_call (change_object (wr_key_update (\<lambda>_. k))) (\<lambda>_. return True))))))"

text \<open>What is thrown when the response has no upload id; \<open>strcmp\<close> reads a null code text.\<close>

definition init_failure :: "'j json_api \<Rightarrow> string \<Rightarrow> 'j \<Rightarrow> 'a outcome" where
  "init_failure J bucket r =
     (let failed = THROW QingStorNetworkException
        (''could not init multipart with message '' @ [DQ] @ json_to_string J r @ [DQ])
      in case json_get_ex J r ''code'' of None \<Rightarrow> failed
         | Some c \<Rightarrow>
             (case json_get_string J c of None \<Rightarrow> Undefined
              | Some err \<Rightarrow>
                  if err = ''permission_denied''
                  then THROW QingStorNetworkException
                         (''you don't have enough permission to access bucket '' @ bucket)
                  else failed))"

definition initMultipartUpload :: "('j, 'w) http_env \<Rightarrow> string \<Rightarrow> string \<Rightarrow> string \<Rightarrow> QSCredential \<Rightarrow>
    (unit, writer \<times> 'w) call" where
  "initMultipartUpload E host url bucket cred = with_object (\<lambda>wr. rethrowing (
     then_call (on_world (get_json E (wr_configuration wr) host url (Some bucket) None cred QSRT_INIT_MP_UPLOAD None))
       (\<lambda>resp.
        case resp of
          None \<Rightarrow> raise QingStorNetworkException ''could not init multipart upload''
        | Some r \<Rightarrow> then_call (extractUploadIDContent (env_json E) (Some r)) (\<lambda>found.
            if found then return () else lift_outcome (init_failure (env_json E) bucket r)))))"

text \<open>
  The constructor. \<open>new char[mBuffSize]\<close> throws for a negative size; a size beyond the
  memory of the machine is not modelled.
\<close>

definition blank_writer :: "Configuration \<Rightarrow> string \<Rightarrow> string \<Rightarrow> writer" where
  "blank_writer cfg bucket key =
     \<lparr>wr_configuration = cfg, wr_bucket = bucket, wr_object_key = key, wr_upload_id = [], wr_key = [],
      wr_cred = config_cred cfg, wr_buffer = None, wr_buff_size = 0, wr_write_pos = 0, wr_part_num = 0,
      wr_canceled = False, wr_cache = False\<rparr>"

definition QingStorWriter :: "('j, 'w) http_env \<Rightarrow> Configuration \<Rightarrow> string \<Rightarrow> string \<Rightarrow> bool \<Rightarrow> (writer, 'w) call" where
  "QingStorWriter E cfg bucket key cache w =
     (let host = bucket_host cfg bucket;
          url = object_url cfg host key @ ''?uploads'' in
      case initMultipartUpload E host url bucket (config_cred cfg) (blank_writer cfg bucket key, w) of
        (Ret _, wr, w') \<Rightarrow>
          (let wr = wr\<lparr>wr_part_num := 0, wr_buff_size := mChunkSize cfg, wr_write_pos := 0,
                       wr_canceled := False, wr_cache := cache\<rparr>
           in if \<not> cache then (Ret (wr\<lparr>wr_buffer := None\<rparr>), w')
              else if mChunkSize cfg < 0 then (Throw (Exn std_bad_alloc ''std::bad_array_new_length'' None), w')
              else (Ret (wr\<lparr>wr_buffer := Some (replicate (nat (mChunkSize cfg)) NUL)\<rparr>), w'))
      | (Throw e, wr, w') \<Rightarrow> (Throw e, w')
      | (Undefined, wr, w') \<Rightarrow> (Undefined, w'))"

section \<open>Sending parts\<close>

definition uploadMultipart :: "('j, 'w) http_env \<Rightarrow> string \<Rightarrow> string \<Rightarrow> string \<Rightarrow> QSCredential \<Rightarrow> MemoryData \<Rightarrow>
    (bool, writer \<times> 'w) call" where
  "uploadMultipart E host url bucket cred md = with_object (\<lambda>wr. rethrowing (
     then_call (on_world (get_json E (wr_configuration wr) host url (Some bucket) None cred QSRT_UPLOAD_MP (Some md)))
       (\<lambda>resp. return (resp = None))))"

text \<open>
  \<open>doSend(data, length)\<close>, with \<open>length\<close> an \<open>int32_t\<close>; \<open>block\<close> is what \<open>data\<close> points to. A
  negative length becomes a huge \<open>size_t\<close> and a length beyond the block is read past its end.
\<close>

definition doSend :: "('j, 'w) http_env \<Rightarrow> byte list \<Rightarrow> int \<Rightarrow> (unit, writer \<times> 'w) call" where
  "doSend E block n =
     (if n < 0 \<or> int (length block) < n then lift_outcome Undefined
      else with_object (\<lambda>wr.
        then_call (uploadMultipart E (writer_host wr) (part_url wr) (wr_bucket wr) (wr_cred wr)
             \<lparr>md_block = block, md_advance = 0, md_sizeleft = nat n\<rparr>)
          (\<lambda>ok. if \<not> ok then raise QingStorIOException ''writer transfer data''
                else change_object (\<lambda>wr. wr\<lparr>wr_part_num := to_int32 (wr_part_num wr + 1)\<rparr>))))"

text \<open>The block \<open>mBuffer\<close> points to; a null pointer has no bytes.\<close>

definition buffer_block :: "writer \<Rightarrow> byte list" where
  "buffer_block wr = (case wr_buffer wr of None \<Rightarrow> [] | Some b \<Rightarrow> b)"

text \<open>The inner loop of \<open>transferData\<close>: fill the buffer until it is full or the input ends.\<close>

fun fill_buffer :: "int \<Rightarrow> byte list \<Rightarrow> nat \<Rightarrow> byte list \<Rightarrow> byte list \<times> nat \<times> byte list" where
  "fill_buffer sz b pos [] = (b, pos, [])"
| "fill_buffer sz b pos (c # cs) =
     (if int pos = sz then (b, pos, c # cs) else fill_buffer sz (b[pos := c]) (pos + 1) cs)"

text \<open>
  The outer loop, \<open>None\<close> when it does not end. The length of a full buffer, an \<open>int64_t\<close>, is
  converted to the \<open>int32_t\<close> of \<open>doSend\<close>.
\<close>

partial_function (option) transfer_loop :: "('j, 'w) http_env \<Rightarrow> byte list \<Rightarrow> writer \<times> 'w \<Rightarrow>
    (unit outcome \<times> writer \<times> 'w) option" where
  "transfer_loop E input s =
     (if input = [] then Some (Ret (), s)
      else let wr = fst s;
               (b, pos, rest) = fill_buffer (wr_buff_size wr) (buffer_block wr) (wr_write_pos wr) input;
               s' = (wr\<lparr>wr_buffer := Some b, wr_write_pos := pos\<rparr>, snd s)
           in if int pos = wr_buff_size wr
              then (case doSend E b (to_int32 (wr_buff_size wr)) s' of
                      (Ret _, wr', w') \<Rightarrow> transfer_loop E rest (wr'\<lparr>wr_write_pos := 0\<rparr>, w')
                    | r \<Rightarrow> Some r)
              else transfer_loop E rest s')"

declare transfer_loop.simps [code]

text \<open>\<open>transferData(buffer, buffsize)\<close>; \<open>input\<close> is the \<open>buffsize\<close> bytes of the caller.\<close>

definition transferData :: "('j, 'w) http_env \<Rightarrow> byte list \<Rightarrow> writer \<times> 'w \<Rightarrow> (unit outcome \<times> writer \<times> 'w) option" where
  "transferData E input s =
     (if \<not> wr_cache (fst s) then Some (doSend E input (int (length input)) s)
      else transfer_loop E input s)"

definition writer_flush :: "('j, 'w) http_env \<Rightarrow> (unit, writer \<times> 'w) call" where
  "writer_flush E = with_object (\<lambda>wr.
     let send = doSend E (buffer_block wr) (to_int32 (int (wr_write_pos wr))) in
     if wr_cache wr then then_call send (\<lambda>_. change_object (wr_write_pos_update (\<lambda>_. 0)))
     else if wr_part_num wr = 0 then send
     else return ())"

section \<open>Ending the upload\<close>

text \<open>The body of the completion request: one entry per part number.\<close>

definition parts_body :: "'j json_api \<Rightarrow> int \<Rightarrow> 'j" where
  "parts_body J n =
     json_object_add J (json_new_object J) ''object_parts''
       (fold (\<lambda>i arr. json_array_add J arr
                (json_object_add J (json_new_object J) ''part_number'' (json_new_int J (int i))))
          [0..<nat n] (json_new_array J))"

definition completeMultipartUpload :: "('j, 'w) http_env \<Rightarrow> string \<Rightarrow> string \<Rightarrow> string \<Rightarrow> QSCredential \<Rightarrow>
    (bool, writer \<times> 'w) call" where
  "completeMultipartUpload E host url bucket cred = with_object (\<lambda>wr. rethrowing (
     let body = json_to_string (env_json E) (parts_body (env_json E) (wr_part_num wr));
         md = \<lparr>md_block = body, md_advance = 0, md_sizeleft = length body\<rparr>
     in then_call (on_world (get_json E (wr_configuration wr) host url (Some bucket) None cred
                              QSRT_COMP_MP_UPLOAD (Some md)))
          (\<lambda>resp. return (resp = None))))"

definition abortMultipartUpload :: "('j, 'w) http_env \<Rightarrow> string \<Rightarrow> string \<Rightarrow> string \<Rightarrow> QSCredential \<Rightarrow>
    (bool, writer \<times> 'w) call" where
  "abortMultipartUpload E host url bucket cred = with_object (\<lambda>wr. rethrowing (
     then_call (on_world (get_json E (wr_configuration wr) host url (Some bucket) None cred
                            QSRT_ABORT_MP_UPLOAD None))
       (\<lambda>resp. return (resp = None))))"

text \<open>The results of the two requests are ignored by their callers.\<close>

definition writer_close :: "('j, 'w) http_env \<Rightarrow> (unit, writer \<times> 'w) call" where
  "writer_close E = with_object (\<lambda>wr.
     then_call
       (if wr_canceled wr then return ()
        else then_call (writer_flush E) (\<lambda>_. with_object (\<lambda>wr.
          then_call (completeMultipartUpload E (writer_host wr) (upload_url wr) (wr_bucket wr) (wr_cred wr))
            (\<lambda>_. return ()))))
       (\<lambda>_. change_object (wr_buffer_update (\<lambda>_. None))))"

definition writer_cancel :: "('j, 'w) http_env \<Rightarrow> (unit, writer \<times> 'w) call" where
  "writer_cancel E = with_object (\<lambda>wr.
     then_call (abortMultipartUpload E (writer_host wr) (upload_url wr) (wr_bucket wr) (wr_cred wr))
       (\<lambda>_. change_object (\<lambda>wr. wr\<lparr>wr_part_num := 0, wr_canceled := True\<rparr>)))"

end
