(* ===== verification/Scripted_Net.thy ===== *)
theory Scripted_Net
  imports QS_Request
begin

text \<open>
  Concrete libraries for the statements about what goes over the wire and for the
  witnesses: JSON values with the accessors the code calls, and a transport that records
  every request with the bytes offered for upload and answers from a script.
\<close>

section \<open>JSON values\<close>

datatype json = JNull | JInt int | JStr string | JArr "json list" | JObj "(string \<times> json) list"

text \<open>The accessors on values of another kind return what json-c returns: 0, or the printed text.\<close>

fun json_text :: "json \<Rightarrow> string" where
  "json_text JNull = ''null''"
| "json_text (JInt i) = show_int i"
| "json_text (JStr s) = [DQ] @ s @ [DQ]"
| "json_text (JArr js) = ''[ '' @ concat (map (\<lambda>j. json_text j @ '' '') js) @ '']''"
| "json_text (JObj kvs) = ''{ '' @ concat (map (\<lambda>(k, j). [DQ] @ k @ [DQ] @ '': '' @ json_text j @ '' '') kvs) @ ''}''"

definition json_values :: "(string \<Rightarrow> json option) \<Rightarrow> json json_api" where
  "json_values parse =
     \<lparr>json_tokener_parse = parse,
      json_get_ex = (\<lambda>j k. case j of JObj kvs \<Rightarrow> map_of kvs k | _ \<Rightarrow> None),
      json_get_string = (\<lambda>j. case j of JNull \<Rightarrow> None | JStr s \<Rightarrow> Some s | _ \<Rightarrow> Some (json_text j)),
      json_get_int = (\<lambda>j. case j of JInt i \<Rightarrow> i | _ \<Rightarrow> 0),
      json_get_int64 = (\<lambda>j. case j of JInt i \<Rightarrow> i | _ \<Rightarrow> 0),
      json_array_length = (\<lambda>j. case j of JArr js \<Rightarrow> int (length js) | _ \<Rightarrow> 0),
      json_array_get_idx = (\<lambda>j i. case j of JArr js \<Rightarrow> (if i < length js then js ! i else JNull) | _ \<Rightarrow> JNull),
      json_to_string = json_text,
      json_new_object = JObj [],
      json_new_array = JArr [],
      json_new_int = JInt,
      json_object_add = (\<lambda>j k v. case j of JObj kvs \<Rightarrow> JObj (kvs @ [(k, v)]) | _ \<Rightarrow> j),
      json_array_add = (\<lambda>j v. case j of JArr js \<Rightarrow> JArr (js @ [v]) | _ \<Rightarrow> j)\<rparr>"

section \<open>A recording transport\<close>

type_synonym net = "(request \<times> byte list) list"

definition scripted :: "'j json_api \<Rightarrow> (nat \<Rightarrow> response) \<Rightarrow> ('j, net) http_env" where
  "scripted J script =
     \<lparr>env_json = J,
      env_init = (\<lambda>_. True),
      env_perform = (\<lambda>rq up log. (script (length log), log @ [(rq, up)])),
      env_date = (\<lambda>_. ''Thu, 01 Jan 1970 00:00:00 GMT''),
      env_hmac = (\<lambda>k m. ''mac''),
      env_base64 = (\<lambda>s. s),
      env_strerror = (\<lambda>c. ''error'')\<rparr>"

lemma scripted_simps [simp]:
  "env_json (scripted J script) = J" "env_init (scripted J script) w"
  "env_perform (scripted J script) rq up log = (script (length log), log @ [(rq, up)])"
  by (simp_all add: scripted_def)

definition ok_response :: response where
  "ok_response = \<lparr>rs_code = CURLE_OK, rs_body = [], rs_header = [], rs_reads = []\<rparr>"

definition json_response :: "string \<Rightarrow> response" where
  "json_response t = \<lparr>rs_code = CURLE_OK, rs_body = [t], rs_header = [], rs_reads = []\<rparr>"

definition failed_response :: "nat list \<Rightarrow> response" where
  "failed_response reads = \<lparr>rs_code = CURLE_OTHER ''reset'', rs_body = [], rs_header = [], rs_reads = reads\<rparr>"

end
