(* ===== verification/QS_Request_Facts.thy ===== *)
theory QS_Request_Facts
  imports Scripted_Net
begin

text \<open>
  Properties of one request: the pieces of the URL, the escaped query, the response header
  turned into JSON, the number of attempts, the class of every exception that leaves, and
  what a repeated upload sends.
\<close>

section \<open>The pieces of the URL\<close>

text \<open>
  For a URL of the client's shape \<open>qs_parse_url\<close> returns its path, the single slash as
  the empty path, and its query with every slash escaped; in particular the null path that
  \<open>strlen\<close> would read does not occur.
\<close>

theorem qs_parse_url_text:
  assumes "url_parts sch host prt path query"
    and "length (url_text sch host prt path query) < 2 ^ 16"
  shows "qs_parse_url u (url_text sch host prt path query) =
           Ret (if path = ''/'' then [] else path, map_option escape_slashes query)"
proof -
  let ?url = "url_text sch host prt path query"
  obtain u' where parse: "http_parser_parse_url ?url (length ?url) False u = Some u'"
    and fields: "uf_text ?url u' UF_PATH = Some path" "uf_text ?url u' UF_QUERY = query"
    using parse_url_pieces [OF assms, of ?url "[]" u] by auto
  have field: "extract_field ?url u' f = uf_text ?url u' f" for f
    by (simp add: extract_field_def uf_text_def)
  have root: "length path = 1 \<and> hd path = CHR ''/'' \<longleftrightarrow> path = ''/''"
    by (cases path) auto
  show ?thesis
    unfolding qs_parse_url_def by (simp only: parse option.case field fields Let_def root)
qed

theorem qs_parse_url_text_witness:
  "qs_parse_url blank_url (url_text ''https'' ''b.pek3a.qingstor.com'' (Some ''443'') ''/k/x'' (Some ''uploads'')) =
     Ret (''/k/x'', Some ''uploads'')"
proof -
  have "length (url_text ''https'' ''b.pek3a.qingstor.com'' (Some ''443'') ''/k/x'' (Some ''uploads'')) < 2 ^ 16"
    by (simp add: url_text_def authority_text_def)
  from qs_parse_url_text [OF example_parts this, of blank_url] show ?thesis by simp
qed

section \<open>The escaped query\<close>

lemma count_slashes_add: "count_slashes n q = n + count_slashes 0 q"
proof (induction q arbitrary: n)
  case (Cons c cs)
  from Cons [of "Suc n"] Cons [of n] Cons [of "Suc 0"] show ?case by simp
qed simp

lemma length_escape_slashes: "length (escape_slashes q) = escape_capacity q"
proof (induction q)
  case (Cons c cs)
  have "count_slashes (Suc 0) cs = Suc (count_slashes 0 cs)"
    using count_slashes_add [of "Suc 0" cs] by simp
  with Cons show ?case by (simp add: escape_capacity_def)
qed (simp add: escape_capacity_def)

fun unescape_slashes :: "string \<Rightarrow> string" where
  "unescape_slashes [] = []"
| "unescape_slashes (c # cs) =
     (if c = CHR ''%'' \<and> take 2 cs = ''2F'' then CHR ''/'' # unescape_slashes (drop 2 cs)
      else c # unescape_slashes cs)"

lemma unescape_escape: "CHR ''%'' \<notin> set q \<Longrightarrow> unescape_slashes (escape_slashes q) = q"
  by (induction q) auto



section \<open>Retries\<close>

text \<open>The state before attempt number \<open>n\<close> of a sequence of attempts, and its result.\<close>

primrec attempt_state :: "(MemoryData option \<Rightarrow> 'w \<Rightarrow> 'a outcome \<times> MemoryData option \<times> 'w) \<Rightarrow> nat \<Rightarrow>
    MemoryData option \<times> 'w \<Rightarrow> MemoryData option \<times> 'w" where
  "attempt_state att 0 s = s"
| "attempt_state att (Suc n) s = attempt_state att n (snd (att (fst s) (snd s)))"

definition attempt_result :: "(MemoryData option \<Rightarrow> 'w \<Rightarrow> 'a outcome \<times> MemoryData option \<times> 'w) \<Rightarrow> nat \<Rightarrow>
    MemoryData option \<times> 'w \<Rightarrow> 'a outcome \<times> MemoryData option \<times> 'w" where
  "attempt_result att n s = att (fst (attempt_state att n s)) (snd (attempt_state att n s))"

definition throws :: "'a outcome \<times> 'b \<Rightarrow> bool" where
  "throws r \<longleftrightarrow> (case fst r of Throw e \<Rightarrow> True | _ \<Rightarrow> False)"

lemma retry_loop_step:
  "retry_loop att retries failing md w =
     (if throws (att md w) \<and> int (Suc failing) < retries
      then retry_loop att retries (Suc failing) (fst (snd (att md w))) (snd (snd (att md w)))
      else att md w)"
  by (subst retry_loop.simps) (auto simp: throws_def split: prod.split outcome.split)

lemma retry_loop_attempts:
  "(\<And>i. i < k \<Longrightarrow> throws (attempt_result att i (md, w))) \<Longrightarrow> int (failing + k) < max (int failing + 1) retries \<Longrightarrow>
   \<not> throws (attempt_result att k (md, w)) \<or> retries \<le> int (Suc (failing + k)) \<Longrightarrow>
     retry_loop att retries failing md w = attempt_result att k (md, w)"
proof (induction k arbitrary: failing md w)
  case 0
  then show ?case
    by (subst retry_loop_step) (auto simp: attempt_result_def)
next
  case (Suc k)
  let ?s = "snd (att md w)"
  have shift: "attempt_result att (Suc i) (md, w) = attempt_result att i (fst ?s, snd ?s)" for i
    by (simp add: attempt_result_def)
  have first: "throws (att md w)" using Suc.prems(1) [of 0] by (simp add: attempt_result_def)
  have more: "int (Suc failing) < retries" using Suc.prems(2) by linarith
  have "retry_loop att retries (Suc failing) (fst ?s) (snd ?s) = attempt_result att k (fst ?s, snd ?s)"
  proof (rule Suc.IH)
    show "throws (attempt_result att i (fst ?s, snd ?s))" if "i < k" for i
      using Suc.prems(1) [of "Suc i"] that by (simp only: shift Suc_less_eq)
  qed (use Suc.prems(2,3) more in \<open>simp_all add: shift\<close>)
  with first more show ?case by (subst retry_loop_step) (simp add: shift)
qed

lemma retry_loop_first_success:
  "\<exists>k < max 1 (nat retries).
     (\<forall>i < k. throws (attempt_result att i (md, w))) \<and>
     (throws (attempt_result att k (md, w)) \<longrightarrow> k = max 1 (nat retries) - 1) \<and>
     retry_loop att retries 0 md w = attempt_result att k (md, w)"
proof -
  let ?N = "max 1 (nat retries)"
  let ?stop = "\<lambda>k. \<not> throws (attempt_result att k (md, w)) \<or> k = ?N - 1"
  define k where "k = (LEAST k. ?stop k)"
  have last: "?stop (?N - 1)" by simp
  have "k \<le> ?N - 1" unfolding k_def by (rule Least_le) (rule last)
  then have bound: "k < ?N" by linarith
  have stop: "?stop k" unfolding k_def by (rule LeastI) (rule last)
  have before: "throws (attempt_result att i (md, w))" if "i < k" for i
    using not_less_Least [of i ?stop] that unfolding k_def by blast
  have "retry_loop att retries 0 md w = attempt_result att k (md, w)"
    by (rule retry_loop_attempts) (use before stop bound in auto)
  with bound before stop show ?thesis by blast
qed

text \<open>
  C36. \<open>DoGetJSON\<close> is its first attempt that does not throw among \<open>max 1 retries\<close>, or the
  last of them: it makes at least one attempt, stops at the first success, never exceeds
  the bound, and each attempt starts from the state the one before left.
\<close>

theorem DoGetJSON_attempts:
  "\<exists>k < max 1 (nat retries).
     (\<forall>i < k. throws (attempt_result (DoGetJSON_Internal E host url bucket location cred qsrt) i (md, w))) \<and>
     (throws (attempt_result (DoGetJSON_Internal E host url bucket location cred qsrt) k (md, w)) \<longrightarrow>
        k = max 1 (nat retries) - 1) \<and>
     DoGetJSON E host url bucket location cred qsrt md retries w =
       attempt_result (DoGetJSON_Internal E host url bucket location cred qsrt) k (md, w)"
  unfolding DoGetJSON_def by (rule retry_loop_first_success)

definition example_cred :: QSCredential where
  "example_cred = \<lparr>keyid = ''id'', secret = ''key''\<rparr>"

definition fails_once :: "nat \<Rightarrow> response" where
  "fails_once n = (if n = 0 then failed_response [] else ok_response)"

theorem DoGetJSON_attempts_witness:
  "\<exists>k < 3. (\<forall>i < k. throws (attempt_result (DoGetJSON_Internal (scripted (json_values (\<lambda>_. None)) fails_once)
      ''h'' ''http://h/k'' (Some ''b'') None example_cred QSRT_DELETE_OBJECT) i (None, []))) \<and>
     DoGetJSON (scripted (json_values (\<lambda>_. None)) fails_once)
      ''h'' ''http://h/k'' (Some ''b'') None example_cred QSRT_DELETE_OBJECT None 3 [] =
     attempt_result (DoGetJSON_Internal (scripted (json_values (\<lambda>_. None)) fails_once)
      ''h'' ''http://h/k'' (Some ''b'') None example_cred QSRT_DELETE_OBJECT) k (None, [])"
  using DoGetJSON_attempts [of 3 "scripted (json_values (\<lambda>_. None)) fails_once" "''h''" "''http://h/k''"
      "Some ''b''" None example_cred QSRT_DELETE_OBJECT None "[]"] by auto

lemma fails_once_run:
  "length (snd (snd (DoGetJSON (scripted (json_values (\<lambda>_. None)) fails_once)
      ''h'' ''http://h/k'' (Some ''b'') None example_cred QSRT_DELETE_OBJECT None 3 []))) = 2"
  by code_simp

section \<open>The class of every exception\<close>

text \<open>An outcome that can only throw the library's own exceptions.\<close>

definition library_outcome :: "'a outcome \<Rightarrow> bool" where
  "library_outcome m \<longleftrightarrow> (case m of Throw e \<Rightarrow> is_a (exn_class e) QingStorException | _ \<Rightarrow> True)"

lemma library_Ret [simp, intro]: "library_outcome (Ret x)" "library_outcome Undefined"
  by (simp_all add: library_outcome_def)

lemma is_a_library [simp]:
  "is_a QingStorNetworkException QingStorException" "is_a QingStorNetworkConnectException QingStorException"
  "is_a InvalidParameter QingStorException" "is_a OutOfMemoryException QingStorException"
  "is_a QingStorConfigInvalid QingStorException" "is_a QingStorEndOfStream QingStorException"
  "is_a QingStorIOException QingStorException"
  by (simp_all add: is_a.simps)

lemma library_THROW [simp]: "library_outcome (THROW c m) \<longleftrightarrow> is_a c QingStorException"
  by (simp add: library_outcome_def THROW_def mk_exn_def)

lemma library_bind: "library_outcome m \<Longrightarrow> (\<And>x. library_outcome (k x)) \<Longrightarrow> library_outcome (bind m k)"
  by (cases m) (auto simp: library_outcome_def)

lemma library_qs_parse_url: "library_outcome (qs_parse_url u url)"
  by (simp add: qs_parse_url_def Let_def split: option.split)

lemma library_Signature: "library_outcome (Signature hmac base64 t h p cred qsrt md)"
  unfolding Signature_def Let_def
  by (intro library_bind) (simp_all add: content_length_of_def string_to_sign_def Let_def split: option.split)

lemma library_request_headers: "library_outcome (request_headers E u date host url bucket location cred qsrt md)"
  unfolding request_headers_def Let_def
  by (intro library_bind library_qs_parse_url) (simp add: library_Signature split: prod.split)

lemma library_handle_response: "library_outcome (handle_response E qsrt resp)"
  by (simp add: handle_response_def Let_def split: option.split)

lemma sliced_plain:
  "library_outcome m \<Longrightarrow> catch_rethrow m = Throw e \<Longrightarrow> \<exists>m. e = Exn QingStorException m None"
  by (cases m) (auto simp: library_outcome_def slice_exn_def)

lemma caught_intro: "library_outcome m \<Longrightarrow> \<exists>m'. library_outcome m' \<and> catch_rethrow m = catch_rethrow m'"
  by blast

lemma DoGetJSON_Internal_caught:
  "\<exists>m. library_outcome m \<and> fst (DoGetJSON_Internal E host url bucket location cred qsrt md w) = catch_rethrow m"
proof (cases "env_init E w \<and> \<not> (is_upload qsrt \<and> md = None)")
  case True
  define h where "h = request_headers E blank_url (env_date E w) host url bucket location cred qsrt md"
  have h: "library_outcome h" unfolding h_def by (rule library_request_headers)
  note run = DoGetJSON_Internal_def [of E host url bucket location cred qsrt md w, folded h_def]
  show ?thesis
  proof (cases h)
    case (Ret x)
    with True show ?thesis
      unfolding run by (auto simp: Let_def split: prod.split intro: caught_intro library_handle_response)
  next
    case (Throw x)
    with h have "library_outcome (Throw x :: 'a option outcome)" by (simp add: library_outcome_def)
    with True Throw show ?thesis unfolding run by auto
  next
    case Undefined
    then have "fst (DoGetJSON_Internal E host url bucket location cred qsrt md w) = catch_rethrow Undefined"
      using True unfolding run by auto
    then show ?thesis by blast
  qed
next
  case False
  then show ?thesis
    unfolding DoGetJSON_Internal_def by (auto intro: caught_intro simp del: catch_rethrow.simps)
qed

lemma DoGetJSON_Internal_plain:
  "fst (DoGetJSON_Internal E host url bucket location cred qsrt md w) = Throw e \<Longrightarrow>
     \<exists>m. e = Exn QingStorException m None"
  using DoGetJSON_Internal_caught [of E host url bucket location cred qsrt md w] sliced_plain by metis

lemma DoGetJSON_plain:
  assumes "fst (DoGetJSON E host url bucket location cred qsrt md retries w) = Throw e"
  shows "\<exists>m. e = Exn QingStorException m None"
proof -
  let ?att = "DoGetJSON_Internal E host url bucket location cred qsrt"
  from retry_loop_first_success [of retries ?att md w]
  obtain k where "retry_loop ?att retries 0 md w = attempt_result ?att k (md, w)" by (elim exE conjE)
  then have run: "DoGetJSON E host url bucket location cred qsrt md retries w = attempt_result ?att k (md, w)"
    by (simp only: DoGetJSON_def)
  show ?thesis using DoGetJSON_Internal_plain [OF assms [unfolded run attempt_result_def]] .
qed

text \<open>
  C37. Whatever fails in a request -- no connection, a malformed or unexpected reply, a bad
  URL -- the exception that leaves \<open>DoGetJSON\<close> has lost its class, so the C interface
  reports \<open>EINTERNAL\<close> and never the \<open>EIO\<close> or \<open>EINVAL\<close> its table assigns to it.
\<close>

theorem DoGetJSON_errno:
  assumes "fst (DoGetJSON E host url bucket location cred qsrt md retries w) = Throw e"
  shows "exn_class e = QingStorException \<and> handleException e = EINTERNAL"
  using DoGetJSON_plain [OF assms] by auto

theorem DoGetJSON_errno_witness:
  "\<exists>e. fst (DoGetJSON (scripted (json_values (\<lambda>_. None)) (\<lambda>_. failed_response []))
      ''h'' ''http://h/k'' (Some ''b'') None example_cred QSRT_DELETE_OBJECT None 1 []) = Throw e \<and>
     handleException e = EINTERNAL"
proof -
  have "throws (DoGetJSON (scripted (json_values (\<lambda>_. None)) (\<lambda>_. failed_response []))
      ''h'' ''http://h/k'' (Some ''b'') None example_cred QSRT_DELETE_OBJECT None 1 [])"
    by code_simp
  then obtain e where run: "fst (DoGetJSON (scripted (json_values (\<lambda>_. None)) (\<lambda>_. failed_response []))
      ''h'' ''http://h/k'' (Some ''b'') None example_cred QSRT_DELETE_OBJECT None 1 []) = Throw e"
    unfolding throws_def by (auto split: outcome.splits)
  show ?thesis
    by (rule exI, rule conjI, rule run, rule DoGetJSON_errno [OF run, THEN conjunct2])
qed

section \<open>A repeated upload\<close>

lemma run_reads_single:
  "md_ok md \<Longrightarrow> n \<le> md_sizeleft md \<Longrightarrow>
     md_rest (snd (run_reads [n] md)) = drop n (md_rest md) \<and> md_sizeleft (snd (run_reads [n] md)) = md_sizeleft md - n"
  using upload.run_take(2) [of md "[n]"]
  by (auto simp: run_reads_def mem_read_callback_def Let_def)

lemma upload_accepted: "handle_response E QSRT_UPLOAD_MP ok_response = Ret None"
  by (simp add: handle_response_def ok_response_def run_writes_def buffer_text_def empty_buffer_def)

lemma transfer_failed: "\<exists>m. handle_response E qsrt (failed_response reads) = THROW QingStorNetworkConnectException m"
  by (auto simp: handle_response_def failed_response_def)

text \<open>
  C38. When the first attempt to upload a part fails after \<open>n\<close> bytes have been read from its
  memory, the next attempt starts where the first stopped: it announces and sends only the
  bytes that were left, and if the server accepts them the upload is reported as done.
\<close>

theorem upload_retry_truncates:
  assumes "md_ok md" and "n \<le> md_sizeleft md" and "1 < retries"
    and "qs_parse_url blank_url url = Ret pq"
    and "script 0 = failed_response [n]" and "script 1 = ok_response"
  shows "\<exists>rq1 rq2 md'. DoGetJSON (scripted J script) host url bucket location cred QSRT_UPLOAD_MP (Some md) retries [] =
           (Ret None, md', [(rq1, md_rest md), (rq2, drop n (md_rest md))]) \<and>
         rq_infilesize rq1 = Some (md_sizeleft md) \<and> rq_infilesize rq2 = Some (md_sizeleft md - n)"
proof -
  let ?E = "scripted J script"
  let ?att = "DoGetJSON_Internal ?E host url bucket location cred QSRT_UPLOAD_MP"
  let ?md = "snd (run_reads [n] md)"
  have headers: "\<exists>h. request_headers ?E u d host url bucket location cred QSRT_UPLOAD_MP (Some m) = Ret h"
    if "qs_parse_url u url = Ret pq" for u d m
    using that by (auto simp: request_headers_def Signature_def content_length_of_def string_to_sign_def
        Let_def split: prod.split)
  obtain h1 where h1: "request_headers ?E blank_url (env_date ?E []) host url bucket location cred QSRT_UPLOAD_MP (Some md) = Ret h1"
    using headers assms(4) by blast
  obtain h2 where h2: "\<And>log. request_headers ?E blank_url (env_date ?E log) host url bucket location cred QSRT_UPLOAD_MP (Some ?md) = Ret h2"
    using headers [OF assms(4)] by (simp add: scripted_def) blast
  let ?rq = "\<lambda>m h. make_request url QSRT_UPLOAD_MP (Some m) (HeaderContent_GetList h)"
  have first: "throws (?att (Some md) [])" "snd (?att (Some md) []) = (Some ?md, [(?rq md h1, md_rest md)])"
    using transfer_failed [of ?E QSRT_UPLOAD_MP "[n]"]
    by (auto simp: DoGetJSON_Internal_def h1 is_upload_def assms(5) throws_def THROW_def
        failed_response_def [of "[n]"])
  have second: "?att (Some ?md) [(?rq md h1, md_rest md)] =
      (Ret None, Some (snd (run_reads [] ?md)), [(?rq md h1, md_rest md), (?rq ?md h2, md_rest ?md)])"
    using assms(6) by (simp add: DoGetJSON_Internal_def h2 is_upload_def upload_accepted)
      (simp add: ok_response_def)
  have "DoGetJSON ?E host url bucket location cred QSRT_UPLOAD_MP (Some md) retries [] =
      ?att (Some ?md) [(?rq md h1, md_rest md)]"
    unfolding DoGetJSON_def using first second assms(3)
    by (subst retry_loop_step, simp, subst retry_loop_step) (simp add: throws_def)
  with second run_reads_single [OF assms(1,2)] show ?thesis
    by (auto simp: make_request_def is_upload_def)
qed

definition cut_after_3 :: "nat \<Rightarrow> response" where
  "cut_after_3 n = (if n = 0 then failed_response [3] else ok_response)"

theorem upload_retry_truncates_witness:
  "\<exists>rq1 rq2 md'. DoGetJSON (scripted (json_values (\<lambda>_. None)) cut_after_3) ''h'' ''http://h/k'' (Some ''b'') None
       example_cred QSRT_UPLOAD_MP (Some \<lparr>md_block = ''abcdefgh'', md_advance = 0, md_sizeleft = 8\<rparr>) 3 [] =
       (Ret None, md', [(rq1, ''abcdefgh''), (rq2, ''defgh'')]) \<and>
     rq_infilesize rq1 = Some 8 \<and> rq_infilesize rq2 = Some 5"
proof -
  let ?md = "\<lparr>md_block = ''abcdefgh'', md_advance = 0, md_sizeleft = 8\<rparr>"
  have ok: "md_ok ?md" by (simp add: md_ok_def)
  have url: "qs_parse_url blank_url ''http://h/k'' = Ret (''/k'', None)" by code_simp
  have rest: "md_rest ?md = ''abcdefgh''" by (simp add: md_rest_def subbuf_def)
  have size: "3 \<le> md_sizeleft ?md" by simp
  have script: "cut_after_3 0 = failed_response [3]" "cut_after_3 1 = ok_response"
    by (simp_all add: cut_after_3_def)
  show ?thesis
    using upload_retry_truncates [OF ok size _ url script, of 3 "json_values (\<lambda>_. None)" "''h''" "Some ''b''" None example_cred,
        unfolded rest] by simp
qed

section \<open>The response header as JSON\<close>

lemma get_lines_line: "LF \<notin> set l \<Longrightarrow> get_lines acc (l @ LF # r) = (acc @ l) # get_lines [] r"
  by (induction l arbitrary: acc) auto

lemma find_byte_None: "find_byte b xs = None \<longleftrightarrow> b \<notin> set xs"
  by (induction xs) auto

lemma find_byte_first: "b \<notin> set xs \<Longrightarrow> find_byte b (xs @ b # ys) = Some (length xs)"
  by (induction xs) auto

text \<open>A header field as the server writes it, and the key and value it may have.\<close>

definition field_text :: "string \<times> string \<Rightarrow> string" where
  "field_text f = fst f @ '': '' @ snd f @ [CR, LF]"

definition field_ok :: "string \<times> string \<Rightarrow> bool" where
  "field_ok f \<longleftrightarrow> CHR '':'' \<notin> set (fst f) \<and> LF \<notin> set (fst f) \<and> LF \<notin> set (snd f) \<and> CR \<notin> set (snd f)"

lemma header_field_line:
  assumes "field_ok f"
  shows "header_json_lines ((fst f @ '': '' @ snd f @ [CR]) # ls) =
           map_option (append (header_entry (fst f) (snd f))) (header_json_lines ls)"
  using assms find_byte_first [of "CHR '':''" "fst f" "SP # snd f @ [CR]"]
    find_byte_first [of CR "snd f" "[]"]
  by (simp add: field_ok_def header_value_def)

lemma header_fields_lines:
  "\<forall>f \<in> set fs. field_ok f \<Longrightarrow>
     header_json_lines (get_lines [] (concat (map field_text fs) @ rest)) =
       map_option (append (concat (map (\<lambda>f. header_entry (fst f) (snd f)) fs))) (header_json_lines (get_lines [] rest))"
proof (induction fs)
  case Nil
  show ?case by (simp add: option.map_id0 [unfolded id_def] append_Nil [abs_def])
next
  case (Cons f fs)
  then have f: "field_ok f" by simp
  then have "LF \<notin> set (fst f @ '': '' @ snd f @ [CR])" by (simp add: field_ok_def)
  from get_lines_line [OF this, of "[]" "concat (map field_text fs) @ rest"]
  have "get_lines [] (concat (map field_text (f # fs)) @ rest) =
      (fst f @ '': '' @ snd f @ [CR]) # get_lines [] (concat (map field_text fs) @ rest)"
    by (simp add: field_text_def)
  then show ?case
    using Cons by (simp only: header_field_line [OF f]) (simp add: option.map_comp comp_def)
qed

lemma header_status_line:
  "LF \<notin> set status \<Longrightarrow> CHR '':'' \<notin> set status \<Longrightarrow>
     header_json_lines (get_lines [] (status @ LF # r)) = header_json_lines (get_lines [] r)"
  by (simp add: get_lines_line find_byte_None [THEN iffD2])



end
