(* ===== verification/QS_Multipart.thy ===== *)
theory QS_Multipart
  imports QS_Writer QS_Request_Facts
begin

text \<open>
  What the writer stores: an interface of the transport (\<open>part_server\<close>), the writer's loop
  proved once against it, and the transport of \<open>Scripted_Net\<close> behind \<open>DoGetJSON\<close> as its
  implementation.
\<close>

section \<open>The parts a transport has stored\<close>

locale part_server =
  fixes E :: "('j, 'w) http_env" and stored :: "'w \<Rightarrow> byte list list"
  assumes upload_stored:
      "DoGetJSON E host url bucket location cred QSRT_UPLOAD_MP (Some md) retries w = (Ret x, md', w') \<Longrightarrow>
         stored w' = stored w @ [md_rest md]"
    and others_kept:
      "qsrt \<noteq> QSRT_UPLOAD_MP \<Longrightarrow>
       DoGetJSON E host url bucket location cred qsrt md2 retries w = (r, md', w') \<Longrightarrow> stored w' = stored w"

section \<open>The scripted transport\<close>

text \<open>
  A response the library takes as success of an upload. \<open>careful\<close> lets every other attempt
  fail before it has read from the upload memory.
\<close>

definition accepted_response :: "response \<Rightarrow> bool" where
  "accepted_response r \<longleftrightarrow> rs_code r = CURLE_OK \<and> rs_body r = []"

definition careful :: "(nat \<Rightarrow> response) \<Rightarrow> nat \<Rightarrow> response" where
  "careful script i = (if accepted_response (script i) then script i else (script i)\<lparr>rs_reads := []\<rparr>)"

text \<open>The bytes of the uploads that were accepted, in order.\<close>

definition stored_parts :: "(nat \<Rightarrow> response) \<Rightarrow> net \<Rightarrow> byte list list" where
  "stored_parts script log =
     map (snd \<circ> snd) (filter (\<lambda>(i, e). rq_upload (fst e) \<and> accepted_response (script i)) (enumerate 0 log))"

lemma stored_parts_Nil [simp]: "stored_parts script [] = []"
  by (simp add: stored_parts_def)

lemma stored_parts_snoc:
  "stored_parts script (log @ [(rq, up)]) =
     stored_parts script log @ (if rq_upload rq \<and> accepted_response (script (length log)) then [up] else [])"
  by (simp add: stored_parts_def enumerate_append_eq)

lemma run_writes_data: "bi_data (run_writes chunks b) = None \<longleftrightarrow> bi_data b = None \<and> chunks = []"
proof (induction chunks arbitrary: b)
  case (Cons c cs)
  have "bi_data (snd (ParserCallback b c)) \<noteq> None"
    by (simp add: ParserCallback_def Let_def split: prod.split)
  with Cons [of "snd (ParserCallback b c)"] show ?case by (simp add: run_writes_def)
qed (simp add: run_writes_def)

lemma upload_response:
  "handle_response E QSRT_UPLOAD_MP r = (if accepted_response r then Ret None else handle_response E QSRT_UPLOAD_MP r)"
  "\<not> accepted_response r \<Longrightarrow> \<exists>c m. handle_response E QSRT_UPLOAD_MP r = THROW c m"
  using run_writes_data [of "rs_body r" empty_buffer]
  by (auto simp: handle_response_def Let_def accepted_response_def buffer_text_def empty_buffer_def split: option.split)

lemma accepted_careful [simp]: "accepted_response (careful script i) = accepted_response (script i)"
  by (simp add: careful_def accepted_response_def)

text \<open>One attempt at an upload: accepted and stored, or nothing has happened to the memory.\<close>

lemma careful_attempt:
  assumes "DoGetJSON_Internal (scripted J (careful script)) host url bucket location cred QSRT_UPLOAD_MP (Some md) w = (r, md', w')"
  shows "(\<exists>x. r = Ret x) \<Longrightarrow> stored_parts script w' = stored_parts script w @ [md_rest md]"
    and "(\<exists>e. r = Throw e) \<Longrightarrow> md' = Some md \<and> stored_parts script w' = stored_parts script w"
proof -
  let ?E = "scripted J (careful script)"
  let ?h = "request_headers ?E blank_url (env_date ?E w) host url bucket location cred QSRT_UPLOAD_MP (Some md)"
  consider (bad) "\<not> (\<exists>h. ?h = Ret h)" | (good) h where "?h = Ret h" by blast
  then have "((\<exists>x. r = Ret x) \<longrightarrow> stored_parts script w' = stored_parts script w @ [md_rest md]) \<and>
      ((\<exists>e. r = Throw e) \<longrightarrow> md' = Some md \<and> stored_parts script w' = stored_parts script w)"
  proof cases
    case bad
    with assms show ?thesis by (auto simp: DoGetJSON_Internal_def is_upload_def split: outcome.splits)
  next
    case good
    show ?thesis
    proof (cases "accepted_response (script (length w))")
      case True
      then have "handle_response ?E QSRT_UPLOAD_MP (careful script (length w)) = Ret None"
        using upload_response(1) [of ?E "careful script (length w)"] by simp
      with assms good True show ?thesis
        by (auto simp: DoGetJSON_Internal_def is_upload_def stored_parts_snoc make_request_def)
    next
      case False
      then obtain c m where "handle_response ?E QSRT_UPLOAD_MP (careful script (length w)) = THROW c m"
        using upload_response(2) [of "careful script (length w)" ?E] by auto
      moreover have "rs_reads (careful script (length w)) = []" using False by (simp add: careful_def)
      ultimately show ?thesis
        using assms good False
        by (auto simp: DoGetJSON_Internal_def is_upload_def stored_parts_snoc make_request_def THROW_def run_reads_def)
    qed
  qed
  then show "(\<exists>x. r = Ret x) \<Longrightarrow> stored_parts script w' = stored_parts script w @ [md_rest md]"
    and "(\<exists>e. r = Throw e) \<Longrightarrow> md' = Some md \<and> stored_parts script w' = stored_parts script w" by simp_all
qed

lemma other_attempt:
  assumes "qsrt \<noteq> QSRT_UPLOAD_MP"
    and "DoGetJSON_Internal (scripted J script) host url bucket location cred qsrt md w = (r, md', w')"
  shows "stored_parts script' w' = stored_parts script' w"
  using assms
  by (auto simp: DoGetJSON_Internal_def stored_parts_snoc make_request_def split: if_splits outcome.splits)

text \<open>The attempt that ends the loop starts from a state the failed ones have led to.\<close>

lemma retry_loop_last:
  assumes step: "\<And>md w e md' w'. P md w \<Longrightarrow> att md w = (Throw e, md', w') \<Longrightarrow> P md' w'"
  shows "P md w \<Longrightarrow> retry_loop att retries n md w = (r, md', w') \<Longrightarrow>
           \<exists>md1 w1. P md1 w1 \<and> att md1 w1 = (r, md', w')"
proof (induction "nat (retries - int n)" arbitrary: n md w rule: less_induct)
  case less
  obtain r1 md1 w1 where a: "att md w = (r1, md1, w1)" by (cases "att md w")
  show ?case
  proof (cases "throws (att md w) \<and> int (Suc n) < retries")
    case True
    then obtain e where "r1 = Throw e" using a by (auto simp: throws_def split: outcome.splits)
    then have "P md1 w1" using step less.prems(1) a by blast
    moreover have "retry_loop att retries (Suc n) md1 w1 = (r, md', w')"
      using less.prems(2) True a by (subst (asm) retry_loop_step) simp
    moreover have "nat (retries - int (Suc n)) < nat (retries - int n)" using True by simp
    ultimately show ?thesis using less.hyps by blast
  next
    case False
    then have "att md w = (r, md', w')"
      using less.prems(2) by (subst (asm) retry_loop_step) (simp only: if_False)
    with less.prems(1) show ?thesis by blast
  qed
qed

lemma careful_upload:
  assumes "DoGetJSON (scripted J (careful script)) host url bucket location cred QSRT_UPLOAD_MP (Some md) retries w =
      (Ret x, md', w')"
  shows "stored_parts script w' = stored_parts script w @ [md_rest md]"
proof -
  let ?att = "DoGetJSON_Internal (scripted J (careful script)) host url bucket location cred QSRT_UPLOAD_MP"
  let ?P = "\<lambda>md1 w1. md1 = Some md \<and> stored_parts script w1 = stored_parts script w"
  have "\<exists>md1 w1. ?P md1 w1 \<and> ?att md1 w1 = (Ret x, md', w')"
  proof (rule retry_loop_last)
    show "retry_loop ?att retries 0 (Some md) w = (Ret x, md', w')" using assms by (simp add: DoGetJSON_def)
  qed (auto dest: careful_attempt(2))
  then show ?thesis by (auto dest: careful_attempt(1))
qed

lemma other_request:
  assumes "qsrt \<noteq> QSRT_UPLOAD_MP"
    and "DoGetJSON (scripted J script) host url bucket location cred qsrt md retries w = (r, md', w')"
  shows "stored_parts script' w' = stored_parts script' w"
proof -
  let ?att = "DoGetJSON_Internal (scripted J script) host url bucket location cred qsrt"
  have "\<exists>md1 w1. stored_parts script' w1 = stored_parts script' w \<and> ?att md1 w1 = (r, md', w')"
  proof (rule retry_loop_last [where P = "\<lambda>_ w1. stored_parts script' w1 = stored_parts script' w"])
    show "retry_loop ?att retries 0 md w = (r, md', w')" using assms(2) by (simp add: DoGetJSON_def)
  qed (metis other_attempt [OF assms(1)])+
  then show ?thesis using other_attempt [OF assms(1)] by metis
qed

interpretation net: part_server "scripted J (careful script)" "stored_parts script"
  for J :: "'j json_api" and script :: "nat \<Rightarrow> response"
  by unfold_locales (rule careful_upload, assumption, rule other_request)

section \<open>Sending against such a transport\<close>

lemma uploadMultipart_frame:
  "uploadMultipart E host url bucket cred md (wr, w) = (Ret ok, wr', w') \<Longrightarrow> wr' = wr"
  by (auto simp: uploadMultipart_def rethrowing_Ret_iff then_Ret_iff split: prod.splits)

lemma doSend_frame:
  assumes "doSend E block n (wr, w) = (Ret u, wr', w')"
  shows "0 \<le> n" and "n \<le> int (length block)"
    and "wr' = wr\<lparr>wr_part_num := to_int32 (wr_part_num wr + 1)\<rparr>"
    and "uploadMultipart E (writer_host wr) (part_url wr) (wr_bucket wr) (wr_cred wr)
           \<lparr>md_block = block, md_advance = 0, md_sizeleft = nat n\<rparr> (wr, w) = (Ret True, wr, w')"
proof -
  show n: "0 \<le> n" "n \<le> int (length block)" using assms by (auto simp: doSend_def split: if_splits)
  let ?md = "\<lparr>md_block = block, md_advance = 0, md_sizeleft = nat n\<rparr>"
  obtain wr1 where up: "uploadMultipart E (writer_host wr) (part_url wr) (wr_bucket wr) (wr_cred wr) ?md (wr, w) = (Ret True, wr1, w')"
    and "wr' = wr1\<lparr>wr_part_num := to_int32 (wr_part_num wr1 + 1)\<rparr>"
    using assms n by (auto simp: doSend_def then_Ret_iff THROW_def split: if_splits)
  with uploadMultipart_frame [OF up]
  show "wr' = wr\<lparr>wr_part_num := to_int32 (wr_part_num wr + 1)\<rparr>"
    "uploadMultipart E (writer_host wr) (part_url wr) (wr_bucket wr) (wr_cred wr) ?md (wr, w) = (Ret True, wr, w')"
    by simp_all
qed

context part_server begin

lemma doSend_Ret:
  assumes "doSend E block n (wr, w) = (Ret u, wr', w')"
  shows "stored w' = stored w @ [take (nat n) block]"
  using doSend_frame(4) [OF assms]
  by (auto simp: uploadMultipart_def rethrowing_Ret_iff then_Ret_iff get_json_def md_rest_def subbuf_def
      split: prod.splits dest!: upload_stored)

end

section \<open>Filling the buffer\<close>

text \<open>A writer that caches: a buffer of the chunk size, not full, and an \<open>int32_t\<close> count.\<close>

definition caching :: "writer \<Rightarrow> bool" where
  "caching wr \<longleftrightarrow> wr_cache wr \<and> to_int32 (wr_part_num wr) = wr_part_num wr \<and> (\<exists>b. wr_buffer wr = Some b \<and> int (length b) = wr_buff_size wr \<and>
     wr_write_pos wr < length b) \<and> wr_buff_size wr < 2 ^ 31"

text \<open>The bytes written and not sent yet.\<close>

definition pending :: "writer \<Rightarrow> byte list" where
  "pending wr = take (wr_write_pos wr) (buffer_block wr)"

lemma fill_buffer_eq:
  "pos \<le> length b \<Longrightarrow> fill_buffer (int (length b)) b pos input =
     (let n = min (length b - pos) (length input) in
      (overwrite pos (take n input) b, pos + n, drop n input))"
proof (induction input arbitrary: b pos)
  case Nil
  then show ?case by (simp add: overwrite_def)
next
  case (Cons c cs)
  show ?case
  proof (cases "pos = length b")
    case True
    then show ?thesis by (simp add: overwrite_def)
  next
    case False
    with Cons.prems have pos: "pos < length b" by simp
    let ?b = "b[pos := c]" and ?m = "min (length b - Suc pos) (length cs)"
    have m: "min (length b - pos) (length (c # cs)) = Suc ?m" using pos by simp
    have "overwrite (Suc pos) (take ?m cs) ?b = overwrite pos (c # take ?m cs) b"
      using pos by (simp add: overwrite_def take_Suc_conv_app_nth take_update_swap list_update_append)
    with Cons.IH [of "Suc pos" ?b] False pos show ?thesis
      unfolding m by (simp add: Let_def)
  qed
qed

text \<open>
  One turn of the loop: the pending bytes and the input are kept in order; either a full
  buffer goes out or the input is used up.
\<close>

lemma transfer_step:
  assumes "caching wr" and "input \<noteq> []"
  defines "n \<equiv> min (length (buffer_block wr) - wr_write_pos wr) (length input)"
  defines "b \<equiv> overwrite (wr_write_pos wr) (take n input) (buffer_block wr)"
  defines "full \<equiv> wr\<lparr>wr_buffer := Some b, wr_write_pos := wr_write_pos wr + n\<rparr>"
  shows "transfer_loop E input (wr, w) =
      (if wr_write_pos wr + n = length b
       then (case doSend E b (int (length b)) (full, w) of
               (Ret _, wr', w') \<Rightarrow> transfer_loop E (drop n input) (wr'\<lparr>wr_write_pos := 0\<rparr>, w')
             | r \<Rightarrow> Some r)
       else Some (Ret (), full, w))"
    and "0 < n" and "length b = length (buffer_block wr)" and "int (length b) = wr_buff_size wr"
    and "take (wr_write_pos wr + n) b = pending wr @ take n input"
proof -
  obtain b0 where b0: "wr_buffer wr = Some b0" "int (length b0) = wr_buff_size wr" "wr_write_pos wr < length b0"
      "wr_buff_size wr < 2 ^ 31"
    using assms(1) by (auto simp: caching_def)
  have block: "buffer_block wr = b0" using b0 by (simp add: buffer_block_def)
  show n: "0 < n" using b0(3) assms(2) by (simp add: n_def block)
  have "wr_write_pos wr + length (take n input) \<le> length b0" using b0(3) by (simp add: n_def block)
  then show len: "length b = length (buffer_block wr)" by (simp add: b_def block)
  then show size: "int (length b) = wr_buff_size wr" using b0 by (simp add: block)
  have "n \<le> length input" by (simp add: n_def)
  with take_overwrite_end [of "wr_write_pos wr" b0 "take n input"] b0(3)
  show "take (wr_write_pos wr + n) b = pending wr @ take n input" by (simp add: b_def pending_def block)
  have fill: "fill_buffer (wr_buff_size wr) (buffer_block wr) (wr_write_pos wr) input = (b, wr_write_pos wr + n, drop n input)"
    using fill_buffer_eq [of "wr_write_pos wr" b0 input] b0 by (simp add: block b_def n_def Let_def)
  have drop: "drop n input = []" if "wr_write_pos wr + n \<noteq> length b"
    using that len b0(3) by (auto simp: n_def block min_def split: if_splits)
  have to: "to_int32 (wr_buff_size wr) = int (length b)" using size b0(4) by simp
  have nil: "transfer_loop E [] s = Some (Ret (), s)" for s by (subst transfer_loop.simps) simp
  have "(int (wr_write_pos wr + n) = wr_buff_size wr) = (wr_write_pos wr + n = length b)" using size by linarith
  then show "transfer_loop E input (wr, w) =
      (if wr_write_pos wr + n = length b
       then (case doSend E b (int (length b)) (full, w) of
               (Ret _, wr', w') \<Rightarrow> transfer_loop E (drop n input) (wr'\<lparr>wr_write_pos := 0\<rparr>, w')
             | r \<Rightarrow> Some r)
       else Some (Ret (), full, w))"
    using assms(2) drop nil
    by (subst transfer_loop.simps) (simp add: fill to full_def)
qed

text \<open>The fields no write changes.\<close>

definition same_upload :: "writer \<Rightarrow> writer \<Rightarrow> bool" where
  "same_upload wr wr' \<longleftrightarrow>
     wr' = wr\<lparr>wr_buffer := wr_buffer wr', wr_write_pos := wr_write_pos wr', wr_part_num := wr_part_num wr'\<rparr>"

lemma same_uploadD:
  assumes "same_upload wr wr'"
  shows "wr_buff_size wr' = wr_buff_size wr" "wr_cache wr' = wr_cache wr" "wr_canceled wr' = wr_canceled wr"
    "wr_bucket wr' = wr_bucket wr" "wr_configuration wr' = wr_configuration wr"
proof -
  have eq: "wr' = wr\<lparr>wr_buffer := wr_buffer wr', wr_write_pos := wr_write_pos wr', wr_part_num := wr_part_num wr'\<rparr>"
    using assms by (simp add: same_upload_def)
  show "wr_buff_size wr' = wr_buff_size wr" "wr_cache wr' = wr_cache wr" "wr_canceled wr' = wr_canceled wr"
    "wr_bucket wr' = wr_bucket wr" "wr_configuration wr' = wr_configuration wr"
    by (subst eq, simp)+
qed

lemma same_upload_trans: "same_upload wr wr1 \<Longrightarrow> same_upload wr1 wr' \<Longrightarrow> same_upload wr wr'"
  by (cases wr; cases wr1; cases wr') (simp add: same_upload_def)

lemma to_int32_add: "to_int32 (to_int32 x + y) = to_int32 (x + y)"
proof -
  have "((x + 2 ^ 31) mod 2 ^ 32 + y) mod (2 ^ 32 :: int) = (x + y + 2 ^ 31) mod 2 ^ 32"
    by (simp add: mod_simps algebra_simps)
  then show ?thesis by (simp add: to_int32_def algebra_simps)
qed

context part_server begin

lemma transfer_loop_Ret:
  "caching wr \<Longrightarrow> transfer_loop E input (wr, w) = Some (Ret u, wr', w') \<Longrightarrow>
     caching wr' \<and> same_upload wr wr' \<and>
     (\<exists>parts. stored w' = stored w @ parts \<and> (\<forall>p \<in> set parts. int (length p) = wr_buff_size wr) \<and>
        concat parts @ pending wr' = pending wr @ input \<and>
        wr_part_num wr' = to_int32 (wr_part_num wr + int (length parts)))"
proof (induction "length input" arbitrary: input wr w rule: less_induct)
  case less
  show ?case
  proof (cases "input = []")
    case True
    with less.prems have "wr' = wr" "w' = w" by (simp_all add: transfer_loop.simps)
    with less.prems(1) True show ?thesis by (auto simp: same_upload_def caching_def intro: exI [of _ "[]"])
  next
    case False
    define n where "n = min (length (buffer_block wr) - wr_write_pos wr) (length input)"
    define b where "b = overwrite (wr_write_pos wr) (take n input) (buffer_block wr)"
    define full where "full = wr\<lparr>wr_buffer := Some b, wr_write_pos := wr_write_pos wr + n\<rparr>"
    note step = transfer_step [OF less.prems(1) False, folded n_def, folded b_def, folded full_def]
    have pend: "take (wr_write_pos wr + n) b = pending wr @ take n input" by (rule step(5))
    show ?thesis
    proof (cases "wr_write_pos wr + n = length b")
      case True
      obtain v wr1 w1 where send: "doSend E b (int (length b)) (full, w) = (Ret v, wr1, w1)"
        and rest: "transfer_loop E (drop n input) (wr1\<lparr>wr_write_pos := 0\<rparr>, w1) = Some (Ret u, wr', w')"
        using less.prems(2) step(1) [of E w] True by (auto split: prod.splits outcome.splits)
      let ?wr1 = "wr1\<lparr>wr_write_pos := 0\<rparr>"
      have wr1: "wr1 = full\<lparr>wr_part_num := to_int32 (wr_part_num wr + 1)\<rparr>" and w1: "stored w1 = stored w @ [b]"
        using doSend_frame(3) [OF send] doSend_Ret [OF send] by (simp_all add: full_def)
      have "wr_write_pos wr < length b"
        using less.prems(1) step(3) by (auto simp: caching_def buffer_block_def)
      then have c1: "caching ?wr1"
        using less.prems(1) step(4) to_int32_add [of "wr_part_num wr + 1" 0]
        by (auto simp: caching_def wr1 full_def)
      have "length (drop n input) < length input" using step(2) False by simp
      from less.hyps [OF this c1 rest] obtain parts where ih: "caching wr'" "same_upload ?wr1 wr'"
          "stored w' = stored w1 @ parts" "\<forall>p \<in> set parts. int (length p) = wr_buff_size ?wr1"
          "concat parts @ pending wr' = pending ?wr1 @ drop n input"
          "wr_part_num wr' = to_int32 (wr_part_num ?wr1 + int (length parts))"
        by blast
      have "b = pending wr @ take n input" using pend True by simp
      then have "concat (b # parts) @ pending wr' = pending wr @ input"
        using ih(5) by (simp add: pending_def)
      moreover have "same_upload wr wr'" using ih(2) by (simp add: same_upload_def wr1 full_def)
      moreover have "wr_part_num wr' = to_int32 (wr_part_num wr + int (length (b # parts)))"
        using ih(6) to_int32_add [of "wr_part_num wr + 1" "int (length parts)"] by (simp add: wr1 algebra_simps)
      moreover have "\<forall>p \<in> set (b # parts). int (length p) = wr_buff_size wr"
        using ih(4) step(4) by (simp add: wr1 full_def)
      ultimately show ?thesis using ih(1,3) w1 by (intro conjI exI [of _ "b # parts"]) simp_all
    next
      case False
      then have stop: "wr' = full" "w' = w" using less.prems(2) step(1) [of E w] by auto
      have "n = length input"
        using False step(3) less.prems(1) by (auto simp: n_def caching_def buffer_block_def min_def split: if_splits)
      then have "pending full = pending wr @ input" using pend by (simp add: pending_def full_def buffer_block_def)
      moreover have "wr_write_pos wr + n < length b"
        using False step(3) less.prems(1) by (auto simp: n_def caching_def buffer_block_def)
      ultimately show ?thesis
        using less.prems(1) step(4)
        by (auto simp: stop caching_def full_def same_upload_def intro!: exI [of _ "[]"])
    qed
  qed
qed

end

section \<open>A whole upload\<close>

text \<open>Several writes, one after the other; \<open>None\<close> when one of them does not end.\<close>

fun write_all :: "('j, 'w) http_env \<Rightarrow> byte list list \<Rightarrow> writer \<times> 'w \<Rightarrow> (unit outcome \<times> writer \<times> 'w) option" where
  "write_all E [] s = Some (Ret (), s)"
| "write_all E (b # bs) s =
     (case transferData E b s of
        Some (Ret _, s') \<Rightarrow> write_all E bs s'
      | r \<Rightarrow> r)"

lemma transferData_caching: "caching wr \<Longrightarrow> transferData E input (wr, w) = transfer_loop E input (wr, w)"
  by (simp add: transferData_def caching_def)

text \<open>A write to a caching writer ends, whatever the transport does.\<close>

lemma transfer_loop_ends: "caching wr \<Longrightarrow> transfer_loop E input (wr, w) \<noteq> None"
proof (induction "length input" arbitrary: input wr w rule: less_induct)
  case less
  show ?case
  proof (cases "input = []")
    case True
    then show ?thesis by (simp add: transfer_loop.simps)
  next
    case False
    define n where "n = min (length (buffer_block wr) - wr_write_pos wr) (length input)"
    define b where "b = overwrite (wr_write_pos wr) (take n input) (buffer_block wr)"
    define full where "full = wr\<lparr>wr_buffer := Some b, wr_write_pos := wr_write_pos wr + n\<rparr>"
    note step = transfer_step [OF less.prems False, folded n_def, folded b_def, folded full_def]
    have "transfer_loop E (drop n input) (wr1\<lparr>wr_write_pos := 0\<rparr>, w1) \<noteq> None"
      if send: "doSend E b (int (length b)) (full, w) = (Ret v, wr1, w1)" for v wr1 w1
    proof (rule less.hyps)
      show "length (drop n input) < length input" using step(2) False by simp
      have "wr_write_pos wr < length b"
        using less.prems step(3) by (auto simp: caching_def buffer_block_def)
      then show "caching (wr1\<lparr>wr_write_pos := 0\<rparr>)"
        using less.prems step(4) to_int32_add [of "wr_part_num wr + 1" 0]
        by (auto simp: caching_def doSend_frame(3) [OF send] full_def)
    qed
    then show ?thesis using step(1) [of E w] by (auto split: prod.splits outcome.splits)
  qed
qed

lemma extractUploadIDContent_world:
  "extractUploadIDContent J r (wr, w) = (x, wr', w') \<Longrightarrow> w' = w"
  by (auto simp: extractUploadIDContent_def then_call_def json_std_string_def
      split: option.splits outcome.splits)

lemma initMultipartUpload_world:
  assumes "initMultipartUpload E host url bucket cred (wr, w) = (r, wr', w')"
  shows "w' = snd (get_json E (wr_configuration wr) host url (Some bucket) None cred QSRT_INIT_MP_UPLOAD None w)"
  using assms
  by (auto simp: initMultipartUpload_def rethrowing_def then_call_def THROW_def
      split: prod.splits outcome.splits option.splits if_splits dest!: extractUploadIDContent_world)

lemma QingStorWriter_caching:
  assumes "QingStorWriter E cfg bucket key True w0 = (Ret wr, w)" and "0 < mChunkSize cfg" and "mChunkSize cfg < 2 ^ 31"
  shows "caching wr" and "pending wr = []" and "wr_part_num wr = 0" and "\<not> wr_canceled wr"
    and "wr_buff_size wr = mChunkSize cfg"
  using assms
  by (auto simp: QingStorWriter_def Let_def caching_def pending_def buffer_block_def
      split: prod.splits outcome.splits if_splits)

context part_server begin

lemma get_json_other:
  "get_json E cfg host url bucket location cred qsrt md w = (r, w') \<Longrightarrow> qsrt \<noteq> QSRT_UPLOAD_MP \<Longrightarrow> stored w' = stored w"
  by (auto simp: get_json_def split: prod.splits dest!: others_kept)

lemma get_json_kept [simp]:
  "qsrt \<noteq> QSRT_UPLOAD_MP \<Longrightarrow> stored (snd (get_json E cfg host url bucket location cred qsrt md w)) = stored w"
  by (cases "get_json E cfg host url bucket location cred qsrt md w") (simp add: get_json_other)

lemma write_all_Ret:
  "caching wr \<Longrightarrow> write_all E inputs (wr, w) = Some (Ret u, wr', w') \<Longrightarrow>
     caching wr' \<and> same_upload wr wr' \<and>
     (\<exists>parts. stored w' = stored w @ parts \<and> (\<forall>p \<in> set parts. int (length p) = wr_buff_size wr) \<and>
        concat parts @ pending wr' = pending wr @ concat inputs \<and>
        wr_part_num wr' = to_int32 (wr_part_num wr + int (length parts)))"
proof (induction inputs arbitrary: wr w)
  case Nil
  then show ?case by (auto simp: same_upload_def caching_def intro: exI [of _ "[]"])
next
  case (Cons b bs)
  obtain v wr1 w1 where first: "transfer_loop E b (wr, w) = Some (Ret v, wr1, w1)"
    and rest: "write_all E bs (wr1, w1) = Some (Ret u, wr', w')"
    using Cons.prems by (auto simp: transferData_caching split: option.splits prod.splits outcome.splits)
  obtain ps where ps: "caching wr1" "same_upload wr wr1" "stored w1 = stored w @ ps"
      "\<forall>p \<in> set ps. int (length p) = wr_buff_size wr" "concat ps @ pending wr1 = pending wr @ b"
      "wr_part_num wr1 = to_int32 (wr_part_num wr + int (length ps))"
    using transfer_loop_Ret [OF Cons.prems(1) first] by blast
  obtain qs where qs: "caching wr'" "same_upload wr1 wr'" "stored w' = stored w1 @ qs"
      "\<forall>p \<in> set qs. int (length p) = wr_buff_size wr1" "concat qs @ pending wr' = pending wr1 @ concat bs"
      "wr_part_num wr' = to_int32 (wr_part_num wr1 + int (length qs))"
    using Cons.IH [OF ps(1) rest] by blast
  have "same_upload wr wr'" using ps(2) qs(2) by (rule same_upload_trans)
  moreover have "concat (ps @ qs) @ pending wr' = pending wr @ concat (b # bs)"
    using ps(5) qs(5) by (metis append.assoc concat.simps(2) concat_append)
  moreover have "wr_part_num wr' = to_int32 (wr_part_num wr + int (length (ps @ qs)))"
    using qs(6) ps(6) to_int32_add [of "wr_part_num wr + int (length ps)" "int (length qs)"] by (simp add: algebra_simps)
  moreover have "\<forall>p \<in> set (ps @ qs). int (length p) = wr_buff_size wr"
    using ps(4) qs(4) same_uploadD(1) [OF ps(2)] by auto
  ultimately show ?case using qs(1,3) ps(3) by (intro conjI exI [of _ "ps @ qs"]) simp_all
qed

lemma QingStorWriter_stored:
  assumes "QingStorWriter E cfg bucket key cache w = (r, w')"
  shows "stored w' = stored w"
proof -
  let ?init = "initMultipartUpload E (bucket_host cfg bucket) (object_url cfg (bucket_host cfg bucket) key @ ''?uploads'')
    bucket (config_cred cfg) (blank_writer cfg bucket key, w)"
  obtain x wr1 w1 where init: "?init = (x, wr1, w1)" by (cases ?init) auto
  then have "w' = w1" using assms by (auto simp: QingStorWriter_def Let_def split: outcome.splits if_splits)
  then show ?thesis using initMultipartUpload_world [OF init] by simp
qed

lemma complete_stored:
  assumes "completeMultipartUpload E host url bucket cred (wr, w) = (Ret ok, wr', w')"
  shows "wr' = wr" and "stored w' = stored w"
  using assms
  by (auto simp: completeMultipartUpload_def Let_def rethrowing_Ret_iff then_Ret_iff split: prod.splits
      dest!: get_json_other)

lemma close_Ret:
  assumes "caching wr" and "\<not> wr_canceled wr" and "writer_close E (wr, w) = (Ret u, wr', w')"
  shows "stored w' = stored w @ [pending wr]" and "wr_buffer wr' = None"
    and "wr_part_num wr' = to_int32 (wr_part_num wr + 1)"
proof -
  let ?n = "to_int32 (int (wr_write_pos wr))"
  have c: "wr_cache wr" using assms(1) by (simp add: caching_def)
  obtain wr1 w1 where fl: "writer_flush E (wr, w) = (Ret (), wr1, w1)" and wr': "wr_buffer wr' = None"
    and cm: "\<exists>ok wr2. completeMultipartUpload E (writer_host wr1) (upload_url wr1) (wr_bucket wr1) (wr_cred wr1) (wr1, w1)
               = (Ret ok, wr2, w') \<and> wr' = wr2\<lparr>wr_buffer := None\<rparr>"
    using assms(2,3) by (auto simp: writer_close_def then_Ret_iff)
  obtain wr0 where send: "doSend E (buffer_block wr) ?n (wr, w) = (Ret (), wr0, w1)" and wr1: "wr1 = wr0\<lparr>wr_write_pos := 0\<rparr>"
    using fl c by (auto simp: writer_flush_def Let_def then_Ret_iff)
  have n: "?n = int (wr_write_pos wr)" using assms(1) by (auto simp: caching_def)
  have "stored w1 = stored w @ [pending wr]" using doSend_Ret [OF send] unfolding n by (simp add: pending_def)
  moreover obtain ok wr2 where "completeMultipartUpload E (writer_host wr1) (upload_url wr1) (wr_bucket wr1) (wr_cred wr1) (wr1, w1)
               = (Ret ok, wr2, w')" "wr' = wr2\<lparr>wr_buffer := None\<rparr>" using cm by blast
  moreover note complete_stored [OF this(1)]
  ultimately show "stored w' = stored w @ [pending wr]" "wr_part_num wr' = to_int32 (wr_part_num wr + 1)"
    using doSend_frame(3) [OF send] wr1 by simp_all
  show "wr_buffer wr' = None" by (rule wr')
qed

text \<open>Open, write, close.\<close>

lemma whole_upload:
  assumes "0 < mChunkSize cfg" and "mChunkSize cfg < 2 ^ 31"
    and "QingStorWriter E cfg bucket key True w0 = (Ret wr, w1)"
    and "write_all E inputs (wr, w1) = Some (Ret u, wr2, w2)"
    and "writer_close E (wr2, w2) = (Ret v, wr3, w3)"
  shows "\<exists>parts rest. stored w3 = stored w0 @ parts @ [rest] \<and> concat parts @ rest = concat inputs \<and>
           (\<forall>p \<in> set parts. int (length p) = mChunkSize cfg) \<and> int (length rest) < mChunkSize cfg \<and>
           wr_part_num wr3 = to_int32 (int (length parts) + 1) \<and> wr_buffer wr3 = None"
proof -
  note start = QingStorWriter_caching [OF assms(3,1,2)]
  obtain parts where p: "caching wr2" "same_upload wr wr2" "stored w2 = stored w1 @ parts"
      "\<forall>p \<in> set parts. int (length p) = wr_buff_size wr" "concat parts @ pending wr2 = pending wr @ concat inputs"
      "wr_part_num wr2 = to_int32 (wr_part_num wr + int (length parts))"
    using write_all_Ret [OF start(1) assms(4)] by blast
  have "\<not> wr_canceled wr2" using start(4) same_uploadD(3) [OF p(2)] by simp
  note close = close_Ret [OF p(1) this assms(5)]
  have "int (length (pending wr2)) < wr_buff_size wr2"
    using p(1) by (auto simp: caching_def pending_def buffer_block_def)
  then have "int (length (pending wr2)) < mChunkSize cfg" using same_uploadD(1) [OF p(2)] start(5) by simp
  with p close start QingStorWriter_stored [OF assms(3)] show ?thesis
    by (intro exI [of _ parts] exI [of _ "pending wr2"]) (simp add: to_int32_add)
qed

end

end
