(* ===== verification/QS_Writer_Facts.thy ===== *)
theory QS_Writer_Facts
  imports QS_Multipart
begin

text \<open>
  Properties of uploads: what is stored, that writes end, that an upload succeeds when the
  server accepts every request, and what the chunk size can break.
\<close>

section \<open>Requests that succeed\<close>

lemma headers_succeed:
  assumes "qs_parse_url u url = Ret pq" and "is_upload qsrt \<longrightarrow> md \<noteq> None" and "qsrt \<noteq> QSRT_NONE"
  shows "\<exists>h. request_headers E u date host url bucket location cred qsrt md = Ret h"
proof -
  obtain path query where pq: "pq = (path, query)" by (cases pq)
  have "\<exists>t. string_to_sign qsrt date p = Ret t" for p using assms(3) by (cases qsrt) (simp_all add: string_to_sign_def Let_def)
  then obtain t where t: "\<And>p. string_to_sign qsrt date p = Ret (t p)" by metis
  obtain cl where "content_length_of qsrt md = Ret cl"
    using assms(2) by (cases qsrt) (auto simp: content_length_of_def is_upload_def)
  with t show ?thesis by (simp add: request_headers_def Let_def assms(1) pq Signature_def)
qed

lemma request_succeeds:
  assumes "qs_parse_url blank_url url = Ret pq"
    and "handle_response (scripted J script) qsrt (script (length w)) = Ret x"
    and "is_upload qsrt \<longrightarrow> md \<noteq> None" and "qsrt \<noteq> QSRT_NONE"
  shows "\<exists>rq up md'. DoGetJSON (scripted J script) host url bucket location cred qsrt md retries w =
           (Ret x, md', w @ [(rq, up)])"
proof -
  let ?E = "scripted J script"
  obtain h where h: "request_headers ?E blank_url (env_date ?E w) host url bucket location cred qsrt md = Ret h"
    using headers_succeed [OF assms(1,3,4)] by blast
  obtain rq up md' where one: "DoGetJSON_Internal ?E host url bucket location cred qsrt md w = (Ret x, md', w @ [(rq, up)])"
    using assms(2,3) h by (auto simp: DoGetJSON_Internal_def Let_def)
  then have "DoGetJSON ?E host url bucket location cred qsrt md retries w = (Ret x, md', w @ [(rq, up)])"
    unfolding DoGetJSON_def by (subst retry_loop_step) (simp add: throws_def)
  then show ?thesis by blast
qed

lemma show_nat_length: "n < 10 ^ k \<Longrightarrow> 0 < k \<Longrightarrow> length (show_nat n) \<le> k"
proof (induction k arbitrary: n)
  case (Suc k)
  show ?case
  proof (cases "n < 10")
    case True
    then show ?thesis by (simp add: show_nat.simps [of n])
  next
    case False
    then have "0 < k" using Suc.prems(1) by (cases k) auto
    moreover have "n div 10 < 10 ^ k" using Suc.prems(1) by (simp add: less_mult_imp_div_less)
    ultimately show ?thesis using Suc.IH [of "n div 10"] False by (simp add: show_nat.simps [of n])
  qed
qed simp

lemma show_int32:
  assumes "to_int32 n = n"
  shows "length (show_int n) \<le> 11" and "list_all IS_URL_CHAR (show_int n)"
proof -
  have "- (2 ^ 31) \<le> n" "n < 2 ^ 31" using to_int32_bounds [of n] assms by simp_all
  then have "nat n < 10 ^ 10" "nat (- n) < 10 ^ 10" by auto
  with show_nat_length [of "nat n" 10] show_nat_length [of "nat (- n)" 10]
  show "length (show_int n) \<le> 11" by (auto simp: show_int_def)
  have digit: "IS_URL_CHAR c" if "is_digit c" for c
    using that by (auto simp: IS_URL_CHAR_iff is_digit_def)
  then show "list_all IS_URL_CHAR (show_int n)"
    by (auto simp: show_int_def list_all_iff dest: show_nat_digits) (simp add: IS_URL_CHAR_iff)
qed

section \<open>The URLs of a writer\<close>

text \<open>
  A configuration, bucket and key made of bytes a URL may hold, short enough for the 16-bit
  lengths of the URL parser.
\<close>

definition addressable :: "Configuration \<Rightarrow> string \<Rightarrow> string \<Rightarrow> bool" where
  "addressable cfg bucket key \<longleftrightarrow>
     mProtocol cfg \<noteq> [] \<and> list_all IS_ALPHA (mProtocol cfg) \<and>
     list_all IS_HOST_CHAR (bucket_host cfg bucket) \<and> list_all IS_URL_CHAR key \<and>
     length (object_url cfg (bucket_host cfg bucket) key) < 32000"

lemma object_url_parses:
  assumes "addressable cfg bucket key" and "list_all IS_URL_CHAR q" and "length q < 32000" and "q \<noteq> []"
  shows "\<exists>pq. qs_parse_url u (object_url cfg (bucket_host cfg bucket) key @ ''?'' @ q) = Ret pq"
proof -
  let ?url = "url_text (mProtocol cfg) (bucket_host cfg bucket) None (CHR ''/'' # key) (Some q)"
  have "IS_URL_CHAR (CHR ''/'')" by (simp add: IS_URL_CHAR_iff)
  then have "url_parts (mProtocol cfg) (bucket_host cfg bucket) None (CHR ''/'' # key) (Some q)"
    using assms(1,2,4) by (auto simp: url_parts_def addressable_def bucket_host_def list_all_iff)
  moreover have eq: "?url = object_url cfg (bucket_host cfg bucket) key @ ''?'' @ q"
    by (simp add: url_text_def authority_text_def object_url_def)
  moreover have "length (object_url cfg (bucket_host cfg bucket) key) < 32000"
    using assms(1) by (simp add: addressable_def)
  then have "length ?url < 2 ^ 16" unfolding eq using assms(3) by simp
  ultimately show ?thesis
    using parse_url_pieces [of "mProtocol cfg" "bucket_host cfg bucket" None "CHR ''/'' # key" "Some q" ?url "[]" u]
    by (auto simp: qs_parse_url_def extract_field_def uf_text_def Let_def split: option.splits if_splits)
qed

lemma writer_urls_parse:
  assumes "addressable (wr_configuration wr) (wr_bucket wr) (wr_key wr)" and "list_all IS_URL_CHAR (wr_upload_id wr)"
    and "length (wr_upload_id wr) < 30000"
  shows "to_int32 (wr_part_num wr) = wr_part_num wr \<Longrightarrow> \<exists>pq. qs_parse_url u (part_url wr) = Ret pq"
    and "\<exists>pq. qs_parse_url u (upload_url wr) = Ret pq"
proof -
  note parses = object_url_parses [OF assms(1)]
  have chars: "list_all IS_URL_CHAR ''part_number=''" "list_all IS_URL_CHAR ''&upload_id=''" "list_all IS_URL_CHAR ''upload_id=''"
    by (simp_all add: IS_URL_CHAR_iff)
  show "\<exists>pq. qs_parse_url u (upload_url wr) = Ret pq"
    using parses [of "''upload_id='' @ wr_upload_id wr"] assms(2,3) chars by (simp add: upload_url_def writer_host_def)
  show "\<exists>pq. qs_parse_url u (part_url wr) = Ret pq" if "to_int32 (wr_part_num wr) = wr_part_num wr"
    using parses [of "''part_number='' @ show_int (wr_part_num wr) @ ''&upload_id='' @ wr_upload_id wr"]
      assms(2,3) chars show_int32 [OF that] by (simp add: part_url_def writer_host_def)
qed

section \<open>Uploads that succeed\<close>

text \<open>A server that accepts every request from now on.\<close>

definition accepting :: "(nat \<Rightarrow> response) \<Rightarrow> net \<Rightarrow> bool" where
  "accepting script w \<longleftrightarrow> (\<forall>i \<ge> length w. accepted_response (script i))"

definition writable :: "writer \<Rightarrow> bool" where
  "writable wr \<longleftrightarrow> caching wr \<and> addressable (wr_configuration wr) (wr_bucket wr) (wr_key wr) \<and>
     list_all IS_URL_CHAR (wr_upload_id wr) \<and> length (wr_upload_id wr) < 30000"

lemma accepted_upload:
  "accepted_response r \<Longrightarrow> qsrt = QSRT_UPLOAD_MP \<or> qsrt = QSRT_COMP_MP_UPLOAD \<Longrightarrow> handle_response E qsrt r = Ret None"
  by (auto simp: handle_response_def Let_def accepted_response_def buffer_text_def empty_buffer_def run_writes_def)

lemma accepted_request:
  assumes "qs_parse_url blank_url url = Ret pq" and "accepting script w"
    and "qsrt = QSRT_UPLOAD_MP \<or> qsrt = QSRT_COMP_MP_UPLOAD"
  shows "\<exists>w'. get_json (scripted J script) cfg host url bucket location cred qsrt (Some md) w = (Ret None, w') \<and>
           accepting script w'"
proof -
  have "handle_response (scripted J script) qsrt (script (length w)) = Ret None"
    using assms(2,3) by (intro accepted_upload) (auto simp: accepting_def)
  then obtain rq up md' where "DoGetJSON (scripted J script) host url bucket location cred qsrt (Some md)
      (mConnectionRetries cfg) w = (Ret None, md', w @ [(rq, up)])"
    using request_succeeds [OF assms(1), of J script qsrt w None "Some md" host bucket location cred "mConnectionRetries cfg"]
      assms(3) by auto
  with assms(2) show ?thesis by (auto simp: get_json_def accepting_def)
qed

lemma doSend_succeeds:
  assumes "addressable (wr_configuration wr) (wr_bucket wr) (wr_key wr)" and "list_all IS_URL_CHAR (wr_upload_id wr)"
    and "length (wr_upload_id wr) < 30000" and "to_int32 (wr_part_num wr) = wr_part_num wr"
    and "accepting script w" and "0 \<le> n" and "n \<le> int (length block)"
  shows "\<exists>w'. doSend (scripted J script) block n (wr, w) =
           (Ret (), wr\<lparr>wr_part_num := to_int32 (wr_part_num wr + 1)\<rparr>, w') \<and> accepting script w'"
proof -
  obtain pq where url: "qs_parse_url blank_url (part_url wr) = Ret pq"
    using writer_urls_parse(1) [OF assms(1-4)] by blast
  let ?md = "\<lparr>md_block = block, md_advance = 0, md_sizeleft = nat n\<rparr>"
  obtain w' where "get_json (scripted J script) (wr_configuration wr) (writer_host wr) (part_url wr) (Some (wr_bucket wr))
      None (wr_cred wr) QSRT_UPLOAD_MP (Some ?md) w = (Ret None, w')" "accepting script w'"
    using accepted_request [OF url assms(5), of QSRT_UPLOAD_MP] by blast
  with assms(6,7) show ?thesis
    by (simp add: doSend_def then_call_def uploadMultipart_def rethrowing_def)
qed

lemma transfer_loop_succeeds:
  "writable wr \<Longrightarrow> accepting script w \<Longrightarrow>
     \<exists>wr' w'. transfer_loop (scripted J script) input (wr, w) = Some (Ret (), wr', w') \<and> writable wr' \<and>
       same_upload wr wr' \<and> accepting script w'"
proof (induction "length input" arbitrary: input wr w rule: less_induct)
  case less
  have c: "caching wr" using less.prems(1) by (simp add: writable_def)
  show ?case
  proof (cases "input = []")
    case True
    with less.prems show ?thesis by (simp add: transfer_loop.simps same_upload_def)
  next
    case False
    define n where "n = min (length (buffer_block wr) - wr_write_pos wr) (length input)"
    define b where "b = overwrite (wr_write_pos wr) (take n input) (buffer_block wr)"
    define full where "full = wr\<lparr>wr_buffer := Some b, wr_write_pos := wr_write_pos wr + n\<rparr>"
    note step = transfer_step [OF c False, folded n_def, folded b_def, folded full_def]
    have room: "wr_write_pos wr < length b" using c step(3) by (auto simp: caching_def buffer_block_def)
    show ?thesis
    proof (cases "wr_write_pos wr + n = length b")
      case True
      define wr1 where "wr1 = full\<lparr>wr_part_num := to_int32 (wr_part_num full + 1)\<rparr>"
      obtain w1 where send: "doSend (scripted J script) b (int (length b)) (full, w) = (Ret (), wr1, w1)" "accepting script w1"
        using doSend_succeeds [of full script w "int (length b)" b J] less.prems
        by (auto simp: full_def wr1_def writable_def caching_def)
      have "writable (wr1\<lparr>wr_write_pos := 0\<rparr>)"
        using less.prems(1) room step(4) to_int32_add [of "wr_part_num wr + 1" 0]
        by (auto simp: writable_def caching_def wr1_def full_def)
      moreover have "length (drop n input) < length input" using step(2) False by simp
      ultimately obtain wr' w' where "transfer_loop (scripted J script) (drop n input) (wr1\<lparr>wr_write_pos := 0\<rparr>, w1) =
          Some (Ret (), wr', w')" "writable wr'" "same_upload (wr1\<lparr>wr_write_pos := 0\<rparr>) wr'" "accepting script w'"
        using less.hyps send(2) by blast
      moreover have "same_upload wr (wr1\<lparr>wr_write_pos := 0\<rparr>)" by (simp add: same_upload_def wr1_def full_def)
      ultimately show ?thesis
        using step(1) [of "scripted J script" w] True send(1) by (auto intro: same_upload_trans)
    next
      case False
      have "n \<le> length (buffer_block wr) - wr_write_pos wr" by (simp add: n_def)
      then have "wr_write_pos wr + n < length b" using False room step(3) by linarith
      then have "writable full" using less.prems(1) step(4) by (auto simp: writable_def caching_def full_def)
      with False less.prems(2) step(1) [of "scripted J script" w] show ?thesis by (simp add: same_upload_def full_def)
    qed
  qed
qed

lemma write_all_succeeds:
  "writable wr \<Longrightarrow> accepting script w \<Longrightarrow>
     \<exists>wr' w'. write_all (scripted J script) inputs (wr, w) = Some (Ret (), wr', w') \<and> writable wr' \<and>
       same_upload wr wr' \<and> accepting script w'"
proof (induction inputs arbitrary: wr w)
  case Nil
  then show ?case by (simp add: same_upload_def)
next
  case (Cons b bs)
  obtain wr1 w1 where "transferData (scripted J script) b (wr, w) = Some (Ret (), wr1, w1)" "writable wr1"
      "same_upload wr wr1" "accepting script w1"
    using transfer_loop_succeeds [OF Cons.prems, of J b] transferData_caching [of wr "scripted J script" b w] Cons.prems(1)
    by (auto simp: writable_def)
  with Cons.IH [of wr1 w1] show ?case by (auto intro: same_upload_trans)
qed

lemma close_succeeds:
  assumes "writable wr" and "accepting script w" and "\<not> wr_canceled wr"
  shows "\<exists>wr' w'. writer_close (scripted J script) (wr, w) = (Ret (), wr', w')"
proof -
  have c: "caching wr" using assms(1) by (simp add: writable_def)
  then have pos: "int (wr_write_pos wr) \<le> int (length (buffer_block wr))"
      "to_int32 (int (wr_write_pos wr)) = int (wr_write_pos wr)" "to_int32 (wr_part_num wr) = wr_part_num wr"
      and cache: "wr_cache wr"
    by (auto simp: caching_def buffer_block_def)
  define wr1 where "wr1 = wr\<lparr>wr_part_num := to_int32 (wr_part_num wr + 1), wr_write_pos := 0\<rparr>"
  obtain w1 where send: "doSend (scripted J script) (buffer_block wr) (int (wr_write_pos wr)) (wr, w) =
      (Ret (), wr\<lparr>wr_part_num := to_int32 (wr_part_num wr + 1)\<rparr>, w1)" "accepting script w1"
    using doSend_succeeds [of wr script w "int (wr_write_pos wr)" "buffer_block wr" J] assms(1,2) pos
    by (auto simp: writable_def)
  then have flush: "writer_flush (scripted J script) (wr, w) = (Ret (), wr1, w1)"
    by (simp add: writer_flush_def Let_def cache pos(2) then_call_def wr1_def)
  obtain pq where url: "qs_parse_url blank_url (upload_url wr1) = Ret pq"
    using writer_urls_parse(2) [of wr1 blank_url] assms(1) by (auto simp: writable_def wr1_def)
  let ?body = "json_to_string J (parts_body J (wr_part_num wr1))"
  obtain w2 where "get_json (scripted J script) (wr_configuration wr1) (writer_host wr1) (upload_url wr1) (Some (wr_bucket wr1))
      None (wr_cred wr1) QSRT_COMP_MP_UPLOAD (Some \<lparr>md_block = ?body, md_advance = 0, md_sizeleft = length ?body\<rparr>) w1 = (Ret None, w2)"
    using accepted_request [OF url send(2), of QSRT_COMP_MP_UPLOAD] by blast
  then show ?thesis
    using assms(3) flush
    by (simp add: writer_close_def then_call_def completeMultipartUpload_def rethrowing_def Let_def wr1_def)
qed

lemma collected_text:
  assumes "NUL \<notin> set t" shows "buffer_text (run_writes [t] empty_buffer) = Some t"
proof -
  have nul: "takeWhile (\<lambda>c. c \<noteq> NUL) t = t" using assms by (auto simp: takeWhile_eq_all_conv)
  have "buffer_content (run_writes [t] empty_buffer) = t"
    using response.fold_concat [of empty_buffer "[t]"] by (simp add: run_writes_def empty_buffer_def buffer_ok_def buffer_content_def)
  moreover have "bi_data (run_writes [t] empty_buffer) \<noteq> None" by (simp add: run_writes_data)
  ultimately show ?thesis by (auto simp: buffer_text_def buffer_content_def nul)
qed

text \<open>The opening request, answered with an upload id and the key.\<close>

lemma open_succeeds:
  assumes "addressable cfg bucket key" and "json_tokener_parse J t = Some j"
    and "json_get_ex J j ''upload_id'' = Some ju" and "json_get_string J ju = Some uid"
    and "json_get_ex J j ''key'' = Some jk" and "json_get_string J jk = Some key2"
    and "script (length w) = json_response t" and "NUL \<notin> set t"
    and "0 < mChunkSize cfg" and "mChunkSize cfg < 2 ^ 31"
  shows "\<exists>wr rq up. QingStorWriter (scripted J script) cfg bucket key True w = (Ret wr, w @ [(rq, up)]) \<and>
           wr_configuration wr = cfg \<and> wr_bucket wr = bucket \<and> wr_upload_id wr = uid \<and> wr_key wr = key2 \<and>
           caching wr \<and> \<not> wr_canceled wr"
proof -
  let ?url = "object_url cfg (bucket_host cfg bucket) key @ ''?uploads''"
  have "list_all IS_URL_CHAR ''uploads''" by (simp add: IS_URL_CHAR_iff)
  then obtain pq where url: "qs_parse_url blank_url ?url = Ret pq"
    using object_url_parses [OF assms(1), of "''uploads''" blank_url] by auto
  have "handle_response (scripted J script) QSRT_INIT_MP_UPLOAD (script (length w)) = Ret (Some j)"
    by (simp add: assms(7) json_response_def handle_response_def Let_def collected_text [OF assms(8)] assms(2))
  then obtain rq up md' where "DoGetJSON (scripted J script) (bucket_host cfg bucket) ?url (Some bucket) None (config_cred cfg)
      QSRT_INIT_MP_UPLOAD None (mConnectionRetries cfg) w = (Ret (Some j), md', w @ [(rq, up)])"
    using request_succeeds [OF url, of J script QSRT_INIT_MP_UPLOAD w "Some j" None "bucket_host cfg bucket" "Some bucket"
        None "config_cred cfg" "mConnectionRetries cfg"] by (auto simp: is_upload_def)
  then show ?thesis
    using assms(3-6,9,10)
    by (auto simp: QingStorWriter_def Let_def initMultipartUpload_def rethrowing_def then_call_def get_json_def
        extractUploadIDContent_def json_std_string_def blank_writer_def caching_def)
qed

section \<open>Properties\<close>

text \<open>A small configuration and a server that answers the opening request and accepts the rest.\<close>

definition example_config :: "int \<Rightarrow> Configuration" where
  "example_config c = (Configuration_direct ''pek'' ''id'' ''key'' c)\<lparr>mHost := ''h'', mProtocol := ''http''\<rparr>"

definition example_opened :: json where
  "example_opened = JObj [(''upload_id'', JStr ''u''), (''key'', JStr ''k'')]"

definition example_json :: "json json_api" where
  "example_json = json_values (\<lambda>t. if t = ''opened'' then Some example_opened else None)"

definition example_script :: "nat \<Rightarrow> response" where
  "example_script n = (if n = 0 then json_response ''opened'' else ok_response)"

lemma example_addressable: "addressable (example_config c) ''b'' ''k''"
  by (simp add: addressable_def example_config_def Configuration_direct_def bucket_host_def object_url_def
      IS_ALPHA_iff IS_HOST_CHAR_def IS_ALPHANUM_def IS_URL_CHAR_iff)

lemma example_json_facts:
  "json_tokener_parse example_json ''opened'' = Some example_opened"
  "json_get_ex example_json example_opened ''upload_id'' = Some (JStr ''u'')"
  "json_get_ex example_json example_opened ''key'' = Some (JStr ''k'')"
  "json_get_string example_json (JStr t) = Some t"
  by (simp_all add: example_json_def json_values_def example_opened_def)

lemma example_opening: "example_script (length []) = json_response ''opened''" "NUL \<notin> set ''opened''"
  by (simp_all add: example_script_def)

lemma example_chunk: "mChunkSize (example_config c) = c"
  by (simp add: example_config_def Configuration_direct_def)

lemma careful_example: "careful example_script = example_script"
  by (rule ext) (simp add: careful_def example_script_def json_response_def ok_response_def accepted_response_def)

lemma example_upload:
  assumes "0 < c" and "c < 2 ^ 31"
  shows "\<exists>wr w1 wr2 w2 wr3 w3. QingStorWriter (scripted example_json (careful example_script)) (example_config c) ''b'' ''k'' True [] = (Ret wr, w1) \<and>
    write_all (scripted example_json (careful example_script)) inputs (wr, w1) = Some (Ret (), wr2, w2) \<and>
    writer_close (scripted example_json (careful example_script)) (wr2, w2) = (Ret (), wr3, w3) \<and> caching wr \<and> accepting example_script w1"
proof -
  let ?E = "scripted example_json example_script"
  obtain wr rq up where w: "QingStorWriter ?E (example_config c) ''b'' ''k'' True [] = (Ret wr, [(rq, up)])"
      "wr_configuration wr = example_config c" "wr_bucket wr = ''b''" "wr_upload_id wr = ''u''" "wr_key wr = ''k''"
      "caching wr" "\<not> wr_canceled wr"
    using open_succeeds [where script = example_script and w = "[]", OF example_addressable example_json_facts(1,2,4,3,4)
        example_opening, of c] assms
    by (auto simp: example_chunk)
  have wr: "writable wr" using w example_addressable [of c] by (simp add: writable_def IS_URL_CHAR_iff)
  have ac: "accepting example_script [(rq, up)]"
    by (simp add: accepting_def example_script_def accepted_response_def ok_response_def)
  obtain wr2 w2 where all: "write_all ?E inputs (wr, [(rq, up)]) = Some (Ret (), wr2, w2)" "writable wr2"
      "same_upload wr wr2" "accepting example_script w2"
    using write_all_succeeds [OF wr ac] by blast
  have "\<not> wr_canceled wr2" using w(7) same_uploadD(3) [OF all(3)] by simp
  then obtain wr3 w3 where "writer_close ?E (wr2, w2) = (Ret (), wr3, w3)"
    using close_succeeds [OF all(2,4)] by blast
  with w(1,6) all(1) ac show ?thesis unfolding careful_example by blast
qed



text \<open>
  C21. A write to a cached object ends whatever the transport answers, and what it leaves is
  again a writer with a buffer that is not full, if no part failed.
\<close>

theorem transferData_ends:
  assumes "caching wr"
  shows "\<exists>r wr' w'. transferData E input (wr, w) = Some (r, wr', w')"
  using transfer_loop_ends [OF assms, of E input w] by (auto simp: transferData_caching [OF assms])

theorem transferData_ends_witness:
  "\<exists>wr. caching wr \<and> (\<exists>r wr' w'. transferData (scripted example_json example_script) ''abc'' (wr, []) = Some (r, wr', w'))"
proof -
  obtain wr where "caching wr" using example_upload [of 2 "[]"] by auto
  from transferData_ends [OF this, of "scripted example_json example_script" "''abc''" "[]"] this show ?thesis by blast
qed

lemma zero_chunk_loop:
  assumes "transfer_loop E input s = Some y"
  shows "wr_buff_size (fst s) = 0 \<Longrightarrow> wr_write_pos (fst s) = 0 \<Longrightarrow> input \<noteq> [] \<Longrightarrow> fst y \<noteq> Ret ()"
  using assms
proof (induction rule: transfer_loop.raw_induct [rotated, consumes 1])
  case (1 loop E input s y)
  obtain wr w where s: "s = (wr, w)" by (cases s)
  have fill: "fill_buffer 0 (buffer_block wr) 0 input = (buffer_block wr, 0, input)" using 1(5) by (cases input) auto
  obtain r wr1 w1 where send: "doSend E (buffer_block wr) 0
      (wr\<lparr>wr_buffer := Some (buffer_block wr), wr_write_pos := 0\<rparr>, w) = (r, wr1, w1)"
    by (metis prod_cases3)
  show ?case
  proof (cases r)
    case (Ret v)
    have "wr_buff_size wr1 = 0" using doSend_frame(3) [OF send [unfolded Ret]] 1(3) s by simp
    moreover have "loop E input (wr1\<lparr>wr_write_pos := 0\<rparr>, w1) = Some y"
      using 1(2-5) s fill send Ret by simp
    ultimately show ?thesis using 1(1) [of E input "(wr1\<lparr>wr_write_pos := 0\<rparr>, w1)" y] 1(5) by simp
  qed (use 1(2-5) s fill send in auto)
qed



lemma upload_total:
  assumes "addressable cfg bucket key" and "addressable cfg bucket key2" and "json_tokener_parse J t = Some j"
    and "json_get_ex J j ''upload_id'' = Some ju" and "json_get_string J ju = Some uid"
    and "json_get_ex J j ''key'' = Some jk" and "json_get_string J jk = Some key2"
    and "list_all IS_URL_CHAR uid" and "length uid < 30000"
    and "script (length w) = json_response t" and "NUL \<notin> set t"
    and "\<And>i. length w < i \<Longrightarrow> accepted_response (script i)"
    and "0 < mChunkSize cfg" and "mChunkSize cfg < 2 ^ 31"
  shows "\<exists>wr w1 wr2 w2 wr3 w3. QingStorWriter (scripted J script) cfg bucket key True w = (Ret wr, w1) \<and>
           write_all (scripted J script) inputs (wr, w1) = Some (Ret (), wr2, w2) \<and>
           writer_close (scripted J script) (wr2, w2) = (Ret (), wr3, w3)"
proof -
  obtain wr rq up where o: "QingStorWriter (scripted J script) cfg bucket key True w = (Ret wr, w @ [(rq, up)])"
      "wr_configuration wr = cfg" "wr_bucket wr = bucket" "wr_upload_id wr = uid" "wr_key wr = key2" "caching wr" "\<not> wr_canceled wr"
    using open_succeeds [where script = script and w = w, OF assms(1,3-7,10,11,13,14)] by blast
  have "writable wr" using o assms(2,8,9) by (simp add: writable_def)
  moreover have "accepting script (w @ [(rq, up)])" using assms(12) by (simp add: accepting_def)
  ultimately obtain wr2 w2 where all: "write_all (scripted J script) inputs (wr, w @ [(rq, up)]) = Some (Ret (), wr2, w2)"
      "writable wr2" "same_upload wr wr2" "accepting script w2"
    using write_all_succeeds by blast
  moreover have "\<not> wr_canceled wr2" using o(7) same_uploadD(3) [OF all(3)] by simp
  ultimately show ?thesis using o(1) close_succeeds [of wr2 script w2 J] by blast
qed

text \<open>
  C20. An upload succeeds when the server answers the opening request with an upload id and a
  key and accepts all that follows: open, any number of writes and close return without an
  exception, for every chunk size an \<open>int32_t\<close> holds.
\<close>

theorem upload_succeeds:
  assumes "addressable cfg bucket key" and "addressable cfg bucket key2" and "json_tokener_parse J t = Some j"
    and "json_get_ex J j ''upload_id'' = Some ju" and "json_get_string J ju = Some uid"
    and "json_get_ex J j ''key'' = Some jk" and "json_get_string J jk = Some key2"
    and "list_all IS_URL_CHAR uid" and "length uid < 30000"
    and "script (length w) = json_response t" and "NUL \<notin> set t"
    and "\<And>i. length w < i \<Longrightarrow> accepted_response (script i)"
    and "0 < mChunkSize cfg" and "mChunkSize cfg < 2 ^ 31"
  shows "\<exists>wr w1 wr2 w2 wr3 w3. QingStorWriter (scripted J script) cfg bucket key True w = (Ret wr, w1) \<and>
           write_all (scripted J script) inputs (wr, w1) = Some (Ret (), wr2, w2) \<and>
           writer_close (scripted J script) (wr2, w2) = (Ret (), wr3, w3)"
  using assms by (rule upload_total)

theorem upload_succeeds_witness:
  "\<exists>wr w1 wr2 w2 wr3 w3. QingStorWriter (scripted example_json example_script) (example_config 4) ''b'' ''k'' True [] = (Ret wr, w1) \<and>
     write_all (scripted example_json example_script) [''abcdef''] (wr, w1) = Some (Ret (), wr2, w2) \<and>
     writer_close (scripted example_json example_script) (wr2, w2) = (Ret (), wr3, w3)"
  by (rule upload_succeeds [where script = example_script and w = "[]", OF example_addressable example_addressable
        example_json_facts(1,2,4,3,4) _ _ example_opening])
     (auto simp: IS_URL_CHAR_iff example_chunk example_script_def accepted_response_def ok_response_def)

lemma huge_chunk_step:
  assumes "wr_cache wr" and "wr_buff_size wr = 2 ^ 32" and "wr_buffer wr = Some b" and "wr_write_pos wr = 2 ^ 32 - 1"
  shows "transferData E [c] (wr, w) =
    (case doSend E (b[2 ^ 32 - 1 := c]) 0 (wr\<lparr>wr_buffer := Some (b[2 ^ 32 - 1 := c]), wr_write_pos := 2 ^ 32\<rparr>, w) of
       (Ret v, wr1, w1) \<Rightarrow> Some (Ret (), wr1\<lparr>wr_write_pos := 0\<rparr>, w1)
     | r \<Rightarrow> Some r)"
proof -
  have to: "to_int32 4294967296 = 0" by (simp add: to_int32_def)
  have nil: "transfer_loop E [] s = Some (Ret (), s)" for s by (subst transfer_loop.simps) simp
  show ?thesis
    using assms
    by (subst transferData_def, subst transfer_loop.simps)
      (simp add: buffer_block_def to nil split: prod.split outcome.split)
qed

text \<open>
  C23. The length of a full buffer reaches \<open>doSend\<close> as an \<open>int32_t\<close>: with a chunk size of
  4 GiB the write that fills the buffer sends an empty part, drops the 4 GiB it held and
  reports success.
\<close>

theorem huge_chunk_dropped:
  assumes "wr_cache wr" and "wr_buff_size wr = 2 ^ 32" and "wr_buffer wr = Some b" and "length b = 2 ^ 32"
    and "wr_write_pos wr = 2 ^ 32 - 1"
    and "transferData (scripted J (careful script)) [c] (wr, w) = Some (Ret u, wr', w')"
  shows "length (pending wr) = 2 ^ 32 - 1 \<and> pending wr' = [] \<and>
         stored_parts script w' = stored_parts script w @ [[]]"
proof -
  obtain v wr1 where send: "doSend (scripted J (careful script)) (b[2 ^ 32 - 1 := c]) 0
      (wr\<lparr>wr_buffer := Some (b[2 ^ 32 - 1 := c]), wr_write_pos := 2 ^ 32\<rparr>, w) = (Ret v, wr1, w')"
    and "wr' = wr1\<lparr>wr_write_pos := 0\<rparr>"
    using assms(6) unfolding huge_chunk_step [OF assms(1-3,5)] by (auto split: prod.splits outcome.splits)
  with net.doSend_Ret [OF send] assms(3-5) show ?thesis by (simp add: pending_def buffer_block_def)
qed

theorem huge_chunk_dropped_witness:
  "\<exists>wr wr' w'. length (pending wr) = 2 ^ 32 - 1 \<and> pending wr' = [] \<and>
     transferData (scripted example_json (careful (\<lambda>_. ok_response))) ''x'' (wr, []) = Some (Ret (), wr', w') \<and>
     stored_parts (\<lambda>_. ok_response) w' = [[]]"
proof -
  let ?E = "scripted example_json (careful (\<lambda>_. ok_response))"
  define b where "b = replicate (2 ^ 32) NUL"
  have b: "length b = 2 ^ 32" by (simp add: b_def)
  define wr where "wr = (blank_writer (example_config (2 ^ 32)) ''b'' ''k'')
    \<lparr>wr_key := ''k'', wr_upload_id := ''u'', wr_buffer := Some b, wr_buff_size := 2 ^ 32, wr_write_pos := 2 ^ 32 - 1, wr_cache := True\<rparr>"
  let ?full = "wr\<lparr>wr_buffer := Some (b[2 ^ 32 - 1 := CHR ''x'']), wr_write_pos := 2 ^ 32\<rparr>"
  have wr: "wr_cache wr" "wr_buff_size wr = 2 ^ 32" "wr_buffer wr = Some b" "wr_write_pos wr = 2 ^ 32 - 1"
    by (simp_all add: wr_def)
  have "accepting (careful (\<lambda>_. ok_response)) []"
    by (simp add: accepting_def) (simp add: accepted_response_def ok_response_def)
  then obtain w' where "doSend ?E (b[2 ^ 32 - 1 := CHR ''x'']) 0 (?full, []) =
      (Ret (), ?full\<lparr>wr_part_num := to_int32 (wr_part_num ?full + 1)\<rparr>, w')"
    using doSend_succeeds [of ?full "careful (\<lambda>_. ok_response)" "[]" 0 "b[2 ^ 32 - 1 := CHR ''x'']" example_json]
      example_addressable [of "2 ^ 32"]
    by (auto simp: wr_def blank_writer_def IS_URL_CHAR_iff)
  then have run: "\<exists>wr'. transferData ?E ''x'' (wr, []) = Some (Ret (), wr', w')"
    using huge_chunk_step [OF wr, of ?E "CHR ''x''" "[]"] by simp
  then obtain wr' where run: "transferData ?E ''x'' (wr, []) = Some (Ret (), wr', w')" by blast
  from huge_chunk_dropped [OF wr(1-3) b wr(4) run, unfolded stored_parts_Nil append_Nil] run show ?thesis by blast
qed

text \<open>
  The completion request names exactly the parts \<open>0 .. n - 1\<close>, in order, the numbers the
  parts were sent under.
\<close>

theorem completion_names_parts:
  "parts_body (json_values parse) (int n) =
     JObj [(''object_parts'', JArr (map (\<lambda>i. JObj [(''part_number'', JInt (int i))]) [0..<n]))]"
proof -
  let ?J = "json_values parse"
  let ?add = "\<lambda>i arr. json_array_add ?J arr (json_object_add ?J (json_new_object ?J) ''part_number'' (json_new_int ?J (int i)))"
  have "fold ?add is (JArr js) = JArr (js @ map (\<lambda>i. JObj [(''part_number'', JInt (int i))]) is)" for "is" js
    by (induction "is" arbitrary: js) (simp_all add: json_values_def)
  from this [of "[0..<n]" "[]"] show ?thesis by (simp add: parts_body_def) (simp add: json_values_def)
qed

end
