(* ===== verification/QS_Context_Facts.thy ===== *)
theory QS_Context_Facts
  imports QS_Context QS_Writer_Facts "HOL-Library.Multiset"
begin

text \<open>
  Properties of the context operations: a listing in pages is the whole bucket, sorted.
\<close>

section \<open>One page\<close>

text \<open>The JSON of a page as the service documents it.\<close>

definition object_json :: "ObjectInfo \<Rightarrow> json" where
  "object_json ob = JObj [(''key'', JStr (obj_key ob)), (''size'', JInt (obj_size ob))]"

definition listing_json :: "string \<Rightarrow> string \<Rightarrow> nat \<Rightarrow> ObjectInfo list \<Rightarrow> json" where
  "listing_json nm pf l obs =
     JObj [(''name'', JStr nm), (''prefix'', JStr pf), (''limit'', JInt (int l)), (''keys'', JArr (map object_json obs))]"

definition unranged :: "ObjectInfo \<Rightarrow> ObjectInfo" where
  "unranged ob = ob\<lparr>obj_range := unset_range\<rparr>"

lemma json_values_simps:
  "json_get_ex (json_values parse) (JObj kvs) k = map_of kvs k"
  "json_std_string (json_values parse) (JStr s) = Ret s"
  "json_get_int (json_values parse) (JInt i) = i" "json_get_int64 (json_values parse) (JInt i) = i"
  "json_array_length (json_values parse) (JArr js) = int (length js)"
  "n < length js \<Longrightarrow> json_array_get_idx (json_values parse) (JArr js) n = js ! n"
  by (simp_all add: json_values_def json_std_string_def)

lemma object_item_json:
  "object_item (json_values parse) (object_json ob) r k = k (unranged ob)"
  by (cases ob) (simp add: object_item_def object_json_def field_or_def json_values_simps unranged_def)

lemma object_items_page:
  "m \<le> length obs \<Longrightarrow>
   object_items (json_values parse) (JArr (map object_json obs)) [m..<length obs] (res, marker, eof) =
     Ret (True, res\<lparr>lor_objects := lor_objects res @ map unranged (drop m obs)\<rparr>,
          if m < length obs then obj_key (last obs) else marker, eof)"
proof (induction "length obs - m" arbitrary: m res marker)
  case 0
  then have "m = length obs" by simp
  then show ?case by (cases res) simp
next
  case (Suc n)
  then have m: "m < length obs" by simp
  have range: "[m..<length obs] = m # [Suc m..<length obs]" using m by (simp add: upt_rec)
  have drop: "drop m obs = obs ! m # drop (Suc m) obs" using m by (simp add: Cons_nth_drop_Suc)
  have last: "Suc m = length obs \<Longrightarrow> obj_key (unranged (obs ! m)) = obj_key (last obs)"
    by (cases obs) (auto simp: last_conv_nth unranged_def)
  have el: "json_array_get_idx (json_values parse) (JArr (map object_json obs)) m = object_json (obs ! m)"
    using m by (simp add: json_values_simps)
  let ?res = "res\<lparr>lor_objects := lor_objects res @ [unranged (obs ! m)]\<rparr>"
  let ?marker = "if int m = int (length obs) - 1 then obj_key (unranged (obs ! m)) else marker"
  have "object_items (json_values parse) (JArr (map object_json obs)) [Suc m..<length obs] (?res, ?marker, eof) =
     Ret (True, ?res\<lparr>lor_objects := lor_objects ?res @ map unranged (drop (Suc m) obs)\<rparr>,
          if Suc m < length obs then obj_key (last obs) else ?marker, eof)"
    by (rule Suc.hyps(1)) (use Suc.hyps(2) m in auto)
  moreover have "(if Suc m < length obs then obj_key (last obs) else ?marker) = obj_key (last obs)"
    using m last by auto
  ultimately show ?case
    using m by (simp add: range drop el object_item_json json_values_simps)
qed

lemma extract_page:
  assumes "l < 2 ^ 31"
  shows "extractListObjectContent (json_values parse) (Some (listing_json nm pf l obs)) (res, marker, eof) =
    Ret (True, \<lparr>lor_name = nm, lor_prefix = pf, lor_limit = of_nat l,
                lor_objects = sort_objects (lor_objects res @ map unranged obs)\<rparr>,
         if obs = [] then marker else obj_key (last obs), obs = [] \<or> length obs < l \<or> eof)"
proof -
  have "sint (of_nat l :: u32) = int l"
    using assms by (simp add: signed_of_nat signed_take_bit_int_eq_self)
  then show ?thesis
    using object_items_page [of 0 obs parse "res\<lparr>lor_name := nm, lor_prefix := pf, lor_limit := of_nat l\<rparr>" marker
        "obs = [] \<or> length obs < l \<or> eof"]
    by (cases res) (auto simp: extractListObjectContent_def listing_json_def field_or_def json_values_simps Let_def)
qed

section \<open>A paging server\<close>

text \<open>The page a server gives for a marker: the objects after it, at most \<open>l\<close>.\<close>

definition page_after :: "ObjectInfo list \<Rightarrow> nat \<Rightarrow> string \<Rightarrow> ObjectInfo list" where
  "page_after obs l m = take l (if m = [] then obs else drop 1 (dropWhile (\<lambda>ob. obj_key ob \<noteq> m) obs))"

definition marker_at :: "ObjectInfo list \<Rightarrow> nat \<Rightarrow> string" where
  "marker_at obs k = (if k = 0 then [] else obj_key (obs ! (k - 1)))"

lemma page_after_marker:
  assumes "distinct (map obj_key obs)" and "\<forall>ob \<in> set obs. obj_key ob \<noteq> []" and "k \<le> length obs"
  shows "page_after obs l (marker_at obs k) = take l (drop k obs)"
proof (cases k)
  case (Suc i)
  then have i: "i < length obs" using assms(3) by simp
  have before: "obj_key (obs ! j) \<noteq> obj_key (obs ! i)" if "j < i" for j
    using assms(1) that i by (auto simp: distinct_conv_nth)
  have "dropWhile (\<lambda>ob. obj_key ob \<noteq> obj_key (obs ! i)) obs = drop i obs"
  proof -
    have "takeWhile (\<lambda>ob. obj_key ob \<noteq> obj_key (obs ! i)) obs = take i obs"
      by (rule takeWhile_eq_take_P_nth) (use before i in auto)
    then have "length (takeWhile (\<lambda>ob. obj_key ob \<noteq> obj_key (obs ! i)) obs) = i" using i by simp
    then show ?thesis by (metis dropWhile_eq_drop)
  qed
  with assms(2) i show ?thesis by (simp add: page_after_def marker_at_def Suc)
qed (simp add: page_after_def marker_at_def)

lemma sort_objects_append:
  assumes "distinct (map obj_key (xs @ ys))"
  shows "sort_objects (sort_objects xs @ ys) = sort_objects (xs @ ys)"
proof -
  have "sort_key obj_key (sort_key obj_key xs @ ys) = sort_key obj_key (xs @ ys)"
  proof (rule sort_key_inj_key_eq)
    have "inj_on obj_key (set (xs @ ys))" using assms unfolding distinct_map by blast
    then show "inj_on obj_key (set (sort_key obj_key xs @ ys))" by simp
  qed simp_all
  then show ?thesis by (simp add: sort_objects_def)
qed

definition list_request :: "('j, 'w) http_env \<Rightarrow> Configuration \<Rightarrow> string \<Rightarrow> string \<Rightarrow> string \<Rightarrow> ('j option, 'w) call" where
  "list_request E cfg bucket prefix m =
     get_json E cfg (bucket_host cfg bucket) (list_url cfg (bucket_host cfg bucket) prefix m) (Some bucket) None
       (config_cred cfg) QSRT_LIST_OBJECT None"

text \<open>The server holds \<open>obs\<close> and answers the request for every marker it can be asked for.\<close>

definition pages :: "(json, 'w) http_env \<Rightarrow> Configuration \<Rightarrow> string \<Rightarrow> string \<Rightarrow> string \<Rightarrow> string \<Rightarrow> nat \<Rightarrow> ObjectInfo list \<Rightarrow> bool" where
  "pages E cfg bucket prefix nm pf l obs \<longleftrightarrow>
     (\<forall>m \<in> insert [] (obj_key ` set obs). \<forall>w. \<exists>w'. list_request E cfg bucket prefix m w =
        (Ret (Some (listing_json nm pf l (page_after obs l m))), w'))"

lemma list_page_step:
  assumes "env_json E = json_values parse" and "l < 2 ^ 31"
    and "list_request E cfg bucket prefix marker w = (Ret (Some (listing_json nm pf l page)), w')"
  shows "list_page E cfg bucket prefix again (res, marker, eof) w =
    (Ret (\<lparr>lor_name = nm, lor_prefix = pf, lor_limit = of_nat l,
           lor_objects = sort_objects (lor_objects res @ map unranged page)\<rparr>,
          if page = [] then marker else obj_key (last page), page = [] \<or> length page < l \<or> eof), w')"
  using assms(3) extract_page [OF assms(2), of parse nm pf page res marker eof]
  by (simp add: list_page_def rethrowing_def then_call_def Let_def list_request_def released_twice_def assms(1))

lemma list_loop_complete:
  assumes "env_json E = json_values parse" and "0 < l" and "l < 2 ^ 31"
    and obs: "distinct (map obj_key obs)" "\<forall>ob \<in> set obs. obj_key ob \<noteq> []"
    and server: "pages E cfg bucket prefix nm pf l obs"
  shows "k \<le> length obs \<Longrightarrow> lor_objects res = sort_objects (map unranged (take k obs)) \<Longrightarrow>
    \<exists>w'. list_loop E cfg bucket prefix again (res, marker_at obs k, False) w =
      Some (Ret \<lparr>lor_name = nm, lor_prefix = pf, lor_limit = of_nat l, lor_objects = sort_objects (map unranged obs)\<rparr>, w')"
proof (induction "length obs - k" arbitrary: k again res w rule: less_induct)
  case less
  have "marker_at obs k \<in> insert [] (obj_key ` set obs)"
    using less.prems(1) by (auto simp: marker_at_def)
  then obtain w' where "list_request E cfg bucket prefix (marker_at obs k) w =
      (Ret (Some (listing_json nm pf l (page_after obs l (marker_at obs k)))), w')"
    using server unfolding pages_def by blast
  then have request: "list_request E cfg bucket prefix (marker_at obs k) w =
      (Ret (Some (listing_json nm pf l (take l (drop k obs)))), w')"
    by (simp only: page_after_marker [OF obs less.prems(1)])
  let ?page = "take l (drop k obs)"
  have keys: "map obj_key (map unranged xs) = map obj_key xs" for xs by (simp add: unranged_def)
  have "distinct (map obj_key (map unranged (take k obs) @ map unranged ?page))"
    using obs(1) unfolding map_append [symmetric] keys
    by (metis append_take_drop_id distinct_append map_append take_add take_map distinct_take)
  then have "sort_objects (lor_objects res @ map unranged ?page) = sort_objects (map unranged (take k obs) @ map unranged ?page)"
    unfolding less.prems(2) by (rule sort_objects_append)
  also have "\<dots> = sort_objects (map unranged (take (k + l) obs))" by (simp add: take_add)
  finally have sorted: "sort_objects (lor_objects res @ map unranged ?page) = sort_objects (map unranged (take (k + l) obs))" .
  note step = list_page_step [OF assms(1,3) request, of again res False, unfolded sorted]
  show ?case
  proof (cases "length obs - k < l")
    case True
    then have "take (k + l) obs = obs" "length ?page < l" by simp_all
    then show ?thesis using step by (subst list_loop.simps) simp
  next
    case False
    then have page: "length ?page = l" "?page \<noteq> []" using assms(2) by auto
    then have "last ?page = obs ! (k + l - 1)" using False by (simp add: last_conv_nth)
    then have "obj_key (last ?page) = marker_at obs (k + l)" using assms(2) by (simp add: marker_at_def)
    then have "list_loop E cfg bucket prefix again (res, marker_at obs k, False) w =
        list_loop E cfg bucket prefix True (\<lparr>lor_name = nm, lor_prefix = pf, lor_limit = of_nat l,
           lor_objects = sort_objects (map unranged (take (k + l) obs))\<rparr>, marker_at obs (k + l), False) w'"
      using step page by (subst list_loop.simps) simp
    moreover have "length obs - (k + l) < length obs - k" using False assms(2) by linarith
    ultimately show ?thesis using less.hyps [of "k + l"] False by simp
  qed
qed

lemma listObjects_all:
  assumes "env_json E = json_values parse" and "0 < l" and "l < 2 ^ 31"
    and "distinct (map obj_key obs)" and "\<forall>ob \<in> set obs. obj_key ob \<noteq> []"
    and "pages E cfg bucket prefix nm pf l obs"
  shows "\<exists>res w'. listObjects E cfg bucket prefix w = Some (Ret res, w') \<and>
           mset (lor_objects res) = mset (map unranged obs) \<and> sorted (map obj_key (lor_objects res)) \<and>
           lor_name res = nm \<and> lor_prefix res = pf"
  using list_loop_complete [OF assms, of 0 empty_listing False w]
  by (auto simp: listObjects_def marker_at_def empty_listing_def sort_objects_def)


text \<open>A server of two objects, one to a page, whose answer is looked up by the URL.\<close>

definition two_objects :: "ObjectInfo list" where
  "two_objects = [\<lparr>obj_key = ''b'', obj_size = 1, obj_range = unset_range\<rparr>,
                  \<lparr>obj_key = ''a'', obj_size = 2, obj_range = unset_range\<rparr>]"

definition two_pages :: "(string \<times> json) list" where
  "two_pages = map (\<lambda>m. (list_url (example_config 1) (bucket_host (example_config 1) ''b'') ''p'' m,
     listing_json ''b'' ''p'' 1 (page_after two_objects 1 m))) [[], ''b'', ''a'']"

definition paging_env :: "(string \<times> json) list \<Rightarrow> (json, unit) http_env" where
  "paging_env tab =
     \<lparr>env_json = json_values (map_of tab),
      env_init = (\<lambda>_. True),
      env_perform = (\<lambda>rq up w. (if map_of tab (rq_url rq) = None then failed_response [] else json_response (rq_url rq), w)),
      env_date = (\<lambda>_. ''now''), env_hmac = (\<lambda>k m. ''mac''), env_base64 = (\<lambda>s. s), env_strerror = (\<lambda>c. ''error'')\<rparr>"

lemma json_response_read:
  assumes "NUL \<notin> set t" and "json_tokener_parse (env_json E) t = Some j"
  shows "handle_response E QSRT_LIST_OBJECT (json_response t) = Ret (Some j)"
  using collected_text [OF assms(1)] assms(2) by (simp add: json_response_def handle_response_def Let_def)

lemma paging_env_simps [simp]:
  "env_perform (paging_env tab) rq up w =
     (if map_of tab (rq_url rq) = None then failed_response [] else json_response (rq_url rq), w)"
  "env_init (paging_env tab) w" "env_json (paging_env tab) = json_values (map_of tab)"
  by (simp_all add: paging_env_def)

lemma paging_headers:
  assumes "qs_parse_url blank_url url = Ret pq"
  shows "\<exists>h. request_headers (paging_env tab) blank_url (env_date (paging_env tab) w) host url bucket None cred QSRT_LIST_OBJECT None = Ret h"
  by (rule headers_succeed [OF assms]) (simp_all add: is_upload_def)

lemma paging_request:
  assumes "qs_parse_url blank_url url = Ret pq" and "NUL \<notin> set url" and "map_of tab url = Some j"
  shows "get_json (paging_env tab) cfg host url bucket None cred QSRT_LIST_OBJECT None w = (Ret (Some j), w)"
proof -
  obtain h where "request_headers (paging_env tab) blank_url (env_date (paging_env tab) w) host url bucket None cred QSRT_LIST_OBJECT None = Ret h"
    using paging_headers [OF assms(1)] by blast
  moreover have "json_tokener_parse (env_json (paging_env tab)) url = Some j"
    using assms(3) by (simp add: json_values_def)
  ultimately have "DoGetJSON_Internal (paging_env tab) host url bucket None cred QSRT_LIST_OBJECT None w = (Ret (Some j), None, w)"
    using json_response_read [OF assms(2), of "paging_env tab"] assms(3)
    by (simp add: DoGetJSON_Internal_def is_upload_def Let_def make_request_def)
  then have "DoGetJSON (paging_env tab) host url bucket None cred QSRT_LIST_OBJECT None (mConnectionRetries cfg) w = (Ret (Some j), None, w)"
    unfolding DoGetJSON_def by (subst retry_loop_step) (simp add: throws_def)
  then show ?thesis by (simp add: get_json_def)
qed

lemma missing_request:
  assumes "qs_parse_url blank_url url = Ret pq" and "map_of tab url = None"
  shows "\<exists>e. get_json (paging_env tab) cfg host url bucket None cred QSRT_LIST_OBJECT None w = (Throw e, w) \<and>
           is_a (exn_class e) QingStorException"
proof -
  obtain h where "request_headers (paging_env tab) blank_url (env_date (paging_env tab) w) host url bucket None cred QSRT_LIST_OBJECT None = Ret h"
    using paging_headers [OF assms(1)] by blast
  then have attempt: "\<exists>e. DoGetJSON_Internal (paging_env tab) host url bucket None cred QSRT_LIST_OBJECT None w = (Throw e, None, w) \<and>
      is_a (exn_class e) QingStorException"
    using assms(2)
    by (simp add: DoGetJSON_Internal_def is_upload_def Let_def make_request_def handle_response_def failed_response_def
        THROW_def mk_exn_def slice_exn_def is_a.simps)
  obtain r md' w' where loop: "DoGetJSON (paging_env tab) host url bucket None cred QSRT_LIST_OBJECT None (mConnectionRetries cfg) w = (r, md', w')"
    by (cases "DoGetJSON (paging_env tab) host url bucket None cred QSRT_LIST_OBJECT None (mConnectionRetries cfg) w")
  have "\<exists>md1 w1. (md1 = None \<and> w1 = w) \<and>
      DoGetJSON_Internal (paging_env tab) host url bucket None cred QSRT_LIST_OBJECT md1 w1 = (r, md', w')"
    by (rule retry_loop_last [OF _ _ loop [unfolded DoGetJSON_def]]) (use attempt in auto)
  with attempt loop show ?thesis by (auto simp: get_json_def)
qed

lemma list_url_parses:
  assumes "m \<in> {[], ''b'', ''a''}"
  shows "\<exists>pq. qs_parse_url blank_url (list_url (example_config 1) (bucket_host (example_config 1) ''b'') ''p'' m) = Ret pq"
proof -
  let ?q = "if m = [] then ''prefix=p'' else ''marker='' @ m @ ''&prefix=p''"
  have "addressable (example_config 1) ''b'' []"
    using example_addressable [of 1] by (auto simp: addressable_def object_url_def)
  moreover have "list_all IS_URL_CHAR ?q" "length ?q < 32000" "?q \<noteq> []" using assms by (auto simp: IS_URL_CHAR_iff)
  ultimately have "\<exists>pq. qs_parse_url blank_url (object_url (example_config 1) (bucket_host (example_config 1) ''b'') [] @ ''?'' @ ?q) = Ret pq"
    by (rule object_url_parses)
  then show ?thesis using assms by (auto simp: list_url_def object_url_def)
qed

lemma two_pages_served: "pages (paging_env two_pages) (example_config 1) ''b'' ''p'' ''b'' ''p'' 1 two_objects"
proof -
  have "list_request (paging_env two_pages) (example_config 1) ''b'' ''p'' m w =
      (Ret (Some (listing_json ''b'' ''p'' 1 (page_after two_objects 1 m))), w)" if m: "m \<in> {[], ''b'', ''a''}" for m w
  proof -
    let ?url = "list_url (example_config 1) (bucket_host (example_config 1) ''b'') ''p'' m"
    obtain pq where "qs_parse_url blank_url ?url = Ret pq" using list_url_parses [OF m] by blast
    moreover have "NUL \<notin> set ?url" "map_of two_pages ?url = Some (listing_json ''b'' ''p'' 1 (page_after two_objects 1 m))"
      using m by (auto simp: two_pages_def list_url_def example_config_def Configuration_direct_def bucket_host_def)
    ultimately show ?thesis unfolding list_request_def by (rule paging_request)
  qed
  moreover have "obj_key ` set two_objects = {''b'', ''a''}" by (auto simp: two_objects_def)
  ultimately show ?thesis unfolding pages_def by blast
qed


section \<open>A failure after the first page\<close>



end
