(* ===== verification/QS_Fetcher.thy ===== *)
theory QS_Fetcher
  imports QS_Calls
begin

text \<open>
  \<open>src/HTTPFetcher.cpp\<close>: one ranged download. libcurl fills the fetcher's buffer through
  \<open>WriterCallback\<close>, \<open>get\<close> empties it. The multi interface of libcurl is the record
  \<open>multi_env\<close>, an argument of the definitions.
\<close>

section \<open>The multi interface\<close>

text \<open>
  A message of \<open>curl_multi_info_read\<close>: the handle, the result and the response code that
  \<open>curl_easy_getinfo\<close> gives for it.
\<close>

datatype curl_msg = CURLMSG_DONE nat curl_code int | CURLMSG_OTHER

text \<open>
  Over a world state \<open>'w\<close> that includes the multi handle: whether the next \<open>malloc\<close> succeeds,
  \<open>curl_easy_init\<close>, adding a handle for a URL, setting its header list, removing and freeing
  a handle; the data libcurl passes to the write callback next (at most the given number of
  bytes, \<open>None\<close> when it makes no call) and what the callback answered (\<open>None\<close> for
  \<open>CURL_WRITEFUNC_PAUSE\<close>); \<open>curl_easy_pause(CURLPAUSE_CONT)\<close> with the calls it makes at
  once, \<open>curl_multi_wait\<close> and \<open>curl_multi_perform\<close> (an error text, \<open>None\<close> for \<open>CURLM_OK\<close>) and the
  calls on each handle, the queued messages and taking the first one.
\<close>

record 'w multi_env =
  mu_malloc :: "'w \<Rightarrow> bool"
  mu_easy_init :: "'w \<Rightarrow> nat option \<times> 'w"
  mu_add :: "nat \<Rightarrow> string \<Rightarrow> 'w \<Rightarrow> 'w"
  mu_set_headers :: "nat \<Rightarrow> string list \<Rightarrow> 'w \<Rightarrow> 'w"
  mu_close :: "nat \<Rightarrow> 'w \<Rightarrow> 'w"
  mu_data :: "nat \<Rightarrow> nat \<Rightarrow> 'w \<Rightarrow> byte list option"
  mu_taken :: "nat \<Rightarrow> nat option \<Rightarrow> 'w \<Rightarrow> 'w"
  mu_resume :: "nat \<Rightarrow> 'w \<Rightarrow> nat list \<times> 'w"
  mu_wait :: "'w \<Rightarrow> string option \<times> 'w"
  mu_perform :: "'w \<Rightarrow> (nat \<times> nat) list \<times> string option \<times> 'w"
  mu_messages :: "'w \<Rightarrow> curl_msg list"
  mu_pop :: "'w \<Rightarrow> 'w"
  mu_date :: "'w \<Rightarrow> string"
  mu_hmac :: "string \<Rightarrow> string \<Rightarrow> string"
  mu_base64 :: "string \<Rightarrow> string"

section \<open>State\<close>

datatype FetcherState = FETCHER_INIT | FETCHER_RUNNING | FETCHER_FAILED | FETCHER_DONE

text \<open>The pointer \<open>mCurl\<close>: the constructor leaves it uninitialised.\<close>

datatype curl_ptr = Uninitialised | Null | Handle nat

record fetcher =
  ft_state :: FetcherState
  ft_curl :: curl_ptr
  ft_paused :: bool
  ft_http_headers :: "string list option"
  ft_parent :: bool
  ft_url :: string
  ft_bucket :: string
  ft_host :: string
  ft_cred :: QSCredential
  ft_conf_buffsize :: int
  ft_offset :: int
  ft_len :: int
  ft_bytes_done :: int
  ft_headers :: HeaderContent
  ft_buff :: "byte list option"
  ft_buff_size :: nat
  ft_nused :: nat
  ft_read_off :: nat
  ft_eof :: bool
  ft_nfailures :: int

definition HTTPFetcher :: "string \<Rightarrow> string \<Rightarrow> string \<Rightarrow> QSCredential \<Rightarrow> int \<Rightarrow> int \<Rightarrow> int \<Rightarrow> fetcher" where
  "HTTPFetcher url host bucket cred buffsize offset n =
     \<lparr>ft_state = FETCHER_INIT, ft_curl = Uninitialised, ft_paused = False, ft_http_headers = None,
      ft_parent = False, ft_url = url, ft_bucket = bucket, ft_host = host, ft_cred = cred,
      ft_conf_buffsize = buffsize, ft_offset = offset, ft_len = n, ft_bytes_done = 0, ft_headers = [],
      ft_buff = None, ft_buff_size = 0, ft_nused = 0, ft_read_off = 0, ft_eof = False, ft_nfailures = 0\<rparr>"

definition ft_block :: "fetcher \<Rightarrow> byte list" where
  "ft_block f = (case ft_buff f of None \<Rightarrow> [] | Some b \<Rightarrow> b)"

text \<open>\<open>mNused - mReadOff\<close>: what has arrived and was not read yet.\<close>

definition unread :: "fetcher \<Rightarrow> nat" where
  "unread f = ft_nused f - ft_read_off f"

section \<open>The write callback\<close>

definition rewind :: "fetcher \<Rightarrow> fetcher" where
  "rewind f = (if ft_nused f = ft_read_off f then f\<lparr>ft_nused := 0, ft_read_off := 0\<rparr> else f)"

definition shift_down :: "fetcher \<Rightarrow> fetcher" where
  "shift_down f =
     (if ft_read_off f > 0
      then f\<lparr>ft_buff := Some (overwrite 0 (subbuf (ft_read_off f) (unread f) (ft_block f)) (ft_block f)),
             ft_nused := unread f, ft_read_off := 0\<rparr>
      else f)"

definition store_data :: "byte list \<Rightarrow> fetcher \<Rightarrow> fetcher" where
  "store_data contents f =
     f\<lparr>ft_buff := Some (overwrite (ft_nused f) contents (ft_block f)), ft_nused := ft_nused f + length contents\<rparr>"

text \<open>The answer is \<open>None\<close> for \<open>CURL_WRITEFUNC_PAUSE\<close>.\<close>

definition WriterCallback :: "byte list \<Rightarrow> fetcher \<Rightarrow> nat option \<times> fetcher" where
  "WriterCallback contents f =
     (let realsize = length contents; f = rewind f in
      if realsize > ft_buff_size f - ft_nused f
      then let f = shift_down f in
           if realsize > ft_buff_size f - ft_nused f then (None, f\<lparr>ft_paused := True\<rparr>)
           else (Some realsize, store_data contents f)
      else (Some realsize, store_data contents f))"

section \<open>Starting\<close>

definition CURL_MAX_WRITE_SIZE :: int where "CURL_MAX_WRITE_SIZE = 16384"

definition alloc_buffer :: "'w multi_env \<Rightarrow> (unit, fetcher \<times> 'w) call" where
  "alloc_buffer M s =
     (case s of (f, w) \<Rightarrow>
      if ft_buff f \<noteq> None then (Ret (), f, w)
      else let n = nat (if CURL_MAX_WRITE_SIZE > ft_conf_buffsize f then CURL_MAX_WRITE_SIZE else ft_conf_buffsize f);
               f = f\<lparr>ft_buff_size := n\<rparr> in
           if mu_malloc M w then (Ret (), f\<lparr>ft_buff := Some (replicate n NUL)\<rparr>, w)
           else (THROW OutOfMemoryException ''could not allocate enough memory for HTTPFetcher read buff'', f, w))"

text \<open>The range still to be fetched, as \<open>snprintf\<close> prints it.\<close>

definition resume_offset :: "fetcher \<Rightarrow> int" where
  "resume_offset f = ft_offset f + int (unread f) + ft_bytes_done f"

definition resume_len :: "fetcher \<Rightarrow> int" where
  "resume_len f = ft_len f - int (unread f) - ft_bytes_done f"

definition range_text :: "int \<Rightarrow> int \<Rightarrow> string" where
  "range_text a n =
     (if n \<ge> 0 then ''bytes='' @ show_int a @ ''-'' @ show_int (a + n - 1)
      else ''bytes='' @ show_int a @ ''-'')"

text \<open>The lines added before the signature; \<open>mHeaders\<close> keeps those of earlier attempts.\<close>

definition range_headers :: "fetcher \<Rightarrow> HeaderContent" where
  "range_headers f =
     (let h = header_add HOST (ft_host f) (ft_headers f) in
      if ft_offset f + ft_bytes_done f > 0 \<or> ft_len f \<ge> 0
      then header_add RANGE (range_text (resume_offset f) (resume_len f)) h else h)"

definition sign_request :: "'w multi_env \<Rightarrow> (unit, fetcher \<times> 'w) call" where
  "sign_request M s =
     (case s of (f, w) \<Rightarrow>
      let h = range_headers f in
      case bind (qs_parse_url blank_url (ft_url f)) (\<lambda>(path, query).
             Signature (mu_hmac M) (mu_base64 M) (mu_date M w) h
               (resource_path (Some (ft_bucket f)) path query) (ft_cred f) QSRT_GET_DATA None) of
        Ret h' \<Rightarrow> (Ret (), f\<lparr>ft_headers := h'\<rparr>, w)
      | Throw e \<Rightarrow> (Throw e, f\<lparr>ft_headers := h\<rparr>, w)
      | Undefined \<Rightarrow> (Undefined, f\<lparr>ft_headers := h\<rparr>, w))"

definition begin_transfer :: "'w multi_env \<Rightarrow> (nat, fetcher \<times> 'w) call" where
  "begin_transfer M s =
     (case s of (f, w) \<Rightarrow>
      if ft_state f \<noteq> FETCHER_INIT \<and> ft_state f \<noteq> FETCHER_FAILED
      then (THROW QingStorException ''invalid fetcher state'', f, w)
      else case mu_easy_init M w of
             (None, w) \<Rightarrow> (THROW QingStorNetworkException ''could not create curl handle'', f, w)
           | (Some h, w) \<Rightarrow> (Ret h, f\<lparr>ft_curl := Handle h, ft_parent := True\<rparr>, mu_add M h (ft_url f) w))"

definition start :: "'w multi_env \<Rightarrow> (unit, fetcher \<times> 'w) call" where
  "start M =
     then_call (alloc_buffer M) (\<lambda>_.
     then_call (begin_transfer M) (\<lambda>h.
     then_call (sign_request M) (\<lambda>_.
     with_object (\<lambda>f.
       let hs = HeaderContent_GetList (ft_headers f) in
       then_call (on_world (\<lambda>w. (Ret (), mu_set_headers M h hs w))) (\<lambda>_.
       change_object (\<lambda>f. f\<lparr>ft_http_headers := Some hs, ft_state := FETCHER_RUNNING\<rparr>))))))"

section \<open>Ending\<close>

definition cleanup :: "'w multi_env \<Rightarrow> (unit, fetcher \<times> 'w) call" where
  "cleanup M s =
     (case s of (f, w) \<Rightarrow>
      case ft_curl f of
        Uninitialised \<Rightarrow> (Undefined, f, w)
      | Null \<Rightarrow> (Ret (), f\<lparr>ft_http_headers := None\<rparr>, w)
      | Handle h \<Rightarrow> (Ret (), f\<lparr>ft_parent := False, ft_curl := Null, ft_http_headers := None\<rparr>, mu_close M h w))"

definition fetch_fail :: "'w multi_env \<Rightarrow> (unit, fetcher \<times> 'w) call" where
  "fetch_fail M =
     then_call (cleanup M) (\<lambda>_.
       change_object (\<lambda>f. f\<lparr>ft_state := FETCHER_FAILED, ft_nfailures := to_int32 (ft_nfailures f + 1)\<rparr>))"

definition fetch_done :: "'w multi_env \<Rightarrow> (unit, fetcher \<times> 'w) call" where
  "fetch_done M = then_call (cleanup M) (\<lambda>_. change_object (\<lambda>f. f\<lparr>ft_state := FETCHER_DONE\<rparr>))"

definition handleResult :: "'w multi_env \<Rightarrow> curl_code \<Rightarrow> int \<Rightarrow> (unit, fetcher \<times> 'w) call" where
  "handleResult M res respcode =
     with_object (\<lambda>f.
       case ft_curl f of
         Uninitialised \<Rightarrow> lift_outcome Undefined
       | Null \<Rightarrow> raise QingStorException ''invalid state: curl is not initialized''
       | Handle h \<Rightarrow>
           if res = CURLE_OK
           then if respcode = 0 then raise QingStorNetworkException ''got response code as 0''
                else if respcode \<noteq> 200 \<and> respcode \<noteq> 206 then fetch_fail M
                else fetch_done M
           else fetch_fail M)"

text \<open>The destructor.\<close>

definition destroy_fetcher :: "'w multi_env \<Rightarrow> (unit, fetcher \<times> 'w) call" where
  "destroy_fetcher M = then_call (cleanup M) (\<lambda>_. change_object (\<lambda>f. f\<lparr>ft_buff := None\<rparr>))"

section \<open>Reading\<close>

text \<open>One call of the write callback for a handle, with the answer told to libcurl.\<close>

definition offer :: "'w multi_env \<Rightarrow> nat \<Rightarrow> nat \<Rightarrow> fetcher \<times> 'w \<Rightarrow> fetcher \<times> 'w" where
  "offer M h n s =
     (case s of (f, w) \<Rightarrow>
      case mu_data M h n w of None \<Rightarrow> (f, w)
      | Some c \<Rightarrow> (case WriterCallback c f of (r, f') \<Rightarrow> (f', mu_taken M h r w)))"

text \<open>Taking at most \<open>bufflen\<close> of the unread bytes.\<close>

definition take_data :: "nat \<Rightarrow> fetcher \<Rightarrow> byte list \<times> fetcher" where
  "take_data bufflen f =
     (let avail = (if unread f > bufflen then bufflen else unread f) in
      (subbuf (ft_read_off f) avail (ft_block f),
       f\<lparr>ft_read_off := ft_read_off f + avail, ft_bytes_done := ft_bytes_done f + int avail\<rparr>))"

text \<open>
  \<open>get\<close> with its \<open>goto retry\<close>: the bytes copied and \<open>*eof\<close>. \<open>curl_easy_pause\<close> fails without
  effect on a null handle. \<open>bufflen\<close> is positive (\<open>PARAMETER_ASSERT\<close> of \<open>qingstorRead\<close>).
\<close>

partial_function (option) get_data :: "'w multi_env \<Rightarrow> nat \<Rightarrow> fetcher \<times> 'w \<Rightarrow>
    ((byte list \<times> bool) outcome \<times> fetcher \<times> 'w) option" where
  "get_data M bufflen s =
     (case s of (f, w) \<Rightarrow>
      if unread f > 0 then (case take_data bufflen f of (d, f') \<Rightarrow> Some (Ret (d, False), f', w))
      else if ft_paused f
      then let f = f\<lparr>ft_paused := False\<rparr> in
           (case ft_curl f of
              Uninitialised \<Rightarrow> Some (Undefined, f, w)
            | Null \<Rightarrow> get_data M bufflen (f, w)
            | Handle h \<Rightarrow> (case mu_resume M h w of (ns, w') \<Rightarrow>
                get_data M bufflen (fold (offer M h) ns (f, w'))))
      else Some (Ret ([], ft_state f = FETCHER_DONE), f, w))"

declare get_data.simps [code]

end
