(* ===== verification/QS_Reader.thy ===== *)
theory QS_Reader
  imports QS_Fetcher QS_Context
begin

text \<open>
  \<open>src/DownloadPipeline.cpp\<close>, the fetchers of one object in the order of their ranges, the
  first few running at a time, and \<open>src/QingStorReader.cpp\<close>, which divides a range into
  fetchers and reads from their pipeline.
\<close>

section \<open>The pipeline\<close>

text \<open>The fetchers are owned by the lists alone; the multi handle is part of the world.\<close>

record pipeline =
  pl_active :: "fetcher list"
  pl_pending :: "fetcher list"
  pl_nconnections :: int

definition DownloadPipeline :: "int \<Rightarrow> bool \<Rightarrow> pipeline outcome" where
  "DownloadPipeline nconnections multi_init_ok =
     (if multi_init_ok then Ret \<lparr>pl_active = [], pl_pending = [], pl_nconnections = nconnections\<rparr>
      else THROW QingStorException ''could not create CURL multi-handle'')"

definition pipeline_add :: "fetcher \<Rightarrow> pipeline \<Rightarrow> pipeline" where
  "pipeline_add f p = p\<lparr>pl_pending := pl_pending p @ [f]\<rparr>"

text \<open>
  \<open>while (mActiveFetchers.size() < mNConnections)\<close>: a fetcher is in the active list before
  it is started, and stays there when that throws.
\<close>

fun launch_loop :: "'w multi_env \<Rightarrow> int \<Rightarrow> fetcher list \<Rightarrow> fetcher list \<Rightarrow> 'w \<Rightarrow>
    unit outcome \<times> fetcher list \<times> fetcher list \<times> 'w" where
  "launch_loop M n active [] w = (Ret (), active, [], w)"
| "launch_loop M n active (f # fs) w =
     (if int (length active) < n
      then case start M (f, w) of
             (Ret _, f', w') \<Rightarrow> launch_loop M n (active @ [f']) fs w'
           | (Throw e, f', w') \<Rightarrow> (Throw e, active @ [f'], fs, w')
           | (Undefined, f', w') \<Rightarrow> (Undefined, active @ [f'], fs, w')
      else (Ret (), active, f # fs, w))"

definition launch :: "'w multi_env \<Rightarrow> (unit, pipeline \<times> 'w) call" where
  "launch M s =
     (case s of (p, w) \<Rightarrow>
      case launch_loop M (pl_nconnections p) (pl_active p) (pl_pending p) w of
        (r, active, pending, w') \<Rightarrow> (r, p\<lparr>pl_active := active, pl_pending := pending\<rparr>, w'))"

text \<open>The calls of the write callback during \<open>curl_multi_perform\<close>, each for the fetcher of its handle.\<close>

fun offer_to :: "'w multi_env \<Rightarrow> nat \<times> nat \<Rightarrow> fetcher list \<times> 'w \<Rightarrow> fetcher list \<times> 'w" where
  "offer_to M e ([], w) = ([], w)"
| "offer_to M e (f # fs, w) =
     (if ft_curl f = Handle (fst e)
      then case offer M (fst e) (snd e) (f, w) of (f', w') \<Rightarrow> (f' # fs, w')
      else case offer_to M e (fs, w) of (fs', w') \<Rightarrow> (f # fs', w'))"

text \<open>The search for the fetcher of a message, and its result handed to it.\<close>

fun dispatch :: "'w multi_env \<Rightarrow> nat \<Rightarrow> curl_code \<Rightarrow> int \<Rightarrow> (unit, fetcher list \<times> 'w) call" where
  "dispatch M h res code ([], w) =
     (THROW QingStorNetworkException ''got CURL result code for a fetcher that's not active'', [], w)"
| "dispatch M h res code (f # fs, w) =
     (if ft_curl f = Uninitialised then (Undefined, f # fs, w)
      else if ft_curl f = Handle h
      then case handleResult M res code (f, w) of (r, f', w') \<Rightarrow> (r, f' # fs, w')
      else case dispatch M h res code (fs, w) of (r, fs', w') \<Rightarrow> (r, f # fs', w'))"

fun handle_messages :: "'w multi_env \<Rightarrow> curl_msg list \<Rightarrow> (unit, fetcher list \<times> 'w) call" where
  "handle_messages M [] (fs, w) = (Ret (), fs, w)"
| "handle_messages M (CURLMSG_OTHER # ms) (fs, w) = handle_messages M ms (fs, mu_pop M w)"
| "handle_messages M (CURLMSG_DONE h res code # ms) (fs, w) =
     then_call (dispatch M h res code) (\<lambda>_. handle_messages M ms) (fs, mu_pop M w)"

text \<open>\<open>Got nothing. Wait until something happens.\<close>\<close>

definition wait_for_data :: "'w multi_env \<Rightarrow> (unit, fetcher list \<times> 'w) call" where
  "wait_for_data M s =
     (case s of (fs, w) \<Rightarrow>
      case mu_wait M w of
        (Some err, w) \<Rightarrow> (THROW QingStorNetworkException (''curl_multi_perform returned error: '' @ err), fs, w)
      | (None, w) \<Rightarrow>
          (case mu_perform M w of (calls, mres, w) \<Rightarrow>
             case fold (offer_to M) calls (fs, w) of (fs, w) \<Rightarrow>
               case mres of
                 Some err \<Rightarrow> (THROW QingStorNetworkException (''curl_multi_perform returned error: '' @ err), fs, w)
               | None \<Rightarrow> handle_messages M (mu_messages M w) (fs, w)))"

text \<open>Restarting a failed fetcher at the head of the list.\<close>

definition restart_failed :: "'w multi_env \<Rightarrow> (unit, fetcher list \<times> 'w) call" where
  "restart_failed M s =
     (case s of
        (f # fs, w) \<Rightarrow>
          if ft_state f = FETCHER_FAILED
          then case start M (f, w) of (r, f', w') \<Rightarrow> (r, f' # fs, w')
          else (Ret (), f # fs, w)
      | ([], w) \<Rightarrow> (Ret (), [], w))"

text \<open>
  \<open>DownloadPipeline::read\<close>: the bytes and \<open>*eof_p\<close>; \<open>None\<close> when it blocks for ever. A
  fetcher taken off the list is destroyed.
\<close>

partial_function (option) pipeline_read :: "'w multi_env \<Rightarrow> nat \<Rightarrow> pipeline \<times> 'w \<Rightarrow>
    ((byte list \<times> bool) outcome \<times> pipeline \<times> 'w) option" where
  "pipeline_read M bufflen s =
     (case launch M s of
        (Throw e, s) \<Rightarrow> Some (Throw e, s)
      | (Undefined, s) \<Rightarrow> Some (Undefined, s)
      | (Ret _, p, w) \<Rightarrow>
        (case pl_active p of
           [] \<Rightarrow> Some (Ret ([], True), p, w)
         | f # fs \<Rightarrow>
           Option.bind (get_data M bufflen (f, w)) (\<lambda>r.
             case r of
               (Throw e, f, w) \<Rightarrow> Some (Throw e, p\<lparr>pl_active := f # fs\<rparr>, w)
             | (Undefined, f, w) \<Rightarrow> Some (Undefined, p\<lparr>pl_active := f # fs\<rparr>, w)
             | (Ret (d, eof), f, w) \<Rightarrow>
               if eof
               then (case destroy_fetcher M (f, w) of
                       (Ret _, f, w) \<Rightarrow> pipeline_read M bufflen (p\<lparr>pl_active := fs\<rparr>, w)
                     | (_, f, w) \<Rightarrow> Some (Undefined, p\<lparr>pl_active := fs\<rparr>, w))
               else if d \<noteq> [] then Some (Ret (d, False), p\<lparr>pl_active := f # fs\<rparr>, w)
               else (case then_call (restart_failed M) (\<lambda>_. wait_for_data M) (f # fs, w) of
                       (Ret _, fs, w) \<Rightarrow> pipeline_read M bufflen (p\<lparr>pl_active := fs\<rparr>, w)
                     | (Throw e, fs, w) \<Rightarrow> Some (Throw e, p\<lparr>pl_active := fs\<rparr>, w)
                     | (Undefined, fs, w) \<Rightarrow> Some (Undefined, p\<lparr>pl_active := fs\<rparr>, w)))))"

declare pipeline_read.simps [code]

text \<open>The destructor of the pipeline: the active fetchers first, then the members in reverse order.\<close>

fun destroy_all :: "'w multi_env \<Rightarrow> fetcher list \<Rightarrow> 'w \<Rightarrow> unit outcome \<times> 'w" where
  "destroy_all M [] w = (Ret (), w)"
| "destroy_all M (f # fs) w =
     (case destroy_fetcher M (f, w) of
        (Ret _, _, w') \<Rightarrow> destroy_all M fs w'
      | (Throw e, _, w') \<Rightarrow> (Throw e, w')
      | (Undefined, _, w') \<Rightarrow> (Undefined, w'))"

definition destroy_pipeline :: "'w multi_env \<Rightarrow> pipeline \<Rightarrow> 'w \<Rightarrow> unit outcome \<times> 'w" where
  "destroy_pipeline M p w = destroy_all M (pl_active p @ pl_pending p) w"

section \<open>The reader\<close>

record reader =
  rd_configuration :: Configuration
  rd_bucket :: string
  rd_object :: ObjectInfo
  rd_pipeline :: pipeline

text \<open>\<open>chunkSize\<close> and \<open>buffSize\<close>; the conversion to \<open>int\<close> keeps the low 32 bits.\<close>

definition chunk_sizes :: "Configuration \<Rightarrow> int \<times> int" where
  "chunk_sizes cfg =
     (if mNConnections cfg > 1
      then (mChunkSize cfg,
            if mChunkSize cfg > 128 * 1024 * 1024 then 128 * 1024 * 1024 else to_int32 (mChunkSize cfg))
      else (-1, -1))"

text \<open>
  The loop over a range: the offset and length of each fetcher. \<open>None\<close> when it never ends;
  the overflow of \<open>offset + chunkSize\<close> is undefined behaviour.
\<close>

definition chunk_len :: "int \<Rightarrow> int \<Rightarrow> int \<Rightarrow> int" where
  "chunk_len chunk endp offset =
     (if chunk = -1 \<or> offset + chunk > endp then endp - offset + 1 else chunk)"

partial_function (option) chunk_loop :: "int \<Rightarrow> int \<Rightarrow> int \<Rightarrow> (int \<times> int) list \<Rightarrow> (int \<times> int) list outcome option" where
  "chunk_loop chunk endp offset acc =
     (if chunk \<noteq> -1 \<and> (offset + chunk > INT64_MAX \<or> offset + chunk < INT64_MIN) then Some Undefined
      else let n = chunk_len chunk endp offset; acc = acc @ [(offset, n)] in
           if offset + n \<le> endp then chunk_loop chunk endp (offset + n) acc else Some (Ret acc))"

declare chunk_loop.simps [code]

definition new_fetcher :: "Configuration \<Rightarrow> string \<Rightarrow> ObjectInfo \<Rightarrow> int \<times> int \<Rightarrow> fetcher" where
  "new_fetcher cfg bucket ob piece =
     (let host = bucket_host cfg bucket in
      HTTPFetcher (object_url cfg host (obj_key ob)) host bucket (config_cred cfg) (snd (chunk_sizes cfg))
        (fst piece) (to_int32 (snd piece)))"

definition setupPipeline :: "Configuration \<Rightarrow> string \<Rightarrow> ObjectInfo \<Rightarrow> bool \<Rightarrow> pipeline outcome option" where
  "setupPipeline cfg bucket ob multi_init_ok =
     (case DownloadPipeline (mNConnections cfg) multi_init_ok of
        Throw e \<Rightarrow> Some (Throw e)
      | Undefined \<Rightarrow> Some Undefined
      | Ret p \<Rightarrow>
          map_option (\<lambda>r. bind r (\<lambda>pieces. Ret (fold (pipeline_add \<circ> new_fetcher cfg bucket ob) pieces p)))
            (chunk_loop (fst (chunk_sizes cfg)) (range_end (obj_range ob)) (range_start (obj_range ob)) []))"

definition QingStorReader :: "Configuration \<Rightarrow> string \<Rightarrow> ObjectInfo \<Rightarrow> bool \<Rightarrow> reader outcome option" where
  "QingStorReader cfg bucket ob multi_init_ok =
     map_option (\<lambda>r. bind r (\<lambda>p.
       Ret \<lparr>rd_configuration = cfg, rd_bucket = bucket, rd_object = ob, rd_pipeline = p\<rparr>))
       (setupPipeline cfg bucket ob multi_init_ok)"

text \<open>The number of bytes read is the length of the result; the end of the data is an exception.\<close>

definition reader_transferData :: "'w multi_env \<Rightarrow> nat \<Rightarrow> reader \<times> 'w \<Rightarrow>
    (byte list outcome \<times> reader \<times> 'w) option" where
  "reader_transferData M buffsize s =
     (case s of (rd, w) \<Rightarrow>
      map_option (\<lambda>(r, p, w').
        (bind r (\<lambda>(d, eof). if eof then THROW QingStorEndOfStream ''transferData'' else Ret d),
         rd\<lparr>rd_pipeline := p\<rparr>, w'))
        (pipeline_read M buffsize (rd_pipeline rd, w)))"

definition reader_close :: "(unit, reader \<times> 'w) call" where
  "reader_close = return ()"

text \<open>The destructor of a reader.\<close>

definition destroy_reader :: "'w multi_env \<Rightarrow> reader \<Rightarrow> 'w \<Rightarrow> unit outcome \<times> 'w" where
  "destroy_reader M rd w = destroy_pipeline M (rd_pipeline rd) w"

end
