(* ===== verification/QS_Fetch_Facts.thy ===== *)
theory QS_Fetch_Facts
  imports QS_Reader QS_Writer_Facts
begin

text \<open>
  The fetcher's buffer as a sink that libcurl fills, and that may refuse a block, and as the
  source the reader takes its bytes from.
\<close>

section \<open>The buffer\<close>

definition buff_ok :: "fetcher \<Rightarrow> bool" where
  "buff_ok f \<longleftrightarrow> length (ft_block f) = ft_buff_size f \<and> ft_read_off f \<le> ft_nused f \<and> ft_nused f \<le> ft_buff_size f"

definition content :: "fetcher \<Rightarrow> byte list" where
  "content f = subbuf (ft_read_off f) (unread f) (ft_block f)"

lemma length_content [simp]: "buff_ok f \<Longrightarrow> length (content f) = unread f"
  by (auto simp: buff_ok_def content_def unread_def)

lemma ft_block_update [simp]: "ft_block (f\<lparr>ft_buff := Some b\<rparr>) = b"
  by (simp add: ft_block_def)

lemma ft_block_cong [simp]:
  "ft_block (f\<lparr>ft_nused := n\<rparr>) = ft_block f" "ft_block (f\<lparr>ft_read_off := n\<rparr>) = ft_block f"
  "ft_block (f\<lparr>ft_paused := b\<rparr>) = ft_block f" "ft_block (f\<lparr>ft_bytes_done := i\<rparr>) = ft_block f"
  by (simp_all add: ft_block_def)

lemma rewind_ok: "buff_ok f \<Longrightarrow> buff_ok (rewind f)" "content (rewind f) = content f"
  by (auto simp: rewind_def buff_ok_def content_def unread_def)

lemma shift_down_ok:
  assumes "buff_ok f"
  shows "buff_ok (shift_down f)" "content (shift_down f) = content f" "ft_read_off (shift_down f) = 0"
    "ft_nused (shift_down f) = unread f"
proof -
  let ?d = "subbuf (ft_read_off f) (unread f) (ft_block f)"
  have len: "length ?d = unread f" "unread f \<le> ft_buff_size f" using assms by (auto simp: buff_ok_def unread_def)
  then have "take (0 + length ?d) (overwrite 0 ?d (ft_block f)) = take 0 (ft_block f) @ ?d"
    by (intro take_overwrite_end) simp
  then show "content (shift_down f) = content f"
    using len by (simp add: shift_down_def content_def unread_def subbuf_def)
  show "buff_ok (shift_down f)" "ft_read_off (shift_down f) = 0" "ft_nused (shift_down f) = unread f"
    using len assms by (auto simp: shift_down_def buff_ok_def unread_def)
qed

lemma store_data_ok:
  assumes "buff_ok f" and "length c \<le> ft_buff_size f - ft_nused f"
  shows "buff_ok (store_data c f)" "content (store_data c f) = content f @ c"
proof -
  have room: "ft_nused f + length c \<le> length (ft_block f)" using assms by (auto simp: buff_ok_def)
  then show "buff_ok (store_data c f)" using assms by (auto simp: store_data_def buff_ok_def)
  have take: "take (ft_nused f + length c) (overwrite (ft_nused f) c (ft_block f)) = take (ft_nused f) (ft_block f) @ c"
    by (rule take_overwrite_end) (use room in simp)
  have sub: "subbuf a (m - a) xs = drop a (take m xs)" if "a \<le> m" for a m and xs :: "byte list"
    by (simp add: subbuf_def drop_take)
  have "ft_read_off f \<le> ft_nused f" using assms by (simp add: buff_ok_def)
  then show "content (store_data c f) = content f @ c"
    using take room by (simp add: content_def unread_def store_data_def sub)
qed

text \<open>The fields the callback does not touch.\<close>

definition same_fetch :: "fetcher \<Rightarrow> fetcher \<Rightarrow> bool" where
  "same_fetch f g \<longleftrightarrow> ft_state g = ft_state f \<and> ft_curl g = ft_curl f \<and> ft_offset g = ft_offset f \<and>
     ft_len g = ft_len f \<and> ft_bytes_done g = ft_bytes_done f \<and> ft_buff_size g = ft_buff_size f"

lemma same_fetch_refl [simp]: "same_fetch f f"
  by (simp add: same_fetch_def)

lemma same_fetch_trans: "same_fetch f g \<Longrightarrow> same_fetch g h \<Longrightarrow> same_fetch f h"
  by (simp add: same_fetch_def)

lemma callback_frame: "same_fetch f (snd (WriterCallback c f))"
  by (simp add: WriterCallback_def Let_def rewind_def shift_down_def store_data_def same_fetch_def)

lemma callback_ok:
  assumes "buff_ok f"
  shows "buff_ok (snd (WriterCallback c f))"
    and "content (snd (WriterCallback c f)) = content f @ (if fst (WriterCallback c f) = None then [] else c)"
    and "fst (WriterCallback c f) = (if ft_buff_size f < unread f + length c then None else Some (length c))"
    and "ft_paused (snd (WriterCallback c f)) = (ft_paused f \<or> fst (WriterCallback c f) = None)"
proof -
  let ?f = "rewind f"
  note rw = rewind_ok [of f] note sd = shift_down_ok [OF rw(1) [OF assms]]
  have size: "ft_buff_size ?f = ft_buff_size f" "ft_buff_size (shift_down ?f) = ft_buff_size f"
    by (simp_all add: rewind_def shift_down_def)
  have unread: "unread ?f = unread f" "ft_read_off ?f \<le> ft_nused ?f" "ft_nused ?f \<le> ft_buff_size f"
    using assms by (auto simp: rewind_def unread_def buff_ok_def)
  have kept: "ft_read_off ?f = 0 \<Longrightarrow> shift_down ?f = ?f" by (simp add: shift_down_def)
  have paused: "ft_paused (store_data c g) = ft_paused g" "ft_paused ?f = ft_paused f" "ft_paused (shift_down ?f) = ft_paused f" for g
    by (simp_all add: store_data_def rewind_def shift_down_def)
  have flag: "buff_ok (g\<lparr>ft_paused := b\<rparr>) = buff_ok g" "content (g\<lparr>ft_paused := b\<rparr>) = content g" for g b
    by (simp_all add: buff_ok_def content_def unread_def)
  consider (fits) "length c \<le> ft_buff_size f - ft_nused ?f"
    | (shifted) "ft_buff_size f - ft_nused ?f < length c" "length c \<le> ft_buff_size f - unread f"
    | (full) "ft_buff_size f - ft_nused ?f < length c" "ft_buff_size f - unread f < length c" by linarith
  then have "buff_ok (snd (WriterCallback c f)) \<and>
    content (snd (WriterCallback c f)) = content f @ (if fst (WriterCallback c f) = None then [] else c) \<and>
    fst (WriterCallback c f) = (if ft_buff_size f < unread f + length c then None else Some (length c)) \<and>
    ft_paused (snd (WriterCallback c f)) = (ft_paused f \<or> fst (WriterCallback c f) = None)"
  proof cases
    case fits
    have "unread f \<le> ft_nused ?f" using unread by (simp add: unread_def)
    with fits unread store_data_ok [OF rw(1) [OF assms], of c] show ?thesis
      by (auto simp: WriterCallback_def Let_def size paused rw(2))
  next
    case shifted
    have "unread f \<le> ft_buff_size f" using unread by (simp add: unread_def)
    with shifted store_data_ok [OF sd(1), of c] sd unread show ?thesis
      by (auto simp: WriterCallback_def Let_def size paused rw(2))
  next
    case full
    with sd unread show ?thesis
      by (auto simp: WriterCallback_def Let_def size paused rw(2) flag)
  qed
  note all = this
  show "buff_ok (snd (WriterCallback c f))" by (rule all [THEN conjunct1])
  show "content (snd (WriterCallback c f)) = content f @ (if fst (WriterCallback c f) = None then [] else c)"
    by (rule all [THEN conjunct2, THEN conjunct1])
  show "fst (WriterCallback c f) = (if ft_buff_size f < unread f + length c then None else Some (length c))"
    by (rule all [THEN conjunct2, THEN conjunct2, THEN conjunct1])
  show "ft_paused (snd (WriterCallback c f)) = (ft_paused f \<or> fst (WriterCallback c f) = None)"
    by (rule all [THEN conjunct2, THEN conjunct2, THEN conjunct2])
qed

interpretation fetch_buffer: bounded_sink "\<lambda>f c. snd (WriterCallback c f)"
    "\<lambda>f c. fst (WriterCallback c f) \<noteq> None" content buff_ok
  by unfold_locales (simp_all add: callback_ok)

lemma take_data_ok:
  assumes "buff_ok f"
  shows "buff_ok (snd (take_data n f))" "fst (take_data n f) @ content (snd (take_data n f)) = content f"
    "length (fst (take_data n f)) = min n (unread f)"
    "ft_bytes_done (snd (take_data n f)) = ft_bytes_done f + int (min n (unread f))"
  using assms subbuf_split [of "min n (unread f)" "unread f" "ft_read_off f" "ft_block f"]
  by (auto simp: take_data_def Let_def buff_ok_def content_def unread_def min_def)

interpretation fetch_reader: source take_data content buff_ok
  by unfold_locales (simp_all add: take_data_ok)

end
