(* ===== verification/QS_Transport.thy ===== *)
theory QS_Transport
  imports QS_Fetch_Facts
begin

text \<open>
  The interface of a transport that serves ranges of one object (\<open>honest_transport\<close>), and the
  client's lemmas proved against it: every operation of a fetcher and of the pipeline keeps
  the bytes still owed to the reader.
\<close>

section \<open>Range requests\<close>

text \<open>
  How a server reads the header list: the only \<open>Range\<close> line, of the form
  \<open>bytes=first-last\<close>.
\<close>

definition parse_range :: "string \<Rightarrow> (nat \<times> nat) option" where
  "parse_range v =
     (if take 6 v = ''bytes='' then
        (case dropWhile is_digit (drop 6 v) of
           CHR ''-'' # rest \<Rightarrow> (if rest \<noteq> [] \<and> list_all is_digit rest
              then Some (digits_value 0 (drop 6 v), digits_value 0 rest) else None)
         | _ \<Rightarrow> None)
      else None)"

definition is_range_line :: "string \<Rightarrow> bool" where
  "is_range_line l \<longleftrightarrow> take 7 l = ''Range: ''"

definition requested_range :: "string list \<Rightarrow> (nat \<times> nat) option" where
  "requested_range hs = (case filter is_range_line hs of [l] \<Rightarrow> parse_range (drop 7 l) | _ \<Rightarrow> None)"

lemma show_int_nat [simp]: "show_int (int n) = show_nat n"
  by (simp add: show_int_def)

lemma parse_range_text:
  assumes "0 \<le> a" and "0 < n"
  shows "parse_range (range_text a n) = Some (nat a, nat (a + n - 1))"
proof -
  let ?d = "show_nat (nat a)" and ?e = "show_nat (nat (a + n - 1))"
  have printed: "range_text a n = ''bytes='' @ ?d @ CHR ''-'' # ?e"
    using assms by (simp add: range_text_def show_int_def)
  have minus: "\<not> is_digit (CHR ''-'')" by (simp add: is_digit_def)
  have "dropWhile is_digit (?d @ CHR ''-'' # ?e) = CHR ''-'' # ?e"
    using show_nat_digits minus by (simp add: dropWhile_append3)
  moreover have "digits_value 0 (?d @ CHR ''-'' # ?e) = nat a"
    using digits_value_append [OF show_nat_digits, where ys = "CHR ''-'' # ?e"] minus by (simp add: digits_value_show_nat)
  moreover have "list_all is_digit ?e" by (auto simp: list_all_iff dest: show_nat_digits)
  ultimately show ?thesis by (simp add: parse_range_def printed digits_value_show_nat)
qed

lemma HeaderContent_GetList_id [simp]: "HeaderContent_GetList h = h"
  by (induction h) simp_all

lemma filter_header_add:
  "filter is_range_line (header_add fd v h) =
     filter is_range_line h @ (if fd = RANGE \<and> v \<noteq> [] then [header_line RANGE v] else [])"
  by (cases fd) (simp_all add: header_add_def HeaderContent_Add_def header_line_def is_range_line_def)

lemma range_text_not_Nil [simp]: "range_text a n \<noteq> []"
  by (simp add: range_text_def)

lemma Signature_ranges:
  "Signature hm b64 date h p cred QSRT_GET_DATA md = Ret h' \<Longrightarrow> filter is_range_line h' = filter is_range_line h"
  by (auto simp: Signature_def content_length_of_def string_to_sign_def Let_def filter_header_add bind_Ret_iff)

lemma THROW_not_Ret [simp]: "THROW c m \<noteq> Ret x" "Ret x \<noteq> THROW c m"
  by (simp_all add: THROW_def)

definition signed_headers :: "'w multi_env \<Rightarrow> fetcher \<Rightarrow> 'w \<Rightarrow> HeaderContent outcome" where
  "signed_headers M f w =
     bind (qs_parse_url blank_url (ft_url f)) (\<lambda>(path, query).
       Signature (mu_hmac M) (mu_base64 M) (mu_date M w) (range_headers f)
         (resource_path (Some (ft_bucket f)) path query) (ft_cred f) QSRT_GET_DATA None)"

lemma sign_Ret_iff:
  "sign_request M (f, w) = (Ret x, s) \<longleftrightarrow> (\<exists>h. signed_headers M f w = Ret h \<and> s = (f\<lparr>ft_headers := h\<rparr>, w))"
  by (auto simp: sign_request_def signed_headers_def Let_def split: outcome.splits)

lemma signed_ranges: "signed_headers M f w = Ret h \<Longrightarrow> filter is_range_line h = filter is_range_line (range_headers f)"
  by (auto simp: signed_headers_def bind_Ret_iff Signature_ranges)

lemma start_Ret_iff:
  "start M (f, w) = (Ret x, f', w') \<longleftrightarrow>
     (\<exists>f1 w1 h f2 w2 hs. alloc_buffer M (f, w) = (Ret (), f1, w1) \<and> begin_transfer M (f1, w1) = (Ret h, f2, w2) \<and>
        signed_headers M f2 w2 = Ret hs \<and> w' = mu_set_headers M h hs w2 \<and>
        f' = f2\<lparr>ft_headers := hs, ft_http_headers := Some hs, ft_state := FETCHER_RUNNING\<rparr>)"
  by (simp add: start_def then_Ret_iff sign_Ret_iff Let_def) fastforce

section \<open>The bytes a fetcher owes\<close>

definition valid_range :: "byte list \<Rightarrow> fetcher \<Rightarrow> bool" where
  "valid_range obj f \<longleftrightarrow> 0 \<le> ft_offset f \<and> 0 \<le> ft_bytes_done f \<and> ft_bytes_done f \<le> ft_len f \<and>
     ft_offset f + ft_len f \<le> int (length obj)"

text \<open>The bytes of the range that have not been handed to the reader.\<close>

definition owed :: "byte list \<Rightarrow> fetcher \<Rightarrow> byte list" where
  "owed obj f = subbuf (nat (ft_offset f + ft_bytes_done f)) (nat (ft_len f - ft_bytes_done f)) obj"

lemma owed_taken:
  assumes "valid_range obj f" and "owed obj f = d @ rest"
  shows "valid_range obj (f\<lparr>ft_bytes_done := ft_bytes_done f + int (length d)\<rparr>)"
    and "owed obj (f\<lparr>ft_bytes_done := ft_bytes_done f + int (length d)\<rparr>) = rest"
proof -
  let ?i = "nat (ft_offset f + ft_bytes_done f)" and ?n = "nat (ft_len f - ft_bytes_done f)"
  have "length (owed obj f) = ?n"
    unfolding owed_def using assms(1) by (intro length_subbuf) (auto simp: valid_range_def)
  then have k: "length d \<le> ?n" using assms(2) by simp
  then have "int (length d) \<le> ft_len f - ft_bytes_done f" using assms(1) by (auto simp: valid_range_def)
  then show "valid_range obj (f\<lparr>ft_bytes_done := ft_bytes_done f + int (length d)\<rparr>)"
    using assms(1) by (simp add: valid_range_def)
  have "subbuf ?i (length d) obj @ subbuf (?i + length d) (?n - length d) obj = d @ rest"
    using assms(2) unfolding owed_def subbuf_split [OF k] .
  moreover have "length (subbuf ?i (length d) obj) = length d"
    using k assms(1) by (intro length_subbuf) (auto simp: valid_range_def)
  ultimately have "subbuf (?i + length d) (?n - length d) obj = rest" by simp
  moreover have "nat (ft_offset f + (ft_bytes_done f + int (length d))) = ?i + length d"
    "nat (ft_len f - (ft_bytes_done f + int (length d))) = ?n - length d"
    using assms(1) by (auto simp: valid_range_def)
  ultimately show "owed obj (f\<lparr>ft_bytes_done := ft_bytes_done f + int (length d)\<rparr>) = rest"
    by (simp add: owed_def)
qed

lemma owed_cong:
  "same_fetch f g \<Longrightarrow> owed obj g = owed obj f" "same_fetch f g \<Longrightarrow> valid_range obj g = valid_range obj f"
  by (simp_all add: same_fetch_def owed_def valid_range_def)

section \<open>A transport that serves the object\<close>

text \<open>Messages of transfers that are complete.\<close>

definition complete_msgs :: "nat list \<Rightarrow> curl_msg list" where
  "complete_msgs hs = map (\<lambda>h. CURLMSG_DONE h CURLE_OK 206) hs"

text \<open>
  \<open>served w h\<close>: the bytes still to come on handle \<open>h\<close>, \<open>None\<close> when it is not in use. A request
  with one valid range is answered with these bytes, in order.
\<close>

locale honest_transport =
  fixes M :: "'w multi_env" and obj :: "byte list" and served :: "'w \<Rightarrow> nat \<Rightarrow> byte list option"
  assumes init_new: "mu_easy_init M w = (Some h, w') \<Longrightarrow> served w h = None \<and> (\<forall>k. k \<noteq> h \<longrightarrow> served w' k = served w k)"
    and add_others: "k \<noteq> h \<Longrightarrow> served (mu_add M h url w) k = served w k"
    and range_served: "requested_range hs = Some (a, b) \<Longrightarrow> a \<le> b \<Longrightarrow> b < length obj \<Longrightarrow>
          served (mu_set_headers M h hs w) h = Some (subbuf a (b + 1 - a) obj)"
    and headers_others: "k \<noteq> h \<Longrightarrow> served (mu_set_headers M h hs w) k = served w k"
    and data_next: "mu_data M h n w = Some c \<Longrightarrow> served w h = Some s \<Longrightarrow> \<exists>t. s = c @ t"
    and taken: "served w h = Some s \<Longrightarrow> served (mu_taken M h (Some n) w) h = Some (drop n s)"
    and paused_kept: "served (mu_taken M h None w) h = served w h"
    and taken_others: "k \<noteq> h \<Longrightarrow> served (mu_taken M h r w) k = served w k"
    and resume_kept: "served (snd (mu_resume M h w)) = served w"
    and wait_kept: "served (snd (mu_wait M w)) = served w"
    and perform_kept: "served (snd (snd (mu_perform M w))) = served w"
    and pop_kept: "served (mu_pop M w) = served w"
    and close_others: "k \<noteq> h \<Longrightarrow> served (mu_close M h w) k = served w k"
begin

text \<open>A running fetcher and its handle together still hold what is owed; a finished one holds it alone.\<close>

definition fetch_inv :: "'w \<Rightarrow> fetcher \<Rightarrow> bool" where
  "fetch_inv w f \<longleftrightarrow> buff_ok f \<and> valid_range obj f \<and>
     (ft_state f = FETCHER_RUNNING \<and> (\<exists>h s. ft_curl f = Handle h \<and> served w h = Some s \<and> content f @ s = owed obj f) \<or>
      ft_state f = FETCHER_DONE \<and> ft_curl f = Null \<and> content f = owed obj f)"

lemma fetch_inv_cong:
  "fetch_inv w f \<Longrightarrow> (\<And>h. ft_curl f = Handle h \<Longrightarrow> served w' h = served w h) \<Longrightarrow> fetch_inv w' f"
  by (auto simp: fetch_inv_def)

lemma offer_inv:
  assumes "fetch_inv w f" and "ft_curl f = Handle h" and "offer M h n (f, w) = (f', w')"
  shows "fetch_inv w' f'" "same_fetch f f'" "k \<noteq> h \<Longrightarrow> served w' k = served w k"
proof -
  obtain s where s: "ft_state f = FETCHER_RUNNING" "served w h = Some s" "content f @ s = owed obj f" "buff_ok f" "valid_range obj f"
    using assms(1,2) by (auto simp: fetch_inv_def)
  have "fetch_inv w' f' \<and> same_fetch f f' \<and> (k \<noteq> h \<longrightarrow> served w' k = served w k)"
  proof (cases "mu_data M h n w")
    case None
    with assms show ?thesis by (simp add: offer_def)
  next
    case (Some c)
    obtain t where t: "s = c @ t" using data_next [OF Some s(2)] by blast
    obtain r where r: "WriterCallback c f = (r, f')" and w': "w' = mu_taken M h r w"
      using assms(3) Some by (auto simp: offer_def split: prod.splits)
    have f': "f' = snd (WriterCallback c f)" "r = fst (WriterCallback c f)" by (simp_all add: r)
    note frame = callback_frame [of f c, folded f'(1)]
    have "fetch_inv w' f'"
    proof (cases r)
      case None
      then have "content f' = content f" using callback_ok(2) [OF s(4), of c] by (simp add: r)
      with None s w' f' frame assms(2) callback_ok(1) [OF s(4), of c] paused_kept show ?thesis
        by (simp add: fetch_inv_def same_fetch_def owed_def valid_range_def)
    next
      case (Some m)
      then have "content f' = content f @ c" "m = length c"
        using callback_ok(2,3) [OF s(4), of c] by (auto simp: r split: if_splits)
      with Some s w' f' frame assms(2) callback_ok(1) [OF s(4), of c] taken [OF s(2)] t show ?thesis
        by (simp add: fetch_inv_def same_fetch_def owed_def valid_range_def)
    qed
    with frame w' taken_others show ?thesis by simp
  qed
  then show "fetch_inv w' f'" "same_fetch f f'" "k \<noteq> h \<Longrightarrow> served w' k = served w k" by simp_all
qed

lemma resume_inv:
  assumes "fetch_inv w f" and "ft_curl f = Handle h" and "fold (offer M h) ns (f, w) = (f', w')"
  shows "fetch_inv w' f'" "same_fetch f f'" "k \<noteq> h \<Longrightarrow> served w' k = served w k"
proof -
  have "fetch_inv w' f' \<and> same_fetch f f' \<and> (k \<noteq> h \<longrightarrow> served w' k = served w k)"
    using assms
  proof (induction ns arbitrary: f w)
    case (Cons n ns)
    obtain f1 w1 where o: "offer M h n (f, w) = (f1, w1)" by (cases "offer M h n (f, w)")
    note step = offer_inv [OF Cons.prems(1,2) o]
    have "ft_curl f1 = Handle h" using step(2) Cons.prems(2) by (simp add: same_fetch_def)
    with Cons.IH [OF step(1)] Cons.prems(3) o step(2,3) show ?case by (auto intro: same_fetch_trans)
  qed simp
  then show "fetch_inv w' f'" "same_fetch f f'" "k \<noteq> h \<Longrightarrow> served w' k = served w k" by simp_all
qed

text \<open>A fetcher that has not been started, and its start.\<close>

definition fresh :: "fetcher \<Rightarrow> bool" where
  "fresh f \<longleftrightarrow> ft_state f = FETCHER_INIT \<and> ft_buff f = None \<and> ft_nused f = 0 \<and> ft_read_off f = 0 \<and>
     ft_bytes_done f = 0 \<and> ft_headers f = [] \<and> valid_range obj f \<and> 0 < ft_len f"

lemma start_inv:
  assumes "fresh f" and "start M (f, w) = (Ret (), f', w')"
  shows "fetch_inv w' f'" "owed obj f' = owed obj f" "ft_state f' = FETCHER_RUNNING"
    and "\<exists>h. ft_curl f' = Handle h \<and> served w h = None \<and> (\<forall>k. k \<noteq> h \<longrightarrow> served w' k = served w k)"
proof -
  from assms(2) obtain f1 w1 h f2 w2 hs where a: "alloc_buffer M (f, w) = (Ret (), f1, w1)"
    and b: "begin_transfer M (f1, w1) = (Ret h, f2, w2)" and c: "signed_headers M f2 w2 = Ret hs"
    and w': "w' = mu_set_headers M h hs w2"
    and f': "f' = f2\<lparr>ft_headers := hs, ft_http_headers := Some hs, ft_state := FETCHER_RUNNING\<rparr>"
    unfolding start_Ret_iff by blast
  obtain n where f1: "f1 = f\<lparr>ft_buff_size := n, ft_buff := Some (replicate n NUL)\<rparr>" "w1 = w"
    using a assms(1) by (auto simp: alloc_buffer_def fresh_def Let_def split: if_splits)
  obtain w0 where init: "mu_easy_init M w = (Some h, w0)" and w2: "w2 = mu_add M h (ft_url f) w0"
    and f2: "f2 = f1\<lparr>ft_curl := Handle h, ft_parent := True\<rparr>"
    using b f1 by (auto simp: begin_transfer_def split: if_splits prod.splits option.splits)
  have len: "0 < ft_len f" "0 \<le> ft_offset f" "ft_offset f + ft_len f \<le> int (length obj)" "ft_bytes_done f = 0" "ft_headers f = []"
    using assms(1) by (auto simp: fresh_def valid_range_def)
  have pos: "resume_offset f2 = ft_offset f" "resume_len f2 = ft_len f"
    using assms(1) by (simp_all add: f2 f1 resume_offset_def resume_len_def unread_def fresh_def)
  have "filter is_range_line hs = [header_line RANGE (range_text (ft_offset f) (ft_len f))]"
    using len by (simp add: signed_ranges [OF c] range_headers_def pos filter_header_add Let_def) (simp add: f2 f1)
  then have "requested_range hs = Some (nat (ft_offset f), nat (ft_offset f + ft_len f - 1))"
    using parse_range_text [OF len(2,1)] by (simp add: requested_range_def header_line_def)
  moreover have "nat (ft_offset f) \<le> nat (ft_offset f + ft_len f - 1)" "nat (ft_offset f + ft_len f - 1) < length obj"
    using len by auto
  moreover have "nat (ft_offset f + ft_len f - 1) + 1 - nat (ft_offset f) = nat (ft_len f)" using len by auto
  ultimately have served: "served w' h = Some (owed obj f)"
    unfolding w' using range_served [of hs _ _ h w2] len(4) by (simp add: owed_def)
  have same: "owed obj f' = owed obj f" "valid_range obj f' = valid_range obj f" "ft_curl f' = Handle h" "unread f' = 0"
    using assms(1) by (simp_all add: f' f2 f1 owed_def valid_range_def unread_def fresh_def)
  then have "content f' = []" "buff_ok f'"
    using assms(1) by (simp_all add: content_def f' f2 f1 buff_ok_def ft_block_def fresh_def)
  with same served assms(1) show "fetch_inv w' f'" by (simp add: fetch_inv_def fresh_def f')
  show "owed obj f' = owed obj f" by (rule same)
  show "ft_state f' = FETCHER_RUNNING" by (simp add: f')
  show "\<exists>h. ft_curl f' = Handle h \<and> served w h = None \<and> (\<forall>k. k \<noteq> h \<longrightarrow> served w' k = served w k)"
    using same(3) init_new [OF init] add_others headers_others by (auto simp: w' w2)
qed

lemma take_inv:
  assumes "fetch_inv w f" and "take_data n f = (d, f')"
  shows "fetch_inv w f'" "owed obj f = d @ owed obj f'" "ft_curl f' = ft_curl f"
proof -
  have ok: "buff_ok f" "valid_range obj f" using assms(1) by (auto simp: fetch_inv_def)
  note td = take_data_ok [OF ok(1), of n, unfolded assms(2), simplified]
  have upd: "f' = f\<lparr>ft_read_off := ft_read_off f', ft_bytes_done := ft_bytes_done f'\<rparr>"
    using assms(2) by (auto simp: take_data_def Let_def)
  have handed: "ft_bytes_done f' = ft_bytes_done f + int (length d)" using td(3,4) by simp
  have split: "\<exists>rest. owed obj f = d @ rest \<and> (\<forall>s. content f @ s = owed obj f \<longrightarrow> content f' @ s = rest)"
    using assms(1) td(2) by (auto simp: fetch_inv_def) (metis append_assoc same_append_eq)
  then obtain rest where rest: "owed obj f = d @ rest" "\<And>s. content f @ s = owed obj f \<Longrightarrow> content f' @ s = rest" by blast
  have "owed obj f' = rest" "valid_range obj f'"
    using owed_taken [OF ok(2) rest(1)] handed by (simp_all add: owed_def valid_range_def) (subst upd, simp add: handed)+
  moreover have "ft_curl f' = ft_curl f" "ft_state f' = ft_state f" by (subst upd, simp)+
  ultimately show "fetch_inv w f'" "owed obj f = d @ owed obj f'" "ft_curl f' = ft_curl f"
    using assms(1) rest td(1) rest(2) [of "[]"] by (auto simp: fetch_inv_def)
qed

text \<open>\<open>get\<close> keeps the invariant, whether it resumes a paused handle or not.\<close>

definition read_post :: "'w \<Rightarrow> fetcher \<Rightarrow> (byte list \<times> bool) outcome \<times> fetcher \<times> 'w \<Rightarrow> bool" where
  "read_post w f y \<longleftrightarrow> (case y of (r, f', w') \<Rightarrow>
     \<exists>d eof. r = Ret (d, eof) \<and> fetch_inv w' f' \<and> owed obj f = d @ owed obj f' \<and> ft_curl f' = ft_curl f \<and>
       (\<forall>k. ft_curl f \<noteq> Handle k \<longrightarrow> served w' k = served w k) \<and>
       (eof \<longrightarrow> d = [] \<and> ft_state f' = FETCHER_DONE \<and> owed obj f' = []) \<and>
       (\<not> eof \<and> d = [] \<longrightarrow> ft_state f' = FETCHER_RUNNING \<and> unread f' = 0 \<and> \<not> ft_paused f'))"

lemma fetch_inv_unpaused: "fetch_inv w (f\<lparr>ft_paused := b\<rparr>) = fetch_inv w f" "owed obj (f\<lparr>ft_paused := b\<rparr>) = owed obj f"
  by (simp_all add: fetch_inv_def buff_ok_def content_def unread_def valid_range_def owed_def)

lemma read_post_mono:
  assumes "read_post w1 f1 y" and "owed obj f1 = owed obj f" and "ft_curl f1 = ft_curl f"
    and "\<And>k. ft_curl f \<noteq> Handle k \<Longrightarrow> served w1 k = served w k"
  shows "read_post w f y"
  using assms by (auto simp: read_post_def)

lemma get_inv_raw:
  assumes "get_data N n s = Some y"
  shows "N = M \<Longrightarrow> fetch_inv (snd s) (fst s) \<Longrightarrow> 0 < n \<Longrightarrow> read_post (snd s) (fst s) y"
  using assms
proof (induction rule: get_data.raw_induct [rotated, consumes 1])
  case (1 get N n s y)
  obtain f w where s: "s = (f, w)" by (cases s)
  note IH = 1(1) and run = 1(2) and M = 1(3) and inv = 1(4) [unfolded s fst_conv snd_conv] and n = 1(5)
  have ok: "buff_ok f" using inv by (simp add: fetch_inv_def)
  consider (data) "0 < unread f" | (paused) "unread f = 0" "ft_paused f" | (none) "unread f = 0" "\<not> ft_paused f" by blast
  then show ?case
  proof cases
    case data
    obtain d f' where t: "take_data n f = (d, f')" by (cases "take_data n f")
    have "d \<noteq> []" using take_data_ok(3) [OF ok, of n] data n by (auto simp: t)
    with take_inv [OF inv t] data run show ?thesis by (auto simp: s t read_post_def)
  next
    case paused
    let ?f = "f\<lparr>ft_paused := False\<rparr>"
    have inv': "fetch_inv w ?f" using inv by (simp add: fetch_inv_unpaused)
    show ?thesis
    proof (cases "ft_curl f")
      case (Handle h)
      obtain ns w0 where r: "mu_resume M h w = (ns, w0)" by (cases "mu_resume M h w")
      obtain f1 w1 where o: "fold (offer M h) ns (?f, w0) = (f1, w1)" by (cases "fold (offer M h) ns (?f, w0)")
      have kept: "served w0 = served w" using resume_kept [of h w] by (simp add: r)
      then have "fetch_inv w0 ?f" using fetch_inv_cong [OF inv'] by metis
      note res = resume_inv [OF this _ o]
      have "get M n (f1, w1) = Some y" using run paused Handle M by (simp add: s r o)
      then have "read_post w1 f1 y" using IH [of M n "(f1, w1)" y] res(1) Handle n by simp
      moreover have "owed obj f1 = owed obj f" "ft_curl f1 = ft_curl f"
        using res(2) Handle owed_cong(1) [of ?f f1 obj] by (auto simp: same_fetch_def fetch_inv_unpaused)
      ultimately show ?thesis using res(3) Handle kept by (auto simp: s intro: read_post_mono)
    next
      case Null
      then have "get M n (?f, w) = Some y" using run paused M by (simp add: s)
      with IH [of M n "(?f, w)" y] inv' n show ?thesis by (auto simp: s fetch_inv_unpaused intro: read_post_mono)
    qed (use inv in \<open>auto simp: fetch_inv_def\<close>)
  next
    case none
    then have "y = (Ret ([], ft_state f = FETCHER_DONE), f, w)" using run by (simp add: s)
    moreover have "content f = []" using none ok by (metis length_content length_0_conv)
    ultimately show ?thesis using inv none by (auto simp: s read_post_def fetch_inv_def)
  qed
qed

lemma get_inv: "get_data M n (f, w) = Some y \<Longrightarrow> fetch_inv w f \<Longrightarrow> 0 < n \<Longrightarrow> read_post w f y"
  using get_inv_raw [of M n "(f, w)" y] by simp

text \<open>The active list: every fetcher in order, no handle twice.\<close>

primrec active_inv :: "'w \<Rightarrow> fetcher list \<Rightarrow> bool" where
  "active_inv w [] = True"
| "active_inv w (f # fs) = (fetch_inv w f \<and> active_inv w fs \<and>
     (\<forall>h. ft_curl f = Handle h \<longrightarrow> (\<forall>g \<in> set fs. ft_curl g \<noteq> Handle h)))"

definition owed_all :: "fetcher list \<Rightarrow> byte list" where
  "owed_all fs = concat (map (owed obj) fs)"

lemma owed_all_simps [simp]:
  "owed_all [] = []" "owed_all (f # fs) = owed obj f @ owed_all fs" "owed_all (fs @ gs) = owed_all fs @ owed_all gs"
  by (simp_all add: owed_all_def)

lemma active_inv_member: "active_inv w fs \<Longrightarrow> f \<in> set fs \<Longrightarrow> fetch_inv w f"
  by (induction fs) auto

lemma active_inv_cong:
  "active_inv w fs \<Longrightarrow> \<forall>g \<in> set fs. \<forall>h. ft_curl g = Handle h \<longrightarrow> served w' h = served w h \<Longrightarrow> active_inv w' fs"
proof (induction fs)
  case (Cons f fs)
  then have "fetch_inv w' f" using fetch_inv_cong [of w f w'] by simp
  with Cons show ?case by simp
qed simp

lemma active_inv_snoc:
  "active_inv w fs \<Longrightarrow> fetch_inv w f \<Longrightarrow> \<forall>g \<in> set fs. \<forall>h. ft_curl f = Handle h \<longrightarrow> ft_curl g \<noteq> Handle h \<Longrightarrow>
   active_inv w (fs @ [f])"
proof (induction fs)
  case (Cons g fs)
  then have "active_inv w (fs @ [f])" by simp
  with Cons.prems show ?case by (cases "ft_curl f") auto
qed simp

lemma launch_inv:
  "launch_loop M n active waiting w = (Ret (), active', waiting', w') \<Longrightarrow> active_inv w active \<Longrightarrow>
   list_all fresh waiting \<Longrightarrow>
     active_inv w' active' \<and> list_all fresh waiting' \<and> owed_all (active' @ waiting') = owed_all (active @ waiting) \<and>
     (\<exists>new. active' = active @ new) \<and> (0 < n \<and> active' = [] \<longrightarrow> waiting' = [])"
proof (induction waiting arbitrary: active w)
  case (Cons f fs)
  show ?case
  proof (cases "int (length active) < n")
    case True
    obtain r f1 w1 where st: "start M (f, w) = (r, f1, w1)" by (cases "start M (f, w)")
    with Cons.prems(1) True have r: "r = Ret ()" "launch_loop M n (active @ [f1]) fs w1 = (Ret (), active', waiting', w')"
      by (auto split: outcome.splits)
    have f: "fresh f" using Cons.prems(3) by simp
    note sv = start_inv [OF f st [unfolded r(1)]]
    obtain h where h: "ft_curl f1 = Handle h" "served w h = None" "\<And>k. k \<noteq> h \<Longrightarrow> served w1 k = served w k"
      using sv(4) by blast
    have other: "ft_curl g \<noteq> Handle h" if "g \<in> set active" for g
      using active_inv_member [OF Cons.prems(2) that] h(2) by (auto simp: fetch_inv_def)
    have "active_inv w1 active" by (rule active_inv_cong [OF Cons.prems(2)]) (use other h(3) in metis)
    then have "active_inv w1 (active @ [f1])" by (rule active_inv_snoc) (use sv(1) other h(1) in auto)
    with Cons.IH [OF r(2)] Cons.prems(3) sv(2) show ?thesis by auto
  next
    case False
    with Cons.prems show ?thesis by auto
  qed
qed auto

lemma same_list_curl: "list_all2 same_fetch fs gs \<Longrightarrow> map ft_curl gs = map ft_curl fs"
  by (induction rule: list_all2_induct) (simp_all add: same_fetch_def)

lemma offer_to_inv:
  "offer_to M e (fs, w) = (fs', w') \<Longrightarrow> active_inv w fs \<Longrightarrow>
     active_inv w' fs' \<and> list_all2 same_fetch fs fs' \<and> (\<forall>k. k \<noteq> fst e \<longrightarrow> served w' k = served w k)"
proof (induction fs arbitrary: fs' w w')
  case (Cons f fs)
  show ?case
  proof (cases "ft_curl f = Handle (fst e)")
    case True
    then obtain f1 where o: "offer M (fst e) (snd e) (f, w) = (f1, w')" "fs' = f1 # fs"
      using Cons.prems(1) by (auto split: prod.splits)
    have inv: "fetch_inv w f" using Cons.prems(2) by simp
    note of_inv = offer_inv [OF inv True o(1)]
    have "ft_curl f1 = Handle (fst e)" using of_inv(2) True by (simp add: same_fetch_def)
    moreover have "active_inv w' fs"
      by (rule active_inv_cong [of w]) (use Cons.prems(2) True of_inv(3) in force)+
    ultimately show ?thesis
      using of_inv Cons.prems(2) True by (auto simp: o(2) list.rel_refl)
  next
    case False
    then obtain fs1 where o: "offer_to M e (fs, w) = (fs1, w')" "fs' = f # fs1"
      using Cons.prems(1) by (auto split: prod.splits)
    note IH = Cons.IH [OF o(1)]
    have fs: "active_inv w fs" using Cons.prems(2) by simp
    have f: "fetch_inv w' f"
      by (rule fetch_inv_cong [of w]) (use Cons.prems(2) IH fs False in auto)
    have "ft_curl ` set fs1 = ft_curl ` set fs" using IH fs same_list_curl by (metis list.set_map)
    then have "\<forall>h. ft_curl f = Handle h \<longrightarrow> (\<forall>g \<in> set fs1. ft_curl g \<noteq> Handle h)"
      using Cons.prems(2) by (metis active_inv.simps(2) image_iff)
    with f IH fs show ?thesis by (simp add: o(2))
  qed
qed simp

lemma same_list_owed: "list_all2 same_fetch fs gs \<Longrightarrow> owed_all gs = owed_all fs"
  by (induction rule: list_all2_induct) (simp_all add: owed_cong(1))

lemma same_list_refl: "list_all2 same_fetch fs fs"
  by (simp add: list.rel_refl)

lemma same_list_trans: "list_all2 same_fetch fs gs \<Longrightarrow> list_all2 same_fetch gs hs \<Longrightarrow> list_all2 same_fetch fs hs"
  by (rule list_all2_trans [of same_fetch same_fetch same_fetch]) (auto intro: same_fetch_trans)

lemma offers_inv:
  "fold (offer_to M) es (fs, w) = (fs', w') \<Longrightarrow> active_inv w fs \<Longrightarrow> active_inv w' fs' \<and> list_all2 same_fetch fs fs'"
proof (induction es arbitrary: fs w)
  case (Cons e es)
  obtain fs1 w1 where o: "offer_to M e (fs, w) = (fs1, w1)" by (cases "offer_to M e (fs, w)")
  with Cons.IH [of fs1 w1] offer_to_inv [OF o] Cons.prems show ?case by (auto intro: same_list_trans)
qed (simp add: same_list_refl)

text \<open>What a completed transfer does to the fetcher of its handle.\<close>

definition finished :: "fetcher \<Rightarrow> fetcher" where
  "finished f = f\<lparr>ft_parent := False, ft_curl := Null, ft_http_headers := None, ft_state := FETCHER_DONE\<rparr>"

definition finish :: "nat \<Rightarrow> fetcher \<Rightarrow> fetcher" where
  "finish h f = (if ft_curl f = Handle h then finished f else f)"

lemma finished_simps [simp]:
  "ft_curl (finished f) = Null" "ft_state (finished f) = FETCHER_DONE" "unread (finished f) = unread f"
  "owed obj (finished f) = owed obj f" "content (finished f) = content f" "buff_ok (finished f) = buff_ok f"
  "valid_range obj (finished f) = valid_range obj f" "ft_paused (finished f) = ft_paused f"
  by (simp_all add: finished_def unread_def owed_def content_def buff_ok_def valid_range_def ft_block_def)

lemma finish_others: "\<forall>g \<in> set fs. ft_curl g \<noteq> Handle h \<Longrightarrow> map (finish h) fs = fs"
  by (induction fs) (auto simp: finish_def)

lemma handleResult_ok:
  "ft_curl f = Handle h \<Longrightarrow> handleResult M CURLE_OK 206 (f, w) = (Ret (), finished f, mu_close M h w)"
  by (simp add: handleResult_def fetch_done_def cleanup_def then_call_def finished_def)

lemma dispatch_ok:
  "active_inv w fs \<Longrightarrow> Handle h \<in> ft_curl ` set fs \<Longrightarrow>
     dispatch M h CURLE_OK 206 (fs, v) = (Ret (), map (finish h) fs, mu_close M h v)"
proof (induction fs)
  case (Cons f fs)
  have init: "ft_curl f \<noteq> Uninitialised" using Cons.prems(1) by (auto simp: fetch_inv_def)
  show ?case
  proof (cases "ft_curl f = Handle h")
    case True
    with Cons.prems finish_others [of fs h] show ?thesis by (simp add: handleResult_ok) (simp add: finish_def)
  next
    case False
    with Cons init show ?thesis by (auto simp: finish_def)
  qed
qed simp

lemma finish_inv:
  "active_inv w fs \<Longrightarrow> served w h = Some [] \<Longrightarrow>
     active_inv (mu_close M h w) (map (finish h) fs) \<and> owed_all (map (finish h) fs) = owed_all fs"
proof (induction fs)
  case (Cons f fs)
  have f: "fetch_inv (mu_close M h w) (finish h f)"
  proof (cases "ft_curl f = Handle h")
    case True
    with Cons.prems show ?thesis by (auto simp: fetch_inv_def finish_def)
  next
    case False
    have "fetch_inv (mu_close M h w) f"
      by (rule fetch_inv_cong [of w]) (use Cons.prems False close_others in auto)
    with False show ?thesis by (simp add: finish_def)
  qed
  moreover have "ft_curl (finish h f) = Handle k \<Longrightarrow> \<forall>g \<in> set fs. ft_curl (finish h g) \<noteq> Handle k" for k
    using Cons.prems(1) by (auto simp: finish_def split: if_splits)
  moreover have "owed obj (finish h f) = owed obj f" by (simp add: finish_def)
  ultimately show ?case using Cons by auto
qed simp

definition finish_all :: "nat list \<Rightarrow> fetcher list \<Rightarrow> fetcher list" where
  "finish_all hs fs = map (\<lambda>f. if \<exists>h \<in> set hs. ft_curl f = Handle h then finished f else f) fs"

lemma finish_all_Cons: "h \<notin> set hs \<Longrightarrow> finish_all hs (map (finish h) fs) = finish_all (h # hs) fs"
  by (induction fs) (auto simp: finish_all_def finish_def)

fun close_all :: "nat list \<Rightarrow> 'w \<Rightarrow> 'w" where
  "close_all [] w = w"
| "close_all (h # hs) w = close_all hs (mu_close M h (mu_pop M w))"

lemma messages_run:
  "active_inv w fs \<Longrightarrow> distinct hs \<Longrightarrow> \<forall>h \<in> set hs. Handle h \<in> ft_curl ` set fs \<and> served w h = Some [] \<Longrightarrow>
     handle_messages M (complete_msgs hs) (fs, w) = (Ret (), finish_all hs fs, close_all hs w) \<and>
     active_inv (close_all hs w) (finish_all hs fs) \<and> owed_all (finish_all hs fs) = owed_all fs"
proof (induction hs arbitrary: fs w)
  case Nil
  then show ?case by (simp add: complete_msgs_def finish_all_def)
next
  case (Cons h hs)
  let ?w = "mu_pop M w"
  have inv: "active_inv ?w fs" by (rule active_inv_cong [OF Cons.prems(1)]) (simp add: pop_kept)
  have h: "Handle h \<in> ft_curl ` set fs" "served ?w h = Some []" using Cons.prems(3) by (auto simp: pop_kept)
  note fin = finish_inv [OF inv h(2)]
  have "Handle k \<in> ft_curl ` set (map (finish h) fs) \<and> served (mu_close M h ?w) k = Some []" if "k \<in> set hs" for k
  proof -
    have "k \<noteq> h" "Handle k \<in> ft_curl ` set fs" "served w k = Some []" using that Cons.prems(2,3) by auto
    then show ?thesis using close_others [of k h ?w] by (force simp: finish_def pop_kept image_iff)
  qed
  then have "\<forall>k \<in> set hs. Handle k \<in> ft_curl ` set (map (finish h) fs) \<and> served (mu_close M h ?w) k = Some []" by blast
  from Cons.IH [OF fin [THEN conjunct1] _ this] Cons.prems(2) fin dispatch_ok [OF inv h(1), of ?w] show ?case
    by (simp add: complete_msgs_def then_call_def finish_all_Cons)
qed

end

end
