(* ===== verification/QS_Delivery.thy ===== *)
theory QS_Delivery
  imports QS_Transport
begin

text \<open>
  A transport that makes progress (\<open>prompt_transport\<close>), against which every read of the
  pipeline returns, with the next bytes of what is owed or the end of the data.
\<close>

section \<open>Progress\<close>

text \<open>
  \<open>held w h\<close>: the handle is paused; \<open>stall w\<close>: how many more calls of
  \<open>curl_multi_perform\<close> may leave a handle without data. The transport reports exactly the
  transfers whose bytes have all been taken.
\<close>

locale prompt_transport = honest_transport M obj served
  for M :: "'w multi_env" and obj :: "byte list" and served :: "'w \<Rightarrow> nat \<Rightarrow> byte list option" +
  fixes held :: "'w \<Rightarrow> nat \<Rightarrow> bool" and stall :: "'w \<Rightarrow> nat"
  assumes malloc_ok: "mu_malloc M w"
    and init_ok: "\<exists>h w'. mu_easy_init M w = (Some h, w') \<and> stall w' = stall w \<and> \<not> held w' h \<and> served w' h = None \<and>
          (\<forall>k. k \<noteq> h \<longrightarrow> held w' k = held w k)"
    and add_kept: "stall (mu_add M h url w) = stall w" "held (mu_add M h url w) = held w"
          "served (mu_add M h url w) = served w"
    and headers_kept: "stall (mu_set_headers M h hs w) = stall w" "held (mu_set_headers M h hs w) = held w"
    and close_kept: "stall (mu_close M h w) = stall w" "k \<noteq> h \<Longrightarrow> held (mu_close M h w) k = held w k"
          "served (mu_close M h w) h = None"
    and pop_kept2: "stall (mu_pop M w) = stall w" "held (mu_pop M w) = held w"
    and wait_ok: "\<exists>w'. mu_wait M w = (None, w') \<and> stall w' = stall w \<and> held w' = held w"
    and perform_ok: "\<exists>calls w'. mu_perform M w = (calls, None, w') \<and> held w' = held w \<and> (\<forall>c \<in> set calls. 0 < snd c) \<and>
          (stall w' < stall w \<or> stall w' = stall w \<and>
             (\<forall>h s. served w h = Some s \<and> s \<noteq> [] \<longrightarrow> h \<in> fst ` set calls))"
    and messages_ok: "\<exists>hs. mu_messages M w = complete_msgs hs \<and> distinct hs \<and> set hs = {h. served w h = Some []}"
    and data_some: "0 < n \<Longrightarrow> served w h = Some s \<Longrightarrow> s \<noteq> [] \<Longrightarrow> \<not> held w h \<Longrightarrow> \<exists>c. mu_data M h n w = Some c \<and> c \<noteq> []"
    and data_small: "mu_data M h n w = Some c \<Longrightarrow> length c \<le> 16384"
    and taken_kept: "stall (mu_taken M h r w) = stall w" "held (mu_taken M h r w) k = (held w k \<or> k = h \<and> r = None)"
          "served w k = None \<Longrightarrow> served (mu_taken M h r w) k = None"
    and resume_kept2: "stall (snd (mu_resume M h w)) = stall w" "held (snd (mu_resume M h w)) k = (held w k \<and> k \<noteq> h)"
begin

text \<open>A paused handle is flagged in its fetcher, and the buffer takes any block of libcurl.\<close>

definition alive :: "'w \<Rightarrow> fetcher \<Rightarrow> bool" where
  "alive w f \<longleftrightarrow> (\<forall>h. ft_curl f = Handle h \<longrightarrow> (held w h \<longrightarrow> ft_paused f) \<and> 16384 \<le> ft_buff_size f)"

lemma offer_alive:
  assumes "fetch_inv w f" and "ft_curl f = Handle h" and "alive w f" and "offer M h n (f, w) = (f', w')"
  shows "alive w' f'" "stall w' = stall w" "\<forall>k. k \<noteq> h \<longrightarrow> held w' k = held w k" "unread f \<le> unread f'"
    "ft_paused f' \<Longrightarrow> ft_paused f \<or> 0 < unread f'"
    "0 < n \<Longrightarrow> served w h = Some s \<Longrightarrow> s \<noteq> [] \<Longrightarrow> \<not> held w h \<Longrightarrow> unread f = 0 \<Longrightarrow> 0 < unread f'"
    "served w k = None \<Longrightarrow> served w' k = None"
proof -
  have ok: "buff_ok f" using assms(1) by (simp add: fetch_inv_def)
  have big: "16384 \<le> ft_buff_size f" "held w h \<longrightarrow> ft_paused f" using assms(2,3) by (simp_all add: alive_def)
  have curl: "ft_curl f' = Handle h" "ft_buff_size f' = ft_buff_size f"
    using offer_inv(2) [OF assms(1,2,4)] assms(2) by (simp_all add: same_fetch_def)
  have "alive w' f' \<and> stall w' = stall w \<and> (\<forall>k. k \<noteq> h \<longrightarrow> held w' k = held w k) \<and> unread f \<le> unread f' \<and>
    (ft_paused f' \<longrightarrow> ft_paused f \<or> 0 < unread f') \<and>
    (0 < n \<and> served w h = Some s \<and> s \<noteq> [] \<and> \<not> held w h \<and> unread f = 0 \<longrightarrow> 0 < unread f') \<and>
    (served w k = None \<longrightarrow> served w' k = None)"
  proof (cases "mu_data M h n w")
    case None
    with assms show ?thesis using data_some [of n w h s] by (auto simp: offer_def)
  next
    case (Some c)
    obtain r where r: "WriterCallback c f = (r, f')" and w': "w' = mu_taken M h r w"
      using assms(4) Some by (auto simp: offer_def split: prod.splits)
    note cb = callback_ok [OF ok, of c, unfolded r fst_conv snd_conv]
    have unread: "unread f' = unread f + (if r = None then 0 else length c)"
      using cb(2) length_content [OF cb(1)] length_content [OF ok] by (auto split: if_splits)
    have "length c \<le> 16384" by (rule data_small [OF Some])
    then have "r = None \<Longrightarrow> 0 < unread f" using cb(3) big(1) by (auto split: if_splits)
    moreover have "0 < n \<and> served w h = Some s \<and> s \<noteq> [] \<and> \<not> held w h \<longrightarrow> c \<noteq> []" using data_some [of n w h s] Some by auto
    ultimately show ?thesis
      using unread cb(4) big curl taken_kept by (auto simp: alive_def w')
  qed
  then show "alive w' f'" "stall w' = stall w" "\<forall>k. k \<noteq> h \<longrightarrow> held w' k = held w k" "unread f \<le> unread f'"
    "ft_paused f' \<Longrightarrow> ft_paused f \<or> 0 < unread f'"
    "0 < n \<Longrightarrow> served w h = Some s \<Longrightarrow> s \<noteq> [] \<Longrightarrow> \<not> held w h \<Longrightarrow> unread f = 0 \<Longrightarrow> 0 < unread f'"
    "served w k = None \<Longrightarrow> served w' k = None" by simp_all
qed

lemma resume_alive:
  assumes "fetch_inv w f" and "ft_curl f = Handle h" and "alive w f" and "fold (offer M h) ns (f, w) = (f', w')"
  shows "alive w' f' \<and> stall w' = stall w \<and> (\<forall>k. k \<noteq> h \<longrightarrow> held w' k = held w k) \<and> unread f \<le> unread f' \<and>
    (ft_paused f' \<longrightarrow> ft_paused f \<or> 0 < unread f') \<and> (\<forall>k. served w k = None \<longrightarrow> served w' k = None)"
  using assms
proof (induction ns arbitrary: f w)
  case (Cons n ns)
  obtain f1 w1 where o: "offer M h n (f, w) = (f1, w1)" by (cases "offer M h n (f, w)")
  note inv = offer_inv [OF Cons.prems(1,2) o] and al = offer_alive [OF Cons.prems(1-3) o]
  have "ft_curl f1 = Handle h" using inv(2) Cons.prems(2) by (simp add: same_fetch_def)
  from Cons.IH [OF inv(1) this al(1)] Cons.prems(4) o have "alive w' f' \<and> stall w' = stall w1 \<and>
    (\<forall>k. k \<noteq> h \<longrightarrow> held w' k = held w1 k) \<and> unread f1 \<le> unread f' \<and>
    (ft_paused f' \<longrightarrow> ft_paused f1 \<or> 0 < unread f') \<and> (\<forall>k. served w1 k = None \<longrightarrow> served w' k = None)" by simp
  with al(2-5,7) show ?case by auto
qed simp

text \<open>What \<open>get\<close> leaves of the transport.\<close>

definition got :: "'w \<Rightarrow> fetcher \<Rightarrow> fetcher \<times> 'w \<Rightarrow> bool" where
  "got w f s \<longleftrightarrow> (case s of (f', w') \<Rightarrow> alive w' f' \<and> stall w' = stall w \<and>
     (\<forall>k. ft_curl f \<noteq> Handle k \<longrightarrow> held w' k = held w k) \<and> (\<forall>k. served w k = None \<longrightarrow> served w' k = None))"

lemma get_settled:
  assumes "alive w f" and "0 < unread f \<or> \<not> ft_paused f"
  shows "\<exists>y. get_data M n (f, w) = Some y \<and> got w f (snd y)"
proof (cases "0 < unread f")
  case True
  have "alive w (snd (take_data n f))" using assms(1) by (simp add: alive_def take_data_def Let_def)
  with True show ?thesis by (subst get_data.simps) (auto simp: got_def split: prod.split)
next
  case False
  with assms show ?thesis by (subst get_data.simps) (simp add: got_def)
qed

lemma got_mono:
  "got w1 f1 s \<Longrightarrow> ft_curl f1 = ft_curl f \<Longrightarrow> stall w1 = stall w \<Longrightarrow> \<forall>k. ft_curl f \<noteq> Handle k \<longrightarrow> held w1 k = held w k \<Longrightarrow>
     \<forall>k. served w k = None \<longrightarrow> served w1 k = None \<Longrightarrow> got w f s"
  by (auto simp: got_def)

lemma get_total:
  assumes "fetch_inv w f" and "alive w f"
  shows "\<exists>y. get_data M n (f, w) = Some y \<and> got w f (snd y)"
proof (cases "0 < unread f \<or> \<not> ft_paused f")
  case False
  let ?f = "f\<lparr>ft_paused := False\<rparr>"
  have unread: "unread ?f = unread f" by (simp add: unread_def)
  show ?thesis
  proof (cases "ft_curl f")
    case (Handle h)
    obtain ns w0 where r: "mu_resume M h w = (ns, w0)" by (cases "mu_resume M h w")
    obtain f1 w1 where o: "fold (offer M h) ns (?f, w0) = (f1, w1)" by (cases "fold (offer M h) ns (?f, w0)")
    have kept: "served w0 = served w" "stall w0 = stall w" "\<And>k. held w0 k = (held w k \<and> k \<noteq> h)"
      using resume_kept [of h w] resume_kept2 [of h w] by (simp_all add: r)
    have inv: "fetch_inv w0 ?f" using fetch_inv_cong [of w ?f w0] assms(1) kept(1) by (simp add: fetch_inv_unpaused)
    have al: "alive w0 ?f" using assms(2) kept(3) Handle by (auto simp: alive_def)
    have c: "ft_curl ?f = Handle h" using Handle by simp
    note res = resume_alive [OF inv c al o] and res2 = resume_inv(2) [OF inv c o]
    have "0 < unread f1 \<or> \<not> ft_paused f1" using res by auto
    then obtain y where y: "get_data M n (f1, w1) = Some y" "got w1 f1 (snd y)" using get_settled res by blast
    have "got w f (snd y)"
      by (rule got_mono [OF y(2)]) (use res res2 kept Handle in \<open>auto simp: same_fetch_def\<close>)
    moreover have "get_data M n (f, w) = Some y" using False Handle y(1) by (subst get_data.simps) (simp add: r o)
    ultimately show ?thesis by blast
  next
    case Null
    have "alive w ?f" using assms(2) by (simp add: alive_def Null)
    then obtain y where y: "get_data M n (?f, w) = Some y" "got w ?f (snd y)" using get_settled by fastforce
    have "get_data M n (f, w) = Some y" using False Null y(1) by (subst get_data.simps) simp
    moreover have "got w f (snd y)" by (rule got_mono [OF y(2)]) simp_all
    ultimately show ?thesis by blast
  qed (use assms(1) in \<open>auto simp: fetch_inv_def\<close>)
qed (use get_settled assms(2) in blast)

section \<open>The lists\<close>

definition alive_all :: "'w \<Rightarrow> fetcher list \<Rightarrow> bool" where
  "alive_all w fs \<longleftrightarrow> (\<forall>f \<in> set fs. alive w f) \<and> (\<forall>h. served w h \<noteq> None \<longrightarrow> Handle h \<in> ft_curl ` set fs)"

lemma alive_cong: "alive w f \<Longrightarrow> \<forall>h. ft_curl f = Handle h \<longrightarrow> held w' h = held w h \<Longrightarrow> alive w' f"
  by (simp add: alive_def)

lemma offer_to_alive:
  "offer_to M e (fs, w) = (fs', w') \<Longrightarrow> active_inv w fs \<Longrightarrow> \<forall>f \<in> set fs. alive w f \<Longrightarrow>
     (\<forall>f \<in> set fs'. alive w' f) \<and> stall w' = stall w \<and> (\<forall>k. k \<noteq> fst e \<longrightarrow> held w' k = held w k) \<and>
     (\<forall>k. served w k = None \<longrightarrow> served w' k = None) \<and> list_all2 (\<lambda>f g. unread f \<le> unread g) fs fs'"
proof (induction fs arbitrary: fs' w w')
  case (Cons f fs)
  have f: "fetch_inv w f" "alive w f" "active_inv w fs" "\<forall>g \<in> set fs. alive w g" using Cons.prems by simp_all
  show ?case
  proof (cases "ft_curl f = Handle (fst e)")
    case True
    then obtain f1 where o: "offer M (fst e) (snd e) (f, w) = (f1, w')" "fs' = f1 # fs"
      using Cons.prems(1) by (auto split: prod.splits)
    note al = offer_alive [OF f(1) True f(2) o(1)]
    have "alive w' g" if "g \<in> set fs" for g
      by (rule alive_cong [of w]) (use f(4) that al(3) True Cons.prems(2) in auto)
    with al show ?thesis by (auto simp: o(2) list_all2_same)
  next
    case False
    then obtain fs1 where o: "offer_to M e (fs, w) = (fs1, w')" "fs' = f # fs1"
      using Cons.prems(1) by (auto split: prod.splits)
    note IH = Cons.IH [OF o(1) f(3,4)]
    have "alive w' f" by (rule alive_cong [OF f(2)]) (use IH False in auto)
    with IH show ?thesis by (simp add: o(2))
  qed
qed simp

lemma longer_refl: "list_all2 (\<lambda>f g. unread f \<le> unread g) fs fs"
  by (simp add: list_all2_same)

lemma longer_trans:
  "list_all2 (\<lambda>f g. unread f \<le> unread g) fs gs \<Longrightarrow> list_all2 (\<lambda>f g. unread f \<le> unread g) gs hs \<Longrightarrow>
   list_all2 (\<lambda>f g. unread f \<le> unread g) fs hs"
  by (rule list_all2_trans [of "\<lambda>f g. unread f \<le> unread g" "\<lambda>f g. unread f \<le> unread g"]) auto

lemma offers_alive:
  "fold (offer_to M) es (fs, w) = (fs', w') \<Longrightarrow> active_inv w fs \<Longrightarrow> alive_all w fs \<Longrightarrow>
     alive_all w' fs' \<and> stall w' = stall w \<and> list_all2 (\<lambda>f g. unread f \<le> unread g) fs fs'"
proof (induction es arbitrary: fs w)
  case (Cons e es)
  obtain fs1 w1 where o: "offer_to M e (fs, w) = (fs1, w1)" by (cases "offer_to M e (fs, w)")
  note inv = offer_to_inv [OF o Cons.prems(2)]
  have al: "\<forall>f \<in> set fs. alive w f" using Cons.prems(3) by (simp add: alive_all_def)
  note step = offer_to_alive [OF o Cons.prems(2) al]
  have "ft_curl ` set fs1 = ft_curl ` set fs" using inv same_list_curl by (metis list.set_map)
  moreover have "served w1 h \<noteq> None \<Longrightarrow> served w h \<noteq> None" for h using step by metis
  ultimately have "alive_all w1 fs1" using step Cons.prems(3) unfolding alive_all_def by simp
  with Cons.IH [of fs1 w1] Cons.prems(1) inv step o show ?case by (auto intro: longer_trans)
qed (simp add: longer_refl)

text \<open>The head of the list gets data when its handle is among the calls.\<close>

lemma head_progress:
  "fold (offer_to M) es (f # fs, w) = (fs', w') \<Longrightarrow> active_inv w (f # fs) \<Longrightarrow> \<forall>g \<in> set (f # fs). alive w g \<Longrightarrow>
   ft_curl f = Handle h \<Longrightarrow> \<forall>c \<in> set es. 0 < snd c \<Longrightarrow>
   0 < unread f \<or> (\<not> held w h \<and> h \<in> fst ` set es \<and> (\<exists>s. served w h = Some s \<and> s \<noteq> [])) \<Longrightarrow> 0 < unread (hd fs')"
proof (induction es arbitrary: f fs w)
  case (Cons e es)
  obtain fs1 w1 where o: "offer_to M e (f # fs, w) = (fs1, w1)" by (cases "offer_to M e (f # fs, w)")
  note inv = offer_to_inv [OF o Cons.prems(2)] and al = offer_to_alive [OF o Cons.prems(2,3)]
  obtain g gs where fs1: "fs1 = g # gs" using inv by (cases fs1) auto
  have same: "same_fetch f g" "unread f \<le> unread g" using inv al by (simp_all add: fs1)
  have "0 < unread g \<or> (\<not> held w1 h \<and> h \<in> fst ` set es \<and> (\<exists>s. served w1 h = Some s \<and> s \<noteq> []))"
  proof (cases "fst e = h \<and> unread f = 0")
    case True
    then obtain s where s: "served w h = Some s" "s \<noteq> []" "\<not> held w h" using Cons.prems(6) by auto
    have "offer M h (snd e) (f, w) = (g, w1)" using o True Cons.prems(4) by (auto simp: fs1 split: prod.splits)
    from offer_alive(6) [OF _ Cons.prems(4) _ this _ s(1,2,3)] Cons.prems(2,3,5) True show ?thesis by simp
  next
    case False
    with Cons.prems(6) same(2) inv al show ?thesis by auto
  qed
  with Cons.IH [of g gs w1] Cons.prems(1,4,5) o inv al same(1) show ?case by (simp add: fs1 same_fetch_def)
qed auto

section \<open>Launching\<close>

definition startable :: "fetcher \<Rightarrow> bool" where
  "startable f \<longleftrightarrow> (\<exists>pq. qs_parse_url blank_url (ft_url f) = Ret pq)"

lemma signed_total: "startable f \<Longrightarrow> \<exists>hs. signed_headers M f w = Ret hs"
  by (auto simp: startable_def signed_headers_def Signature_def content_length_of_def string_to_sign_def Let_def
      split: prod.split)

lemma start_total:
  assumes "fresh f" and "startable f"
  shows "\<exists>f' w'. start M (f, w) = (Ret (), f', w') \<and> alive w' f' \<and> stall w' = stall w \<and>
    (\<forall>k. ft_curl f' \<noteq> Handle k \<longrightarrow> held w' k = held w k)"
proof -
  let ?n = "nat (if CURL_MAX_WRITE_SIZE > ft_conf_buffsize f then CURL_MAX_WRITE_SIZE else ft_conf_buffsize f)"
  define f1 where "f1 = f\<lparr>ft_buff_size := ?n, ft_buff := Some (replicate ?n NUL)\<rparr>"
  have a: "alloc_buffer M (f, w) = (Ret (), f1, w)"
    using assms(1) malloc_ok [of w] by (simp add: alloc_buffer_def fresh_def f1_def Let_def)
  obtain h w1 where init: "mu_easy_init M w = (Some h, w1)" "stall w1 = stall w" "\<not> held w1 h"
      "\<forall>k. k \<noteq> h \<longrightarrow> held w1 k = held w k" using init_ok by blast
  define f2 where "f2 = f1\<lparr>ft_curl := Handle h, ft_parent := True\<rparr>"
  define w2 where "w2 = mu_add M h (ft_url f) w1"
  have b: "begin_transfer M (f1, w) = (Ret h, f2, w2)"
    using assms(1) init(1) by (simp add: begin_transfer_def fresh_def f1_def f2_def w2_def)
  have "startable f2" using assms(2) by (simp add: startable_def f2_def f1_def)
  then obtain hs where c: "signed_headers M f2 w2 = Ret hs" using signed_total by blast
  have "16384 \<le> ?n" by (auto simp: CURL_MAX_WRITE_SIZE_def le_nat_iff)
  with a b c init show ?thesis
    by (simp add: start_Ret_iff) (auto simp: alive_def headers_kept w2_def add_kept f2_def f1_def)
qed

definition weight :: "fetcher list \<Rightarrow> nat" where
  "weight fs = sum_list (map (\<lambda>f. if ft_state f = FETCHER_DONE then 1 else 2) fs)"

lemma weight_simps [simp]:
  "weight [] = 0" "weight (f # fs) = (if ft_state f = FETCHER_DONE then 1 else 2) + weight fs"
  "weight (fs @ gs) = weight fs + weight gs"
  by (simp_all add: weight_def)

lemma launch_total:
  "active_inv w active \<Longrightarrow> list_all fresh waiting \<Longrightarrow> list_all startable waiting \<Longrightarrow> alive_all w active \<Longrightarrow>
   \<exists>active' waiting' w'. launch_loop M n active waiting w = (Ret (), active', waiting', w') \<and>
     alive_all w' active' \<and> stall w' = stall w \<and> list_all startable waiting' \<and>
     weight (active' @ waiting') = weight (active @ waiting)"
proof (induction waiting arbitrary: active w)
  case (Cons f fs)
  show ?case
  proof (cases "int (length active) < n")
    case True
    have f: "fresh f" "startable f" using Cons.prems by simp_all
    obtain f1 w1 where st: "start M (f, w) = (Ret (), f1, w1)" "alive w1 f1" "stall w1 = stall w"
      "\<forall>k. ft_curl f1 \<noteq> Handle k \<longrightarrow> held w1 k = held w k" using start_total [OF f] by blast
    note sv = start_inv [OF f(1) st(1)]
    obtain h where h: "ft_curl f1 = Handle h" "served w h = None" "\<forall>k. k \<noteq> h \<longrightarrow> served w1 k = served w k"
      using sv(4) by blast
    have launched: "launch_loop M (int (length active) + 1) active [f] w = (Ret (), active @ [f1], [], w1)"
      using st(1) by simp
    have "active_inv w1 (active @ [f1])" using launch_inv [OF launched Cons.prems(1)] f(1) by simp
    moreover have "alive w1 g" if "g \<in> set active" for g
    proof (rule alive_cong [of w])
      show "alive w g" using Cons.prems(4) that by (simp add: alive_all_def)
      have "ft_curl g \<noteq> Handle h" using active_inv_member [OF Cons.prems(1) that] h(2) by (auto simp: fetch_inv_def)
      then show "\<forall>k. ft_curl g = Handle k \<longrightarrow> held w1 k = held w k" using st(4) h(1) by auto
    qed
    then have "alive_all w1 (active @ [f1])" using st(2) h Cons.prems(4) by (auto simp: alive_all_def image_iff)
    ultimately obtain active' waiting' w' where "launch_loop M n (active @ [f1]) fs w1 = (Ret (), active', waiting', w')"
      "alive_all w' active'" "stall w' = stall w1" "list_all startable waiting'"
      "weight (active' @ waiting') = weight ((active @ [f1]) @ fs)"
      using Cons.IH [of w1 "active @ [f1]"] Cons.prems(2,3) by auto
    with True st f sv(3) show ?thesis by (auto simp: fresh_def)
  next
    case False
    with Cons.prems show ?thesis by auto
  qed
qed simp

section \<open>Waiting\<close>

lemma close_all_frame:
  "stall (close_all hs w) = stall w"
  "k \<notin> set hs \<Longrightarrow> served (close_all hs w) k = served w k \<and> held (close_all hs w) k = held w k"
  "k \<in> set hs \<Longrightarrow> distinct hs \<Longrightarrow> served (close_all hs w) k = None"
proof -
  have kept: "k \<notin> set hs \<Longrightarrow> served (close_all hs w) k = served w k \<and> held (close_all hs w) k = held w k" for hs w k
    by (induction hs arbitrary: w) (simp_all add: close_others close_kept pop_kept pop_kept2)
  then show "k \<notin> set hs \<Longrightarrow> served (close_all hs w) k = served w k \<and> held (close_all hs w) k = held w k" .
  show "stall (close_all hs w) = stall w"
    by (induction hs arbitrary: w) (simp_all add: close_kept pop_kept2)
  show "k \<in> set hs \<Longrightarrow> distinct hs \<Longrightarrow> served (close_all hs w) k = None"
  proof (induction hs arbitrary: w)
    case (Cons h hs)
    then show ?case using kept [where k = h and hs = hs] close_kept(3) [of h] by (cases "k = h") simp_all
  qed simp
qed

lemma finish_all_alive:
  assumes "alive_all w fs" and "distinct hs"
  shows "alive_all (close_all hs w) (finish_all hs fs)"
proof -
  have "alive (close_all hs w) g" if member: "g \<in> set (finish_all hs fs)" for g
  proof -
    obtain f where f: "g = (if \<exists>h \<in> set hs. ft_curl f = Handle h then finished f else f)" "f \<in> set fs"
      using member unfolding finish_all_def set_map by (rule imageE)
    with assms(1) show ?thesis using close_all_frame(2) [of _ hs w] by (auto simp: alive_all_def alive_def)
  qed
  moreover have "Handle k \<in> ft_curl ` set (finish_all hs fs)" if "served (close_all hs w) k \<noteq> None" for k
  proof -
    have k: "k \<notin> set hs" using that close_all_frame(3) [of k hs w] assms(2) by auto
    then have "served w k \<noteq> None" using that close_all_frame(2) by metis
    then obtain f where "f \<in> set fs" "ft_curl f = Handle k" using assms(1) by (force simp: alive_all_def)
    with k show ?thesis by (force simp: finish_all_def image_iff)
  qed
  ultimately show ?thesis by (simp add: alive_all_def)
qed

lemma finish_all_weight: "weight (finish_all hs fs) \<le> weight fs"
  by (induction fs) (auto simp: finish_all_def)

lemma same_list_weight: "list_all2 same_fetch fs gs \<Longrightarrow> weight gs = weight fs"
  by (induction rule: list_all2_induct) (auto simp: same_fetch_def)

text \<open>One round of waiting: a transfer completes, the transport has stalled once, or the head has data.\<close>

lemma wait_total:
  assumes inv: "active_inv w (f # fs)" and al: "alive_all w (f # fs)"
    and head: "ft_curl f = Handle h" "ft_state f = FETCHER_RUNNING" "unread f = 0" "\<not> ft_paused f"
  shows "\<exists>g gs w'. wait_for_data M (f # fs, w) = (Ret (), g # gs, w') \<and> active_inv w' (g # gs) \<and> alive_all w' (g # gs) \<and>
    owed_all (g # gs) = owed_all (f # fs) \<and> weight (g # gs) \<le> weight (f # fs) \<and> stall w' \<le> stall w \<and>
    (weight (g # gs) < weight (f # fs) \<or> stall w' < stall w \<or> 0 < unread g)"
proof -
  obtain w1 where wt: "mu_wait M w = (None, w1)" "stall w1 = stall w" "held w1 = held w" using wait_ok by blast
  obtain calls w2 where pf: "mu_perform M w1 = (calls, None, w2)" "held w2 = held w1" "\<forall>c \<in> set calls. 0 < snd c"
    "stall w2 < stall w1 \<or> stall w2 = stall w1 \<and> (\<forall>h s. served w1 h = Some s \<and> s \<noteq> [] \<longrightarrow> h \<in> fst ` set calls)"
    using perform_ok by blast
  have sv: "served w1 = served w" "served w2 = served w" using wait_kept [of w] perform_kept [of w1] wt(1) pf(1) by simp_all
  have inv2: "active_inv w2 (f # fs)" by (rule active_inv_cong [OF inv]) (simp add: sv)
  have al2: "alive_all w2 (f # fs)" using al pf(2) wt(3) sv(2) by (simp add: alive_all_def alive_def)
  obtain fs3 w3 where off: "fold (offer_to M) calls (f # fs, w2) = (fs3, w3)" by (cases "fold (offer_to M) calls (f # fs, w2)")
  note of_inv = offers_inv [OF off inv2] and of_al = offers_alive [OF off inv2 al2]
  obtain f3 rest where fs3: "fs3 = f3 # rest" and same: "same_fetch f f3" using of_inv by (cases fs3) auto
  obtain hs where ms: "mu_messages M w3 = complete_msgs hs" "distinct hs" "set hs = {h. served w3 h = Some []}"
    using messages_ok by blast
  have "\<forall>k \<in> set hs. Handle k \<in> ft_curl ` set fs3 \<and> served w3 k = Some []"
    using ms(3) of_al unfolding alive_all_def by auto
  note run = messages_run [OF of_inv [THEN conjunct1] ms(2) this]
  have list: "finish_all hs fs3 = finish_all hs [f3] @ finish_all hs rest" by (simp add: fs3 finish_all_def)
  define g where "g = (if \<exists>k \<in> set hs. ft_curl f3 = Handle k then finished f3 else f3)"
  have shape: "finish_all hs fs3 = g # finish_all hs rest" by (simp add: fs3 finish_all_def g_def)
  have "weight fs3 = weight (f # fs)" using of_inv same_list_weight by blast
  note weights = this finish_all_weight [of hs fs3] finish_all_weight [of hs rest]
  have "weight (finish_all hs fs3) < weight fs3 \<or> stall (close_all hs w3) < stall w \<or> 0 < unread g"
  proof (cases "h \<in> set hs")
    case True
    then have "ft_state g = FETCHER_DONE" using same head by (auto simp: g_def same_fetch_def)
    then show ?thesis using weights(3) same head(2) unfolding shape by (simp add: fs3 same_fetch_def)
  next
    case False
    then have g: "g = f3" using same head(1) by (auto simp: g_def same_fetch_def)
    have st: "stall (close_all hs w3) = stall w2" using close_all_frame(1) of_al by simp
    show ?thesis
    proof (cases "stall w2 < stall w1")
      case stuck: False
      obtain s where s: "served w h = Some s" "content f @ s = owed obj f" using inv head by (auto simp: fetch_inv_def)
      have "fetch_inv w3 f3" using of_inv by (simp add: fs3)
      then obtain s3 where s3: "served w3 h = Some s3" "content f3 @ s3 = owed obj f3"
        using same head by (auto simp: fetch_inv_def same_fetch_def)
      have "s \<noteq> []"
      proof
        assume "s = []"
        moreover have "content f = []" by (simp add: content_def head(3))
        ultimately have "s3 = []" using s(2) s3(2) owed_cong(1) [OF same, of obj] by simp
        with s3(1) ms(3) False show False by simp
      qed
      then have "h \<in> fst ` set calls" using stuck pf(4) s(1) sv(1) by auto
      moreover have "\<not> held w2 h" using al2 head(1,4) by (auto simp: alive_all_def alive_def)
      ultimately have "0 < unread (hd fs3)"
        using head_progress [OF off inv2 _ head(1) pf(3)] al2 s(1) \<open>s \<noteq> []\<close> sv(2) by (auto simp: alive_all_def)
      then show ?thesis by (simp add: fs3 g)
    qed (simp add: st wt(2))
  qed
  moreover have "stall (close_all hs w3) \<le> stall w" using close_all_frame(1) of_al pf(4) wt(2) by auto
  moreover have "wait_for_data M (f # fs, w) = (Ret (), finish_all hs fs3, close_all hs w3)"
    using run by (simp add: wait_for_data_def wt(1) pf(1) off ms(1))
  moreover have "owed_all (finish_all hs fs3) = owed_all (f # fs)" using run of_inv same_list_owed [of "f # fs" fs3] by simp
  ultimately show ?thesis
    using run finish_all_alive [OF of_al [THEN conjunct1] ms(2)] weights(1,2) unfolding shape by auto
qed

section \<open>Reading\<close>

definition pipe_inv :: "pipeline \<times> 'w \<Rightarrow> bool" where
  "pipe_inv s \<longleftrightarrow> (case s of (p, w) \<Rightarrow>
     active_inv w (pl_active p) \<and> alive_all w (pl_active p) \<and> list_all fresh (pl_pending p) \<and>
     list_all startable (pl_pending p) \<and> 0 < pl_nconnections p)"

definition owed_pipe :: "pipeline \<Rightarrow> byte list" where
  "owed_pipe p = owed_all (pl_active p @ pl_pending p)"

text \<open>What a read promises.\<close>

definition read_result :: "pipeline \<Rightarrow> ((byte list \<times> bool) outcome \<times> pipeline \<times> 'w) option \<Rightarrow> bool" where
  "read_result p y \<longleftrightarrow> (\<exists>d eof p' w'. y = Some (Ret (d, eof), p', w') \<and> pipe_inv (p', w') \<and>
     owed_pipe p = d @ owed_pipe p' \<and> (if eof then owed_pipe p = [] else d \<noteq> []))"

lemma read_result_cong: "owed_pipe p = owed_pipe q \<Longrightarrow> read_result p y = read_result q y"
  by (simp add: read_result_def)

definition pipe_measure :: "pipeline \<times> 'w \<Rightarrow> nat \<times> nat \<times> nat" where
  "pipe_measure s = (case s of (p, w) \<Rightarrow>
     (weight (pl_active p @ pl_pending p), stall w,
      case pl_active p of [] \<Rightarrow> 1 | f # fs \<Rightarrow> if 0 < unread f then 0 else 1))"

lemma launch_step:
  assumes "pipe_inv (p, w)"
  shows "\<exists>p' w'. launch M (p, w) = (Ret (), p', w') \<and> pipe_inv (p', w') \<and> owed_pipe p' = owed_pipe p \<and>
    weight (pl_active p' @ pl_pending p') = weight (pl_active p @ pl_pending p) \<and> stall w' = stall w \<and>
    (pl_active p' = [] \<longrightarrow> pl_pending p' = []) \<and>
    (\<forall>f fs. pl_active p' = f # fs \<longrightarrow> pl_active p = [] \<or> hd (pl_active p) = f)"
proof -
  have inv: "active_inv w (pl_active p)" "list_all fresh (pl_pending p)" "list_all startable (pl_pending p)"
    "alive_all w (pl_active p)" "0 < pl_nconnections p" using assms by (simp_all add: pipe_inv_def)
  obtain active' waiting' w' where l: "launch_loop M (pl_nconnections p) (pl_active p) (pl_pending p) w = (Ret (), active', waiting', w')"
    "alive_all w' active'" "stall w' = stall w" "list_all startable waiting'"
    "weight (active' @ waiting') = weight (pl_active p @ pl_pending p)" using launch_total [OF inv(1-4)] by blast
  note li = launch_inv [OF l(1) inv(1,2)]
  have "\<forall>f fs. active' = f # fs \<longrightarrow> pl_active p = [] \<or> hd (pl_active p) = f" using li by (cases "pl_active p") auto
  with l li inv(5) show ?thesis by (simp add: launch_def pipe_inv_def owed_pipe_def)
qed

lemma read_total:
  assumes "pipe_inv s" and "0 < n"
  shows "read_result (fst s) (pipeline_read M n s)"
  using assms(1)
proof (induction s rule: wf_induct [of "inv_image (less_than <*lex*> less_than <*lex*> less_than) pipe_measure"])
  case 1
  show ?case by (intro wf_inv_image wf_lex_prod wf_less_than)
next
  case (2 s)
  obtain p0 w0 where s: "s = (p0, w0)" by (cases s)
  obtain p w where l: "launch M (p0, w0) = (Ret (), p, w)" "pipe_inv (p, w)" "owed_pipe p = owed_pipe p0"
    "weight (pl_active p @ pl_pending p) = weight (pl_active p0 @ pl_pending p0)" "stall w = stall w0"
    "pl_active p = [] \<longrightarrow> pl_pending p = []" "\<forall>f fs. pl_active p = f # fs \<longrightarrow> pl_active p0 = [] \<or> hd (pl_active p0) = f"
    using launch_step 2(2) s by blast
  have IH: "read_result p' (pipeline_read M n (p', w'))"
    if "(pipe_measure (p', w'), pipe_measure s) \<in> less_than <*lex*> less_than <*lex*> less_than" "pipe_inv (p', w')" for p' w'
    using 2(1) that by fastforce
  show ?case
  proof (cases "pl_active p")
    case Nil
    with l show ?thesis by (subst pipeline_read.simps) (auto simp: s read_result_def owed_pipe_def)
  next
    case (Cons f fs)
    have inv: "active_inv w (f # fs)" "alive_all w (f # fs)" "fetch_inv w f" "alive w f"
      using l(2) Cons by (simp_all add: pipe_inv_def alive_all_def)
    obtain r f1 w1 where g: "get_data M n (f, w) = Some (r, f1, w1)" "got w f (f1, w1)" using get_total [OF inv(3,4), of n] by auto
    obtain d eof where post: "r = Ret (d, eof)" "fetch_inv w1 f1" "owed obj f = d @ owed obj f1" "ft_curl f1 = ft_curl f"
      "\<forall>k. ft_curl f \<noteq> Handle k \<longrightarrow> served w1 k = served w k"
      "eof \<longrightarrow> d = [] \<and> ft_state f1 = FETCHER_DONE \<and> owed obj f1 = []"
      "\<not> eof \<and> d = [] \<longrightarrow> ft_state f1 = FETCHER_RUNNING \<and> unread f1 = 0 \<and> \<not> ft_paused f1"
      using get_inv [OF g(1) inv(3) assms(2)] by (auto simp: read_post_def)
    have fs1: "active_inv w1 fs" by (rule active_inv_cong [of w]) (use inv(1) post(5) in auto)
    have inv1: "active_inv w1 (f1 # fs)" using fs1 inv(1) post(2,4) by simp
    have al1: "alive_all w1 (f1 # fs)"
    proof -
      have gf: "alive w1 f1" "\<forall>k. ft_curl f \<noteq> Handle k \<longrightarrow> held w1 k = held w k" "\<forall>k. served w k = None \<longrightarrow> served w1 k = None"
        using g(2) by (simp_all add: got_def)
      have "\<forall>x \<in> set fs. \<forall>h. ft_curl x = Handle h \<longrightarrow> ft_curl f \<noteq> Handle h" using inv(1) by auto
      moreover have "\<forall>x \<in> set fs. alive w x" using inv(2) by (simp add: alive_all_def)
      ultimately have "\<forall>x \<in> set fs. alive w1 x" using gf(2) alive_cong [of w _ w1] by metis
      moreover have "served w1 h \<noteq> None \<Longrightarrow> served w h \<noteq> None" for h using gf(3) by metis
      ultimately show ?thesis using gf(1) inv(2) post(4) unfolding alive_all_def by simp
    qed
    have owed: "owed_pipe p0 = d @ owed_pipe (p\<lparr>pl_active := f1 # fs\<rparr>)"
      using l(3) Cons post(3) by (simp add: owed_pipe_def)
    have rest: "list_all fresh (pl_pending p)" "list_all startable (pl_pending p)" "0 < pl_nconnections p"
      using l(2) by (simp_all add: pipe_inv_def)
    consider (at_end) eof | (some) "\<not> eof" "d \<noteq> []" | (wait) "\<not> eof" "d = []" by blast
    then show ?thesis
    proof cases
      case at_end
      have null: "ft_curl f1 = Null" "owed obj f1 = []" "d = []" using post(2,6) at_end by (auto simp: fetch_inv_def)
      then have "pipeline_read M n s = pipeline_read M n (p\<lparr>pl_active := fs\<rparr>, w1)"
        using at_end by (subst pipeline_read.simps)
          (simp add: s l(1) Cons g(1) post(1) destroy_fetcher_def cleanup_def then_call_def)
      moreover have "pipe_inv (p\<lparr>pl_active := fs\<rparr>, w1)"
        using fs1 al1 null(1) rest by (auto simp: pipe_inv_def alive_all_def)
      moreover have "(pipe_measure (p\<lparr>pl_active := fs\<rparr>, w1), pipe_measure s) \<in> less_than <*lex*> less_than <*lex*> less_than"
        using l(4) Cons by (simp add: pipe_measure_def s split: if_splits)
      ultimately have "read_result (p\<lparr>pl_active := fs\<rparr>) (pipeline_read M n s)"
        using IH [of "p\<lparr>pl_active := fs\<rparr>" w1] by simp
      moreover have "owed_pipe p0 = owed_pipe (p\<lparr>pl_active := fs\<rparr>)" using owed null(2,3) by (simp add: owed_pipe_def)
      ultimately show ?thesis using read_result_cong [of p0 "p\<lparr>pl_active := fs\<rparr>"] by (simp add: s)
    next
      case some
      then have "pipeline_read M n s = Some (Ret (d, False), p\<lparr>pl_active := f1 # fs\<rparr>, w1)"
        by (subst pipeline_read.simps) (simp add: s l(1) Cons g(1) post(1))
      then show ?thesis using some owed inv1 al1 rest by (auto simp: read_result_def pipe_inv_def s)
    next
      case wait
      have running: "ft_state f1 = FETCHER_RUNNING" "unread f1 = 0" "\<not> ft_paused f1" using post(7) wait by simp_all
      then obtain h where h: "ft_curl f1 = Handle h" using post(2) by (auto simp: fetch_inv_def)
      have unread: "unread f = 0"
      proof (rule ccontr)
        assume "unread f \<noteq> 0"
        then have "d = fst (take_data n f)" using g(1) post(1) by (subst (asm) get_data.simps) (auto split: prod.splits)
        with \<open>unread f \<noteq> 0\<close> wait(2) take_data_ok(3) [of f n] inv(3) assms(2) show False by (simp add: fetch_inv_def)
      qed
      have "ft_state f = FETCHER_RUNNING" using inv(3) post(4) h by (auto simp: fetch_inv_def)
      then have same: "weight (f1 # fs) = weight (f # fs)" using running by simp
      obtain k ks w2 where wt: "wait_for_data M (f1 # fs, w1) = (Ret (), k # ks, w2)" "active_inv w2 (k # ks)"
        "alive_all w2 (k # ks)" "owed_all (k # ks) = owed_all (f1 # fs)" "weight (k # ks) \<le> weight (f1 # fs)"
        "stall w2 \<le> stall w1" "weight (k # ks) < weight (f1 # fs) \<or> stall w2 < stall w1 \<or> 0 < unread k"
        using wait_total [OF inv1 al1 h running] by blast
      have same_read: "pipeline_read M n s = pipeline_read M n (p\<lparr>pl_active := k # ks\<rparr>, w2)"
        using wait running by (subst pipeline_read.simps)
          (simp add: s l(1) Cons g(1) post(1) restart_failed_def then_call_def wt(1))
      have "stall w1 = stall w0" using g(2) l(5) by (simp add: got_def)
      moreover have "pipe_measure s = (weight (f1 # fs) + weight (pl_pending p), stall w0, 1)"
        using l(4,7) Cons unread same unfolding s pipe_measure_def by (auto split: list.split)
      moreover have "pipe_measure (p\<lparr>pl_active := k # ks\<rparr>, w2) =
          (weight (k # ks) + weight (pl_pending p), stall w2, if 0 < unread k then 0 else 1)"
        by (simp add: pipe_measure_def)
      ultimately have "(pipe_measure (p\<lparr>pl_active := k # ks\<rparr>, w2), pipe_measure s) \<in> less_than <*lex*> less_than <*lex*> less_than"
        using wt(5-7) by (auto simp del: weight_simps(2))
      moreover have "pipe_inv (p\<lparr>pl_active := k # ks\<rparr>, w2)" using wt(2,3) rest by (simp add: pipe_inv_def)
      ultimately have "read_result (p\<lparr>pl_active := k # ks\<rparr>) (pipeline_read M n s)"
        using IH [of "p\<lparr>pl_active := k # ks\<rparr>" w2] by (simp add: same_read)
      moreover have "owed_pipe p0 = owed_pipe (p\<lparr>pl_active := k # ks\<rparr>)" using owed wait wt(4) by (simp add: owed_pipe_def)
      ultimately show ?thesis using read_result_cong [of p0 "p\<lparr>pl_active := k # ks\<rparr>"] by (simp add: s)
    qed
  qed
qed

end

end
