(* ===== verification/File_Server.thy ===== *)
theory File_Server
  imports QS_Delivery
begin

text \<open>
  A concrete transport for the downloads: a server that holds one object and answers range
  requests, and a libcurl that follows an arbitrary schedule of calls before it serves
  every handle. It implements the interface \<open>prompt_transport\<close>.
\<close>

record file_world =
  fw_conns :: "(nat \<times> byte list) list"
  fw_held :: "nat list"
  fw_sched :: "(nat \<times> nat) list list"

definition conn :: "file_world \<Rightarrow> nat \<Rightarrow> byte list option" where
  "conn w = map_of (fw_conns w)"

definition put_conn :: "nat \<Rightarrow> byte list \<Rightarrow> file_world \<Rightarrow> file_world" where
  "put_conn h s w = w\<lparr>fw_conns := (h, s) # filter (\<lambda>c. fst c \<noteq> h) (fw_conns w)\<rparr>"

definition drop_conn :: "nat \<Rightarrow> file_world \<Rightarrow> file_world" where
  "drop_conn h w = w\<lparr>fw_conns := filter (\<lambda>c. fst c \<noteq> h) (fw_conns w)\<rparr>"

definition new_handle :: "file_world \<Rightarrow> nat" where
  "new_handle w = Suc (sum_list (map fst (fw_conns w)))"

definition file_server :: "byte list \<Rightarrow> file_world multi_env" where
  "file_server obj =
     \<lparr>mu_malloc = (\<lambda>_. True),
      mu_easy_init = (\<lambda>w. (Some (new_handle w), w\<lparr>fw_held := filter (\<lambda>k. k \<noteq> new_handle w) (fw_held w)\<rparr>)),
      mu_add = (\<lambda>h url w. w),
      mu_set_headers = (\<lambda>h hs w. case requested_range hs of
          Some (a, b) \<Rightarrow> if a \<le> b \<and> b < length obj then put_conn h (subbuf a (b + 1 - a) obj) w else w
        | None \<Rightarrow> w),
      mu_close = drop_conn,
      mu_data = (\<lambda>h n w. if h \<in> set (fw_held w) then None else
          (case conn w h of None \<Rightarrow> None | Some s \<Rightarrow> if s = [] \<or> n = 0 then None else Some (take (min n 16384) s))),
      mu_taken = (\<lambda>h r w. case r of None \<Rightarrow> w\<lparr>fw_held := h # fw_held w\<rparr>
        | Some n \<Rightarrow> (case conn w h of None \<Rightarrow> w | Some s \<Rightarrow> put_conn h (drop n s) w)),
      mu_resume = (\<lambda>h w. ([16384], w\<lparr>fw_held := filter (\<lambda>k. k \<noteq> h) (fw_held w)\<rparr>)),
      mu_wait = (\<lambda>w. (None, w)),
      mu_perform = (\<lambda>w. case fw_sched w of
          [] \<Rightarrow> (map (\<lambda>c. (fst c, 16384)) (fw_conns w), None, w)
        | es # rest \<Rightarrow> (filter (\<lambda>e. 0 < snd e) es, None, w\<lparr>fw_sched := rest\<rparr>)),
      mu_messages = (\<lambda>w. complete_msgs (filter (\<lambda>h. conn w h = Some []) (remdups (map fst (fw_conns w))))),
      mu_pop = (\<lambda>w. w),
      mu_date = (\<lambda>_. ''Thu, 01 Jan 1970 00:00:00 GMT''), mu_hmac = (\<lambda>k m. ''mac''), mu_base64 = (\<lambda>s. s)\<rparr>"

lemma conn_put [simp]: "conn (put_conn h s w) k = (if k = h then Some s else conn w k)"
proof -
  have "map_of (filter (\<lambda>c. fst c \<noteq> h) xs) k = map_of xs k" if "k \<noteq> h" for xs :: "(nat \<times> byte list) list"
    using that by (induction xs) auto
  then show ?thesis by (simp add: conn_def put_conn_def)
qed

lemma conn_drop [simp]: "conn (drop_conn h w) k = (if k = h then None else conn w k)"
proof -
  have "map_of (filter (\<lambda>c. fst c \<noteq> h) xs) k = (if k = h then None else map_of xs k)" for xs :: "(nat \<times> byte list) list"
    by (induction xs) auto
  then show ?thesis by (simp add: conn_def drop_conn_def)
qed

lemma conn_update [simp]: "conn (w\<lparr>fw_held := hs\<rparr>) = conn w" "conn (w\<lparr>fw_sched := es\<rparr>) = conn w"
  by (simp_all add: conn_def)

lemma other_fields [simp]:
  "fw_held (put_conn h s w) = fw_held w" "fw_sched (put_conn h s w) = fw_sched w"
  "fw_held (drop_conn h w) = fw_held w" "fw_sched (drop_conn h w) = fw_sched w"
  by (simp_all add: put_conn_def drop_conn_def)

lemma conn_new [simp]: "conn w (new_handle w) = None"
proof -
  have "fst c < new_handle w" if "c \<in> set (fw_conns w)" for c
    using that member_le_sum_list [of "fst c" "map fst (fw_conns w)"] by (simp add: new_handle_def less_Suc_eq_le)
  then show ?thesis unfolding conn_def map_of_eq_None_iff by force
qed

lemma conn_member: "conn w h = Some s \<Longrightarrow> h \<in> fst ` set (fw_conns w)"
  by (force simp: conn_def dest: map_of_SomeD)

interpretation file_transport: prompt_transport "file_server obj" obj conn
    "\<lambda>w h. h \<in> set (fw_held w)" "\<lambda>w. length (fw_sched w)"
  for obj
proof (unfold_locales, goal_cases)
  case (1 w h w')
  then show ?case by (auto simp: file_server_def)
next
  case (5 h n w c s)
  then show ?case by (auto simp: file_server_def split: if_splits) (metis append_take_drop_id)
next
  case (28 w)
  let ?hs = "filter (\<lambda>h. conn w h = Some []) (remdups (map fst (fw_conns w)))"
  have "mu_messages (file_server obj) w = complete_msgs ?hs" by (simp add: file_server_def)
  moreover have "distinct ?hs" "set ?hs = {h. conn w h = Some []}" using conn_member [of w] by auto
  ultimately show ?case by blast
qed (auto simp: file_server_def image_image split: list.split option.splits if_splits dest: conn_member)

end
