(* ===== verification/QS_Reader_Facts.thy ===== *)
theory QS_Reader_Facts
  imports File_Server
begin

text \<open>
  Properties of the downloads: the division of a range, the delivery of every byte of it
  against the server of \<open>File_Server\<close>, and what happens on restarts, on error responses, with
  lengths over 31 bits and to fetchers that were never started.
\<close>

section \<open>Dividing a range\<close>

definition piece_bytes :: "int \<times> int \<Rightarrow> int list" where
  "piece_bytes p = [fst p..fst p + snd p - 1]"

lemma upto_cut:
  assumes "a \<le> m" and "m \<le> e + 1"
  shows "[a..e] = [a..m - 1] @ [m..e :: int]"
proof (cases "m \<le> e")
  case True
  then show ?thesis using assms upto_split1 [of a m e] by simp
next
  case False
  then have "e = m - 1" using assms by simp
  then show ?thesis by simp
qed

lemma chunk_loop_run:
  assumes "0 < chunk" and "endp + chunk \<le> INT64_MAX"
  shows "0 \<le> a \<Longrightarrow> a \<le> endp \<Longrightarrow> \<exists>ps. chunk_loop chunk endp a acc = Some (Ret (acc @ ps)) \<and>
    concat (map piece_bytes ps) = [a..endp] \<and> (\<forall>p \<in> set ps. a \<le> fst p \<and> 0 < snd p \<and> snd p \<le> chunk \<and> fst p + snd p \<le> endp + 1)"
proof (induction "nat (endp - a)" arbitrary: a acc rule: less_induct)
  case less
  have safe: "\<not> (chunk \<noteq> -1 \<and> (a + chunk > INT64_MAX \<or> a + chunk < INT64_MIN))"
    using assms less.prems by (auto simp: INT64_MIN_def)
  define n where "n = chunk_len chunk endp a"
  have n: "0 < n" "n \<le> chunk" "a + n \<le> endp + 1" "a + n \<le> endp \<longrightarrow> n = chunk"
    using assms(1) less.prems by (auto simp: n_def chunk_len_def)
  have step: "chunk_loop chunk endp a acc =
      (if a + n \<le> endp then chunk_loop chunk endp (a + n) (acc @ [(a, n)]) else Some (Ret (acc @ [(a, n)])))"
    using safe by (subst chunk_loop.simps) (auto simp: n_def Let_def)
  show ?case
  proof (cases "a + n \<le> endp")
    case True
    then obtain ps where ps: "chunk_loop chunk endp (a + n) (acc @ [(a, n)]) = Some (Ret ((acc @ [(a, n)]) @ ps))"
      "concat (map piece_bytes ps) = [a + n..endp]"
      "\<forall>p \<in> set ps. a + n \<le> fst p \<and> 0 < snd p \<and> snd p \<le> chunk \<and> fst p + snd p \<le> endp + 1"
      using less.hyps [of "a + n" "acc @ [(a, n)]"] less.prems n(1) by auto
    have "[a..endp] = [a..a + n - 1] @ [a + n..endp]" using n(1,3) upto_cut [of a "a + n" endp] by simp
    then show ?thesis using step True ps n by (intro exI [of _ "(a, n) # ps"]) (auto simp: piece_bytes_def)
  next
    case False
    then have "piece_bytes (a, n) = [a..endp]" using n(1,3) upto_cut [of a "a + n" endp] by (simp add: piece_bytes_def)
    then show ?thesis using step False n less.prems by (intro exI [of _ "[(a, n)]"]) simp
  qed
qed

text \<open>
  C29. With a positive chunk size the reader divides a range into consecutive pieces of at most
  that size: read one after the other they name every byte of the range once, in order.
\<close>

theorem range_divided:
  assumes "0 < chunk" and "endp + chunk \<le> INT64_MAX" and "0 \<le> a" and "a \<le> endp"
  shows "\<exists>ps. chunk_loop chunk endp a [] = Some (Ret ps) \<and> concat (map piece_bytes ps) = [a..endp] \<and>
    (\<forall>p \<in> set ps. 0 < snd p \<and> snd p \<le> chunk)"
  using chunk_loop_run [OF assms, of "[]"] by auto

theorem range_divided_witness:
  "\<exists>ps. chunk_loop 4 11 2 [] = Some (Ret ps) \<and> concat (map piece_bytes ps) = [2..11] \<and> (\<forall>p \<in> set ps. 0 < snd p \<and> snd p \<le> 4)"
  by (rule range_divided) (simp_all add: INT64_MAX_def)

lemma whole_range: "chunk_loop (-1) endp a [] = Some (Ret [(a, endp - a + 1)])"
  by (subst chunk_loop.simps) (simp add: chunk_len_def)

text \<open>With a chunk size of zero the loop adds empty pieces for ever.\<close>

lemma zero_chunk_raw:
  assumes "chunk_loop chunk endp a acc = Some y"
  shows "chunk = 0 \<Longrightarrow> INT64_MIN \<le> a \<Longrightarrow> a \<le> endp \<Longrightarrow> endp \<le> INT64_MAX \<Longrightarrow> False"
  using assms
proof (induction rule: chunk_loop.raw_induct [rotated, consumes 1])
  case (1 loop chunk endp a acc y)
  have "loop chunk endp a (acc @ [(a, 0)]) = Some y"
    using 1(2-6) by (simp add: chunk_len_def)
  from 1(1) [OF this 1(3-6)] show ?case .
qed

text \<open>
  With a chunk size of zero, which \<open>qingstorInitContext\<close> accepts, opening an object for
  reading over several connections never returns: the loop adds fetchers for empty pieces.
\<close>

theorem zero_chunk_reader_diverges:
  assumes "mNConnections cfg > 1" and "mChunkSize cfg = 0"
    and "0 \<le> range_start (obj_range ob)" and "range_start (obj_range ob) \<le> range_end (obj_range ob)"
    and "range_end (obj_range ob) \<le> INT64_MAX"
  shows "QingStorReader cfg bucket ob True = None"
proof (cases "chunk_loop 0 (range_end (obj_range ob)) (range_start (obj_range ob)) []")
  case None
  then show ?thesis
    using assms(1,2) by (simp add: QingStorReader_def setupPipeline_def chunk_sizes_def DownloadPipeline_def)
next
  case (Some y)
  from zero_chunk_raw [OF this] assms(3-5) show ?thesis by (simp add: INT64_MIN_def)
qed

text \<open>An object of five bytes, and the range of its second to fourth byte.\<close>

definition example_object :: ObjectInfo where
  "example_object = \<lparr>obj_key = ''k'', obj_size = 5, obj_range = \<lparr>range_start = 1, range_end = 4\<rparr>\<rparr>"

theorem zero_chunk_reader_diverges_witness:
  "QingStorReader (example_config 0) ''b'' example_object True = None"
  by (rule zero_chunk_reader_diverges)
    (simp_all add: example_config_def Configuration_direct_def example_object_def INT64_MAX_def)

section \<open>Delivery\<close>

text \<open>A client that reads with the given buffer sizes until a read does not return data.\<close>

fun read_pieces :: "'w multi_env \<Rightarrow> nat list \<Rightarrow> reader \<times> 'w \<Rightarrow> (byte list list \<times> unit outcome \<times> reader \<times> 'w) option" where
  "read_pieces M [] s = Some ([], Ret (), s)"
| "read_pieces M (n # ns) s =
     (case reader_transferData M n s of
        None \<Rightarrow> None
      | Some (Throw e, s') \<Rightarrow> Some ([], Throw e, s')
      | Some (Undefined, s') \<Rightarrow> Some ([], Undefined, s')
      | Some (Ret d, s') \<Rightarrow> map_option (\<lambda>(ds, y). (d # ds, y)) (read_pieces M ns s'))"

text \<open>At the end of the data the pipeline holds no fetcher.\<close>

lemma launch_loop_empty:
  "launch_loop M n active waiting w = (r, [], waiting', w') \<Longrightarrow> 0 < n \<Longrightarrow> active = [] \<and> waiting = [] \<and> waiting' = []"
proof (induction M n active waiting w arbitrary: r waiting' w' rule: launch_loop.induct)
  case (2 M n active f fs w)
  then show ?case by (auto split: if_splits prod.splits outcome.splits)
qed auto

lemma pipeline_end_empty:
  assumes "pipeline_read M n (p, w) = Some (Ret (d, True), p', w')" and "0 < pl_nconnections p"
  shows "pl_active p' = [] \<and> pl_pending p' = []"
proof -
  have "pipeline_read M n s = Some y \<Longrightarrow> y = (Ret (d, True), p', w') \<Longrightarrow> 0 < pl_nconnections (fst s) \<Longrightarrow>
      pl_active p' = [] \<and> pl_pending p' = []" for s y
  proof (induction rule: pipeline_read.raw_induct [rotated, consumes 1])
    case (1 pread M n s y)
    obtain r q w1 where l: "launch M s = (r, q, w1)" by (rule prod_cases3)
    then have n: "0 < pl_nconnections q" using "1.prems" by (auto simp: launch_def split: prod.splits)
    have e: "pl_active q = [] \<Longrightarrow> pl_pending q = []"
      using l "1.prems" by (auto simp: launch_def split: prod.splits dest: launch_loop_empty)
    note run = "1"(2) [unfolded l prod.case]
    show ?case
    proof (cases r)
      case (Ret u)
      note run = run [unfolded Ret outcome.case]
      show ?thesis
      proof (cases "pl_active q")
        case Nil
        then show ?thesis using run e "1"(3) by simp
      next
        case (Cons f fs)
        obtain g f1 w2 where g: "get_data M n (f, w1) = Some (g, f1, w2)"
          using run unfolding Cons by (auto simp: bind_eq_Some_conv)
        note run = run [unfolded Cons list.case g Option.bind.bind_lunit prod.case]
        show ?thesis
        proof (cases g)
          case (Ret x)
          obtain d1 eof where x: "x = (d1, eof)" by (cases x)
          note run = run [unfolded Ret x outcome.case prod.case]
          obtain v f2 w3 where v: "destroy_fetcher M (f1, w2) = (v, f2, w3)" by (rule prod_cases3)
          obtain v2 fs2 w4 where v2: "then_call (restart_failed M) (\<lambda>_. wait_for_data M) (f1 # fs, w2) = (v2, fs2, w4)"
            by (rule prod_cases3)
          show ?thesis
            using run "1"(1,3) n v v2 by (cases v; cases v2) (auto split: if_splits)
        qed (use run "1"(3) in auto)
      qed
    qed (use run "1"(3) in auto)
  qed
  then show ?thesis using assms by fastforce
qed

lemma read_pieces_total:
  "file_transport.pipe_inv obj (rd_pipeline rd, w) \<Longrightarrow> \<forall>n \<in> set ns. 0 < n \<Longrightarrow>
   \<exists>ds r rd' w'. read_pieces (file_server obj) ns (rd, w) = Some (ds, r, rd', w') \<and>
     file_transport.pipe_inv obj (rd_pipeline rd', w') \<and>
     file_transport.owed_pipe obj (rd_pipeline rd) = concat ds @ file_transport.owed_pipe obj (rd_pipeline rd') \<and>
     [] \<notin> set ds \<and>
     (if length ds = length ns then r = Ret ()
      else r = THROW QingStorEndOfStream ''transferData'' \<and> file_transport.owed_pipe obj (rd_pipeline rd') = [] \<and>
        pl_active (rd_pipeline rd') = [] \<and> pl_pending (rd_pipeline rd') = [])"
proof (induction ns arbitrary: rd w)
  case (Cons n ns)
  from file_transport.read_total [OF Cons.prems(1), of n] Cons.prems(2)
  obtain d eof p' w1 where r: "pipeline_read (file_server obj) n (rd_pipeline rd, w) = Some (Ret (d, eof), p', w1)"
    "file_transport.pipe_inv obj (p', w1)"
    "file_transport.owed_pipe obj (rd_pipeline rd) = d @ file_transport.owed_pipe obj p'"
    "if eof then file_transport.owed_pipe obj (rd_pipeline rd) = [] else d \<noteq> []"
    by (auto simp: file_transport.read_result_def)
  let ?rd = "rd\<lparr>rd_pipeline := p'\<rparr>"
  show ?case
  proof (cases eof)
    case True
    have "0 < pl_nconnections (rd_pipeline rd)" using Cons.prems(1) by (simp add: file_transport.pipe_inv_def)
    with pipeline_end_empty r(1) True have "pl_active p' = [] \<and> pl_pending p' = []" by metis
    with True r show ?thesis by (simp add: reader_transferData_def THROW_def)
  next
    case False
    then have t: "reader_transferData (file_server obj) n (rd, w) = Some (Ret d, ?rd, w1)"
      using r(1) by (simp add: reader_transferData_def)
    from Cons.IH [of ?rd w1] r(2) Cons.prems(2) obtain ds y rd' w' where
      "read_pieces (file_server obj) ns (?rd, w1) = Some (ds, y, rd', w')"
      "file_transport.pipe_inv obj (rd_pipeline rd', w')"
      "file_transport.owed_pipe obj p' = concat ds @ file_transport.owed_pipe obj (rd_pipeline rd')" "[] \<notin> set ds"
      "if length ds = length ns then y = Ret ()
       else y = THROW QingStorEndOfStream ''transferData'' \<and> file_transport.owed_pipe obj (rd_pipeline rd') = [] \<and>
         pl_active (rd_pipeline rd') = [] \<and> pl_pending (rd_pipeline rd') = []" by auto
    with t r(3,4) False show ?thesis by (auto split: if_splits)
  qed
qed (auto simp: file_transport.pipe_inv_def)

lemma concat_length: "[] \<notin> set ds \<Longrightarrow> length ds \<le> length (concat ds)"
proof (induction ds)
  case (Cons d ds)
  then have "1 \<le> length d" by (cases d) auto
  with Cons show ?case by simp
qed simp

lemma object_url_plain:
  assumes "addressable cfg bucket key"
  shows "\<exists>pq. qs_parse_url u (object_url cfg (bucket_host cfg bucket) key) = Ret pq"
proof -
  let ?url = "url_text (mProtocol cfg) (bucket_host cfg bucket) None (CHR ''/'' # key) None"
  have "IS_URL_CHAR (CHR ''/'')" by (simp add: IS_URL_CHAR_iff)
  then have "url_parts (mProtocol cfg) (bucket_host cfg bucket) None (CHR ''/'' # key) None"
    using assms(1) by (auto simp: url_parts_def addressable_def bucket_host_def list_all_iff)
  moreover have eq: "?url = object_url cfg (bucket_host cfg bucket) key"
    by (simp add: url_text_def authority_text_def object_url_def)
  moreover have "length ?url < 2 ^ 16" unfolding eq using assms(1) by (simp add: addressable_def)
  ultimately show ?thesis
    using parse_url_pieces [of "mProtocol cfg" "bucket_host cfg bucket" None "CHR ''/'' # key" None ?url "[]" u]
    by (auto simp: qs_parse_url_def extract_field_def uf_text_def Let_def split: option.splits if_splits)
qed

text \<open>The pipeline a reader starts with owes its range.\<close>

lemma subbuf_pieces:
  assumes "\<And>p. p \<in> set ps \<Longrightarrow> 0 \<le> fst p \<and> 0 < snd p"
  shows "concat (map piece_bytes ps) = [a..e] \<Longrightarrow> 0 \<le> a \<Longrightarrow> a \<le> e + 1 \<Longrightarrow>
    concat (map (\<lambda>p. subbuf (nat (fst p)) (nat (snd p)) obj) ps) = subbuf (nat a) (nat (e + 1 - a)) obj"
  using assms
proof (induction ps arbitrary: a)
  case Nil
  then have "a = e + 1" by (cases "a \<le> e") (auto simp: upto_rec1)
  then show ?case by simp
next
  case (Cons p ps)
  obtain x n where p: "p = (x, n)" by (cases p)
  have n: "0 < n" "0 \<le> x" using Cons.prems(4) [of p] by (simp_all add: p)
  have eq: "[x..x + n - 1] @ concat (map piece_bytes ps) = [a..e]" using Cons.prems(1) piece_bytes_def [of "(x, n)"] by (simp add: p)
  then have "a \<le> e" using n by (cases "a \<le> e") auto
  then have "x = a" using eq n by (simp add: upto_rec1 [of x] upto_rec1 [of a])
  have "length ([a..a + n - 1] @ concat (map piece_bytes ps)) = length [a..e]" using eq \<open>x = a\<close> by simp
  then have le: "a + n \<le> e + 1" using n by simp
  then have "[a..e] = [a..a + n - 1] @ [a + n..e]" using n upto_cut [of a "a + n" e] by simp
  then have rest: "concat (map piece_bytes ps) = [a + n..e]" using eq \<open>x = a\<close> by simp
  have "concat (map (\<lambda>p. subbuf (nat (fst p)) (nat (snd p)) obj) ps) = subbuf (nat (a + n)) (nat (e + 1 - (a + n))) obj"
    using Cons.IH [OF rest] Cons.prems(2,4) le n by auto
  moreover have "nat (a + n) = nat a + nat n" "nat (e + 1 - (a + n)) = nat (e + 1 - a) - nat n" "nat n \<le> nat (e + 1 - a)"
    using n le Cons.prems(2) by auto
  ultimately show ?case using subbuf_split [of "nat n" "nat (e + 1 - a)" "nat a" obj] by (simp add: p \<open>x = a\<close>)
qed

lemma add_all: "fold (pipeline_add \<circ> F) ps p = p\<lparr>pl_pending := pl_pending p @ map F ps\<rparr>"
  by (induction ps arbitrary: p) (auto simp: pipeline_add_def)

text \<open>The reader of a range whose pieces are known.\<close>

definition reader_of :: "Configuration \<Rightarrow> string \<Rightarrow> ObjectInfo \<Rightarrow> (int \<times> int) list \<Rightarrow> reader" where
  "reader_of cfg bucket ob ps =
     \<lparr>rd_configuration = cfg, rd_bucket = bucket, rd_object = ob,
      rd_pipeline = \<lparr>pl_active = [], pl_pending = map (new_fetcher cfg bucket ob) ps, pl_nconnections = mNConnections cfg\<rparr>\<rparr>"

lemma reader_Ret_iff:
  "QingStorReader cfg bucket ob ok = Some (Ret rd) \<longleftrightarrow> ok \<and>
     (\<exists>ps. chunk_loop (fst (chunk_sizes cfg)) (range_end (obj_range ob)) (range_start (obj_range ob)) [] = Some (Ret ps) \<and>
       rd = reader_of cfg bucket ob ps)"
  by (auto simp: QingStorReader_def setupPipeline_def DownloadPipeline_def THROW_def bind_Ret_iff add_all reader_of_def
      split: option.splits)

text \<open>What is asked of a configuration and a range.\<close>

definition readable :: "Configuration \<Rightarrow> string \<Rightarrow> ObjectInfo \<Rightarrow> byte list \<Rightarrow> bool" where
  "readable cfg bucket ob obj \<longleftrightarrow> addressable cfg bucket (obj_key ob) \<and> 0 < mNConnections cfg \<and>
     (1 < mNConnections cfg \<longrightarrow> 0 < mChunkSize cfg \<and> mChunkSize cfg < 2 ^ 62) \<and>
     0 \<le> range_start (obj_range ob) \<and> range_start (obj_range ob) \<le> range_end (obj_range ob) \<and>
     range_end (obj_range ob) < int (length obj) \<and> length obj < 2 ^ 31"

definition range_bytes :: "ObjectInfo \<Rightarrow> byte list \<Rightarrow> byte list" where
  "range_bytes ob obj =
     subbuf (nat (range_start (obj_range ob))) (nat (range_end (obj_range ob) + 1 - range_start (obj_range ob))) obj"

lemma pieces_of_range:
  assumes "readable cfg bucket ob obj"
  shows "\<exists>ps. chunk_loop (fst (chunk_sizes cfg)) (range_end (obj_range ob)) (range_start (obj_range ob)) [] = Some (Ret ps) \<and>
    (\<forall>p \<in> set ps. 0 \<le> fst p \<and> 0 < snd p \<and> fst p + snd p \<le> int (length obj)) \<and>
    concat (map (\<lambda>p. subbuf (nat (fst p)) (nat (snd p)) obj) ps) = range_bytes ob obj"
proof -
  let ?a = "range_start (obj_range ob)" and ?e = "range_end (obj_range ob)"
  have r: "0 \<le> ?a" "?a \<le> ?e" "?e < int (length obj)" "?e < 2 ^ 31" using assms by (auto simp: readable_def)
  show ?thesis
  proof (cases "1 < mNConnections cfg")
    case True
    then have c: "0 < mChunkSize cfg" "?e + mChunkSize cfg \<le> INT64_MAX" "fst (chunk_sizes cfg) = mChunkSize cfg"
      using assms r by (auto simp: readable_def chunk_sizes_def INT64_MAX_def)
    obtain ps where ps: "chunk_loop (mChunkSize cfg) ?e ?a [] = Some (Ret ps)" "concat (map piece_bytes ps) = [?a..?e]"
      "\<forall>p \<in> set ps. ?a \<le> fst p \<and> 0 < snd p \<and> fst p + snd p \<le> ?e + 1"
      using chunk_loop_run [OF c(1,2) r(1,2), of "[]"] by auto
    have "concat (map (\<lambda>p. subbuf (nat (fst p)) (nat (snd p)) obj) ps) = range_bytes ob obj"
      unfolding range_bytes_def by (rule subbuf_pieces [OF _ ps(2)]) (use ps(3) r in force)+
    with ps r c(3) show ?thesis by (intro exI [of _ ps]) force
  next
    case False
    then have "chunk_loop (fst (chunk_sizes cfg)) ?e ?a [] = Some (Ret [(?a, ?e - ?a + 1)])"
      by (simp add: chunk_sizes_def whole_range)
    with r show ?thesis by (intro exI [of _ "[(?a, ?e - ?a + 1)]"]) (simp add: range_bytes_def algebra_simps)
  qed
qed

lemma reader_opens:
  assumes "readable cfg bucket ob obj" and "fw_conns w = []"
  shows "\<exists>rd. QingStorReader cfg bucket ob True = Some (Ret rd) \<and> file_transport.pipe_inv obj (rd_pipeline rd, w) \<and>
    file_transport.owed_pipe obj (rd_pipeline rd) = range_bytes ob obj"
proof -
  obtain ps where ps: "chunk_loop (fst (chunk_sizes cfg)) (range_end (obj_range ob)) (range_start (obj_range ob)) [] = Some (Ret ps)"
    "\<forall>p \<in> set ps. 0 \<le> fst p \<and> 0 < snd p \<and> fst p + snd p \<le> int (length obj)"
    "concat (map (\<lambda>p. subbuf (nat (fst p)) (nat (snd p)) obj) ps) = range_bytes ob obj"
    using pieces_of_range [OF assms(1)] by blast
  define p where "p = rd_pipeline (reader_of cfg bucket ob ps)"
  have p: "pl_active p = []" "pl_pending p = map (new_fetcher cfg bucket ob) ps" "pl_nconnections p = mNConnections cfg"
    by (simp_all add: p_def reader_of_def)
  have n: "to_int32 (snd q) = snd q" if "q \<in> set ps" for q
    using ps(2) that assms(1) by (intro to_int32_id) (force simp: readable_def)+
  have fresh: "list_all (file_transport.fresh obj) (pl_pending p)"
    using ps(2) n by (force simp: p list_all_iff file_transport.fresh_def new_fetcher_def Let_def HTTPFetcher_def valid_range_def)
  moreover have "list_all file_transport.startable (pl_pending p)"
    using object_url_plain [of cfg bucket "obj_key ob"] assms(1)
    by (auto simp: p list_all_iff file_transport.startable_def new_fetcher_def Let_def HTTPFetcher_def readable_def)
  ultimately have "file_transport.pipe_inv obj (p, w)"
    using assms by (simp add: file_transport.pipe_inv_def p(1,3) file_transport.alive_all_def conn_def readable_def)
  moreover have "map (owed obj) (pl_pending p) = map (\<lambda>q. subbuf (nat (fst q)) (nat (snd q)) obj) ps"
    using n by (auto simp: p owed_def new_fetcher_def Let_def HTTPFetcher_def)
  then have "file_transport.owed_pipe obj p = range_bytes ob obj"
    by (simp add: file_transport.owed_pipe_def file_transport.owed_all_def ps(3)) (simp add: p)
  ultimately show ?thesis using ps(1) by (auto simp: reader_Ret_iff p_def)
qed

text \<open>
  C6. Opening an object and reading with positive buffer sizes, more often than the range has
  bytes, hands out exactly the bytes of the range in order and then the end of the data,
  whatever the schedule of the transfers, the number of connections and the chunk size.
\<close>

theorem reader_delivers_range:
  assumes "readable cfg bucket ob obj" and "fw_conns w = []"
    and "\<forall>n \<in> set ns. 0 < n" and "length (range_bytes ob obj) < length ns"
  shows "\<exists>rd ds rd' w'. QingStorReader cfg bucket ob True = Some (Ret rd) \<and>
    read_pieces (file_server obj) ns (rd, w) = Some (ds, THROW QingStorEndOfStream ''transferData'', rd', w') \<and>
    concat ds = range_bytes ob obj"
proof -
  obtain rd where rd: "QingStorReader cfg bucket ob True = Some (Ret rd)" "file_transport.pipe_inv obj (rd_pipeline rd, w)"
    "file_transport.owed_pipe obj (rd_pipeline rd) = range_bytes ob obj" using reader_opens [OF assms(1,2)] by blast
  obtain ds r rd' w' where run: "read_pieces (file_server obj) ns (rd, w) = Some (ds, r, rd', w')"
    "range_bytes ob obj = concat ds @ file_transport.owed_pipe obj (rd_pipeline rd')" "[] \<notin> set ds"
    "if length ds = length ns then r = Ret ()
      else r = THROW QingStorEndOfStream ''transferData'' \<and> file_transport.owed_pipe obj (rd_pipeline rd') = []"
    using read_pieces_total [OF rd(2) assms(3)] rd(3) by auto
  have "length ds \<noteq> length ns" using concat_length [OF run(3)] assms(4) unfolding run(2) by simp
  with rd run show ?thesis by auto
qed

theorem reader_delivers_range_witness:
  "\<exists>rd ds rd' w'. QingStorReader (example_config 2) ''b'' example_object True = Some (Ret rd) \<and>
    read_pieces (file_server ''abcde'') [3, 1, 3, 3, 3] (rd, \<lparr>fw_conns = [], fw_held = [], fw_sched = [[(2, 1)]]\<rparr>) =
      Some (ds, THROW QingStorEndOfStream ''transferData'', rd', w') \<and> concat ds = ''bcde''"
proof -
  have "readable (example_config 2) ''b'' example_object ''abcde''"
    using example_addressable [of 2]
    by (simp add: readable_def example_object_def) (simp add: example_config_def Configuration_direct_def)
  moreover have "range_bytes example_object ''abcde'' = ''bcde''" by (simp add: range_bytes_def example_object_def subbuf_def)
  ultimately show ?thesis
    using reader_delivers_range [of "example_config 2" "''b''" example_object "''abcde''"
        "\<lparr>fw_conns = [], fw_held = [], fw_sched = [[(2, 1)]]\<rparr>" "[3, 1, 3, 3, 3]"] by simp
qed

section \<open>Where the downloads go wrong\<close>

lemma chunk_loop_pieces:
  assumes "chunk_loop chunk endp a acc = Some y"
  shows "y = Ret ps \<Longrightarrow> ps \<noteq> []"
  using assms
proof (induction rule: chunk_loop.raw_induct [rotated, consumes 1])
  case (1 loop chunk endp a acc y)
  show ?case
  proof (cases "a + chunk_len chunk endp a \<le> endp")
    case True
    then have "loop chunk endp (a + chunk_len chunk endp a) (acc @ [(a, chunk_len chunk endp a)]) = Some y"
      using 1(2,3) by (auto simp: Let_def split: if_splits)
    from 1(1) [OF this 1(3)] show ?thesis .
  next
    case False
    then show ?thesis using 1(2,3) by (auto simp: Let_def split: if_splits)
  qed
qed

text \<open>
  A reader that is closed before its first read destroys fetchers whose \<open>mCurl\<close> was never
  initialised: undefined behaviour.
\<close>

theorem unread_reader_destroyed:
  assumes "QingStorReader cfg bucket ob ok = Some (Ret rd)"
  shows "fst (destroy_reader M rd w) = Undefined"
proof -
  obtain ps where ps: "chunk_loop (fst (chunk_sizes cfg)) (range_end (obj_range ob)) (range_start (obj_range ob)) [] = Some (Ret ps)"
    "rd = reader_of cfg bucket ob ps" using assms by (auto simp: reader_Ret_iff)
  have "ps \<noteq> []" using chunk_loop_pieces [OF ps(1)] by blast
  then show ?thesis
    by (cases ps) (simp_all add: destroy_reader_def destroy_pipeline_def ps(2) reader_of_def destroy_fetcher_def cleanup_def
        then_call_def new_fetcher_def HTTPFetcher_def Let_def)
qed

theorem unread_reader_destroyed_witness:
  "\<exists>rd. QingStorReader (example_config 2) ''b'' example_object True = Some (Ret rd) \<and>
    fst (destroy_reader (file_server ''abcde'') rd \<lparr>fw_conns = [], fw_held = [], fw_sched = []\<rparr>) = Undefined"
proof -
  have "readable (example_config 2) ''b'' example_object ''abcde''"
    using example_addressable [of 2]
    by (simp add: readable_def example_object_def) (simp add: example_config_def Configuration_direct_def)
  then obtain rd where "QingStorReader (example_config 2) ''b'' example_object True = Some (Ret rd)"
    using reader_opens [of _ _ _ _ "\<lparr>fw_conns = [], fw_held = [], fw_sched = []\<rparr>"] by fastforce
  then show ?thesis using unread_reader_destroyed by fast
qed

text \<open>
  A chunk size of 4 GiB and \<open>k\<close> bytes reaches the fetcher as \<open>k\<close>: of every piece only its
  first \<open>k\<close> bytes are fetched, and the data skips 4 GiB to the next piece.
\<close>

theorem huge_chunk_leaves_hole:
  assumes "mNConnections cfg > 1" and "mChunkSize cfg = 2 ^ 32 + k" and "0 < k" and "k < 2 ^ 31"
    and "0 \<le> range_start (obj_range ob)" and "range_start (obj_range ob) + mChunkSize cfg \<le> range_end (obj_range ob)"
    and "range_end (obj_range ob) < 2 ^ 62"
  shows "\<exists>rd f g fs. QingStorReader cfg bucket ob True = Some (Ret rd) \<and> pl_pending (rd_pipeline rd) = f # g # fs \<and>
    ft_offset f = range_start (obj_range ob) \<and> ft_len f = k \<and> ft_offset g = range_start (obj_range ob) + 2 ^ 32 + k"
proof -
  let ?a = "range_start (obj_range ob)" and ?e = "range_end (obj_range ob)" and ?c = "mChunkSize cfg"
  have c: "0 < ?c" "?e + ?c \<le> INT64_MAX" using assms by (auto simp: INT64_MAX_def)
  have ae: "?a \<le> ?e" using assms(2,3,6) by simp
  have step: "chunk_loop ?c ?e x acc = (if x + chunk_len ?c ?e x \<le> ?e then chunk_loop ?c ?e (x + chunk_len ?c ?e x)
      (acc @ [(x, chunk_len ?c ?e x)]) else Some (Ret (acc @ [(x, chunk_len ?c ?e x)])))" if "0 \<le> x" "x \<le> ?e" for x acc
    using that c by (subst chunk_loop.simps) (auto simp: INT64_MIN_def Let_def)
  let ?b = "?a + ?c"
  let ?n = "chunk_len ?c ?e ?b"
  have b: "0 \<le> ?b" "?b \<le> ?e" "0 < ?n" "?b + ?n \<le> ?e + 1" using c(1) assms(5,6) by (auto simp: chunk_len_def)
  have "chunk_len ?c ?e ?a = ?c" using c(1) assms(6) by (auto simp: chunk_len_def)
  then have "chunk_loop ?c ?e ?a [] = chunk_loop ?c ?e ?b [(?a, ?c)]" using step [of ?a "[]"] assms(5,6) ae by simp
  moreover have "\<exists>ps. chunk_loop ?c ?e ?b [(?a, ?c)] = Some (Ret ((?a, ?c) # (?b, ?n) # ps))"
  proof (cases "?b + ?n \<le> ?e")
    case True
    obtain ps where "chunk_loop ?c ?e (?b + ?n) [(?a, ?c), (?b, ?n)] = Some (Ret ([(?a, ?c), (?b, ?n)] @ ps))"
      using chunk_loop_run [OF c, of "?b + ?n" "[(?a, ?c), (?b, ?n)]"] True b by auto
    then show ?thesis using step [OF b(1,2), of "[(?a, ?c)]"] True by simp
  next
    case False
    then show ?thesis using step [OF b(1,2), of "[(?a, ?c)]"] by simp
  qed
  ultimately obtain ps where "chunk_loop ?c ?e ?a [] = Some (Ret ((?a, ?c) # (?b, ?n) # ps))" by auto
  moreover have "(2 ^ 32 + (k + 2 ^ 31)) mod 2 ^ 32 = (k + 2 ^ 31) mod (2 ^ 32 :: int)" by (rule mod_add_self1)
  then have "to_int32 ?c = k" unfolding to_int32_def assms(2) using assms(3,4) by (simp add: add.assoc)
  ultimately show ?thesis
    using assms(1,2)
    by (auto simp: reader_Ret_iff chunk_sizes_def reader_of_def new_fetcher_def HTTPFetcher_def Let_def)
qed

theorem huge_chunk_leaves_hole_witness:
  "\<exists>rd f g fs. QingStorReader (example_config (2 ^ 32 + 7)) ''b''
      (example_object\<lparr>obj_range := \<lparr>range_start = 0, range_end = 2 ^ 33\<rparr>\<rparr>) True = Some (Ret rd) \<and>
    pl_pending (rd_pipeline rd) = f # g # fs \<and> ft_offset f = 0 \<and> ft_len f = 7 \<and> ft_offset g = 2 ^ 32 + 7"
  using huge_chunk_leaves_hole [of "example_config (2 ^ 32 + 7)" 7 "example_object\<lparr>obj_range := \<lparr>range_start = 0, range_end = 2 ^ 33\<rparr>\<rparr>" "''b''"]
  by (simp add: example_config_def Configuration_direct_def example_object_def)

text \<open>
  C31. A fetcher that is started again after a failure asks for exactly the bytes that have
  not arrived, but in a second \<open>Range\<close> line behind the one of the first attempt: the request
  names no single range.
\<close>

theorem restart_sends_two_ranges:
  assumes "start M (f, w) = (Ret (), f', w')" and "ft_buff f \<noteq> None"
    and "filter is_range_line (ft_headers f) = [l]" and "0 \<le> ft_len f"
  shows "filter is_range_line (ft_headers f') =
      [l, header_line RANGE (range_text (ft_offset f + ft_bytes_done f + int (unread f)) (ft_len f - ft_bytes_done f - int (unread f)))] \<and>
    requested_range (ft_headers f') = None"
proof -
  from assms(1) obtain f1 w1 h f2 w2 hs where a: "alloc_buffer M (f, w) = (Ret (), f1, w1)"
    and b: "begin_transfer M (f1, w1) = (Ret h, f2, w2)" and c: "signed_headers M f2 w2 = Ret hs"
    and f': "f' = f2\<lparr>ft_headers := hs, ft_http_headers := Some hs, ft_state := FETCHER_RUNNING\<rparr>"
    unfolding start_Ret_iff by blast
  have f2: "f2 = f\<lparr>ft_curl := Handle h, ft_parent := True\<rparr>"
    using a b assms(2) by (auto simp: alloc_buffer_def begin_transfer_def split: if_splits prod.splits option.splits)
  have pos: "resume_offset f2 = ft_offset f + ft_bytes_done f + int (unread f)"
    "resume_len f2 = ft_len f - ft_bytes_done f - int (unread f)"
    by (simp_all add: f2 resume_offset_def resume_len_def unread_def)
  have "filter is_range_line hs = filter is_range_line (range_headers f2)" by (rule signed_ranges [OF c])
  also have "\<dots> = [l, header_line RANGE (range_text (resume_offset f2) (resume_len f2))]"
    using assms(3,4) by (simp add: range_headers_def f2 filter_header_add Let_def)
  finally show ?thesis using pos by (simp add: f' requested_range_def)
qed

text \<open>A fetcher of five bytes that failed after two of them.\<close>

definition failed_fetcher :: fetcher where
  "failed_fetcher = (new_fetcher (example_config 5) ''b'' example_object (0, 5))
     \<lparr>ft_state := FETCHER_FAILED, ft_curl := Null, ft_buff := Some (replicate 16384 NUL), ft_buff_size := 16384,
      ft_bytes_done := 2, ft_headers := [''Range: bytes=0-4'']\<rparr>"

theorem restart_sends_two_ranges_witness:
  "\<exists>f' w'. start (file_server ''abcde'') (failed_fetcher, \<lparr>fw_conns = [], fw_held = [], fw_sched = []\<rparr>) = (Ret (), f', w') \<and>
    filter is_range_line (ft_headers f') = [''Range: bytes=0-4'', header_line RANGE (range_text 2 3)] \<and>
    requested_range (ft_headers f') = None"
proof -
  let ?M = "file_server ''abcde''" and ?w = "\<lparr>fw_conns = [], fw_held = [], fw_sched = []\<rparr>"
  have fields: "ft_state failed_fetcher = FETCHER_FAILED" "ft_buff failed_fetcher \<noteq> None"
    "filter is_range_line (ft_headers failed_fetcher) = [''Range: bytes=0-4'']" "ft_len failed_fetcher = 5"
    "ft_offset failed_fetcher = 0" "ft_bytes_done failed_fetcher = 2" "unread failed_fetcher = 0"
    "ft_url failed_fetcher = object_url (example_config 5) (bucket_host (example_config 5) ''b'') ''k''"
    by (simp_all add: failed_fetcher_def new_fetcher_def HTTPFetcher_def unread_def is_range_line_def Let_def example_object_def)
  have a: "alloc_buffer ?M (failed_fetcher, ?w) = (Ret (), failed_fetcher, ?w)" using fields(2) by (simp add: alloc_buffer_def)
  obtain h f2 w2 where b: "begin_transfer ?M (failed_fetcher, ?w) = (Ret h, f2, w2)" "ft_url f2 = ft_url failed_fetcher"
    using fields(1) by (auto simp: begin_transfer_def file_server_def)
  have "file_transport.startable f2"
    using object_url_plain [OF example_addressable [of 5]] by (simp add: file_transport.startable_def b(2) fields(8))
  then obtain hs where "signed_headers ?M f2 w2 = Ret hs" using file_transport.signed_total by blast
  with a b(1) have "\<exists>f' w'. start ?M (failed_fetcher, ?w) = (Ret (), f', w')" unfolding start_Ret_iff by blast
  then obtain f' w' where st: "start ?M (failed_fetcher, ?w) = (Ret (), f', w')" by blast
  from restart_sends_two_ranges [OF st fields(2,3)] fields st show ?thesis by auto
qed

text \<open>
  C30. The body of an error response is kept as data: after a response with another code than
  200 and 206 the transfer fails, and the next read hands out the error text.
\<close>

theorem error_body_read:
  assumes "buff_ok f" and "ft_curl f = Handle h" and "unread f = 0" and "c \<noteq> []" and "length c \<le> ft_buff_size f"
    and "respcode \<noteq> 0" and "respcode \<noteq> 200" and "respcode \<noteq> 206" and "0 < n"
  shows "\<exists>f1 f2 f3. WriterCallback c f = (Some (length c), f1) \<and>
    handleResult M CURLE_OK respcode (f1, w) = (Ret (), f2, mu_close M h w) \<and> ft_state f2 = FETCHER_FAILED \<and>
    get_data M n (f2, w2) = Some (Ret (take n c, False), f3, w2)"
proof -
  obtain r f1 where cb: "WriterCallback c f = (r, f1)" by (cases "WriterCallback c f")
  note ok = callback_ok [OF assms(1), of c, unfolded cb fst_conv snd_conv]
  have curl: "ft_curl f1 = Handle h" using callback_frame [of f c] assms(2) by (simp add: cb same_fetch_def)
  have "content f = []" using assms(3) by (simp add: content_def)
  then have r: "r = Some (length c)" "content f1 = c" using ok(2,3) assms(3,5) by auto
  define f2 where "f2 = f1\<lparr>ft_parent := False, ft_curl := Null, ft_http_headers := None,
      ft_state := FETCHER_FAILED, ft_nfailures := to_int32 (ft_nfailures f1 + 1)\<rparr>"
  have same: "buff_ok f2" "content f2 = c" "unread f2 = length c"
    using ok(1) r(2) length_content [OF ok(1)] by (simp_all add: f2_def buff_ok_def content_def unread_def ft_block_def)
  have "handleResult M CURLE_OK respcode (f1, w) = (Ret (), f2, mu_close M h w)"
    using assms(6-8) curl by (simp add: handleResult_def fetch_fail_def cleanup_def then_call_def f2_def)
  moreover have "fst (take_data n f2) = take n c"
    using take_data_ok(2,3) [OF same(1), of n] same(2,3) by (auto simp: take_data_def Let_def subbuf_def content_def min_def)
  then have "\<exists>f3. get_data M n (f2, w2) = Some (Ret (take n c, False), f3, w2)"
    using same(3) assms(4) by (subst get_data.simps) (auto split: prod.split)
  ultimately show ?thesis using cb r(1) by (auto simp: f2_def)
qed

theorem error_body_read_witness:
  "\<exists>f1 f2 f3. WriterCallback ''no such key'' (failed_fetcher\<lparr>ft_curl := Handle 7\<rparr>) = (Some (length ''no such key''), f1) \<and>
    handleResult (file_server []) CURLE_OK 404 (f1, \<lparr>fw_conns = [], fw_held = [], fw_sched = []\<rparr>) =
      (Ret (), f2, mu_close (file_server []) 7 \<lparr>fw_conns = [], fw_held = [], fw_sched = []\<rparr>) \<and> ft_state f2 = FETCHER_FAILED \<and>
    get_data (file_server []) 7 (f2, \<lparr>fw_conns = [], fw_held = [], fw_sched = []\<rparr>) =
      Some (Ret (''no such'', False), f3, \<lparr>fw_conns = [], fw_held = [], fw_sched = []\<rparr>)"
  using error_body_read [of "failed_fetcher\<lparr>ft_curl := Handle 7\<rparr>" 7 "''no such key''" 404 7 "file_server []"
      "\<lparr>fw_conns = [], fw_held = [], fw_sched = []\<rparr>" "\<lparr>fw_conns = [], fw_held = [], fw_sched = []\<rparr>"]
  by (simp add: failed_fetcher_def new_fetcher_def HTTPFetcher_def Let_def buff_ok_def unread_def ft_block_def)

text \<open>A libcurl that cannot create handles, and a pipeline whose head could not be started.\<close>

definition no_handles :: "file_world multi_env" where
  "no_handles = (file_server [])\<lparr>mu_easy_init := \<lambda>w. (None, w)\<rparr>"

definition stuck :: "pipeline \<times> file_world \<Rightarrow> bool" where
  "stuck s \<longleftrightarrow> (\<exists>f. pl_active (fst s) = [f] \<and> pl_pending (fst s) = [] \<and> ft_state f = FETCHER_INIT \<and>
     ft_curl f = Uninitialised \<and> unread f = 0 \<and> \<not> ft_paused f) \<and> fw_conns (snd s) = []"

lemma offers_unstarted:
  "ft_curl f = Uninitialised \<Longrightarrow> fold (offer_to M) es ([f], w) = ([f], w)"
  by (induction es) simp_all

lemma stuck_raw:
  assumes "pipeline_read N n s = Some y"
  shows "N = no_handles \<Longrightarrow> stuck s \<Longrightarrow> False"
  using assms
proof (induction rule: pipeline_read.raw_induct [rotated, consumes 1])
  case (1 loop N n s y)
  obtain p w where s: "s = (p, w)" by (cases s)
  obtain f where f: "pl_active p = [f]" "pl_pending p = []" "ft_state f = FETCHER_INIT" "ft_curl f = Uninitialised"
    "unread f = 0" "\<not> ft_paused f" "fw_conns w = []" using 1(4) by (auto simp: stuck_def s)
  define w2 where "w2 = snd (snd (mu_perform no_handles w))"
  have "fw_conns w2 = []" using f(7) by (auto simp: w2_def no_handles_def file_server_def split: list.split)
  then have again: "stuck (p\<lparr>pl_active := [f]\<rparr>, w2)" using f by (simp add: stuck_def)
  have wait: "wait_for_data no_handles ([f], w) = (Ret (), [f], w2)"
    using f(7) \<open>fw_conns w2 = []\<close>
    by (auto simp: wait_for_data_def no_handles_def file_server_def w2_def offers_unstarted [OF f(4)] complete_msgs_def
        split: list.splits)
  have got: "get_data no_handles n (f, w) = Some (Ret ([], False), f, w)"
    using f by (subst get_data.simps) simp
  have "launch no_handles (p, w) = (Ret (), p, w)" using f(1,2) by (simp add: launch_def)
  then have "loop no_handles n (p\<lparr>pl_active := [f]\<rparr>, w2) = Some y"
    using 1(2,3) f got wait by (simp add: s restart_failed_def then_call_def)
  from 1(1) [OF this] again show ?case by simp
qed

text \<open>
  When a fetcher cannot be started the read that tried throws, but the fetcher stays at
  the head of the list in its initial state, which no later read starts again: the next
  read blocks for ever.
\<close>

theorem read_after_failed_start_blocks:
  assumes "pl_active p = []" and "pl_pending p = [f]" and "0 < pl_nconnections p" and "fw_conns w = []"
    and "ft_state f = FETCHER_INIT" and "ft_curl f = Uninitialised" and "unread f = 0" and "\<not> ft_paused f"
  shows "\<exists>e p'. pipeline_read no_handles n (p, w) = Some (Throw e, p', w) \<and> pipeline_read no_handles m (p', w) = None"
proof -
  obtain f1 where a: "alloc_buffer no_handles (f, w) = (Ret (), f1, w)" and f1: "ft_state f1 = FETCHER_INIT"
      "ft_curl f1 = Uninitialised" "unread f1 = 0" "\<not> ft_paused f1"
    using assms(5-8) by (cases "ft_buff f") (simp_all add: alloc_buffer_def no_handles_def file_server_def Let_def unread_def)
  have "begin_transfer no_handles (f1, w) = (THROW QingStorNetworkException ''could not create curl handle'', f1, w)"
    using f1(1) by (simp add: begin_transfer_def no_handles_def)
  with a obtain e where "start no_handles (f, w) = (Throw e, f1, w)" by (simp add: start_def then_call_def THROW_def)
  then have "launch no_handles (p, w) = (Throw e, p\<lparr>pl_active := [f1], pl_pending := []\<rparr>, w)"
    using assms(1-3) by (simp add: launch_def)
  then have "pipeline_read no_handles n (p, w) = Some (Throw e, p\<lparr>pl_active := [f1], pl_pending := []\<rparr>, w)"
    by (subst pipeline_read.simps) simp
  moreover have "stuck (p\<lparr>pl_active := [f1], pl_pending := []\<rparr>, w)" using f1 assms(4) by (simp add: stuck_def)
  then have "pipeline_read no_handles m (p\<lparr>pl_active := [f1], pl_pending := []\<rparr>, w) = None"
    using stuck_raw by (cases "pipeline_read no_handles m (p\<lparr>pl_active := [f1], pl_pending := []\<rparr>, w)") blast+
  ultimately show ?thesis by blast
qed

theorem read_after_failed_start_blocks_witness:
  "\<exists>e p'. pipeline_read no_handles 10
      (\<lparr>pl_active = [], pl_pending = [new_fetcher (example_config 5) ''b'' example_object (0, 5)], pl_nconnections = 3\<rparr>,
       \<lparr>fw_conns = [], fw_held = [], fw_sched = []\<rparr>) = Some (Throw e, p', \<lparr>fw_conns = [], fw_held = [], fw_sched = []\<rparr>) \<and>
    pipeline_read no_handles 10 (p', \<lparr>fw_conns = [], fw_held = [], fw_sched = []\<rparr>) = None"
  by (rule read_after_failed_start_blocks [where f = "new_fetcher (example_config 5) ''b'' example_object (0, 5)"]) (simp_all add: new_fetcher_def HTTPFetcher_def Let_def unread_def)

end
