(* ===== verification/Http_Parser.thy ===== *)
theory Http_Parser
  imports Url_Parser
begin

text \<open>
  The state of the message parser of \<open>src/lib/http_parser.c\<close>, its settings, the macros its
  automaton is written with (callbacks, marks, the header byte count) and its small
  functions. The automaton itself is in \<open>Http_Start_Line\<close>, \<open>Http_Headers\<close>, \<open>Http_Body\<close>
  and \<open>Http_Exec\<close>.
\<close>

section \<open>The parser and its settings\<close>

text \<open>
  \<open>struct http_parser\<close>; the widths are those of its bit fields. \<open>hp_data\<close>, the \<open>void *\<close> of
  the user, has the type of whatever the callbacks work on.
\<close>

record 'd http_parser =
  hp_type :: http_parser_type
  hp_flags :: flag_word
  hp_state :: state
  hp_header_state :: header_states
  hp_index :: "8 word"
  hp_nread :: u32
  hp_content_length :: u64
  hp_http_major :: u16
  hp_http_minor :: u16
  hp_status_code :: u16
  hp_method :: http_method
  hp_http_errno :: http_errno
  hp_upgrade :: bool
  hp_data :: 'd

text \<open>A callback gets the parser, which it may change, and returns an \<open>int\<close>.\<close>

type_synonym 'd http_cb = "'d http_parser \<Rightarrow> int \<times> 'd http_parser"
type_synonym 'd http_data_cb = "'d http_parser \<Rightarrow> byte list \<Rightarrow> int \<times> 'd http_parser"

record 'd http_parser_settings =
  on_message_begin :: "'d http_cb option"
  on_url :: "'d http_data_cb option"
  on_status :: "'d http_data_cb option"
  on_header_field :: "'d http_data_cb option"
  on_header_value :: "'d http_data_cb option"
  on_headers_complete :: "'d http_cb option"
  on_body :: "'d http_data_cb option"
  on_message_complete :: "'d http_cb option"
  on_chunk_header :: "'d http_cb option"
  on_chunk_complete :: "'d http_cb option"

section \<open>Small functions\<close>

definition http_message_needs_eof :: "'d http_parser \<Rightarrow> bool" where
  "http_message_needs_eof hp =
     (if hp_type hp = HTTP_REQUEST then False
      else if hp_status_code hp div 100 = 1 \<or> hp_status_code hp = 204 \<or> hp_status_code hp = 304 \<or>
              hp_flags hp AND F_SKIPBODY \<noteq> 0 then False
      else if hp_flags hp AND F_CHUNKED \<noteq> 0 \<or> hp_content_length hp \<noteq> ULLONG_MAX then False
      else True)"

definition http_should_keep_alive :: "'d http_parser \<Rightarrow> bool" where
  "http_should_keep_alive hp =
     (if hp_http_major hp > 0 \<and> hp_http_minor hp > 0
      then if hp_flags hp AND F_CONNECTION_CLOSE \<noteq> 0 then False else \<not> http_message_needs_eof hp
      else if hp_flags hp AND F_CONNECTION_KEEP_ALIVE = 0 then False else \<not> http_message_needs_eof hp)"

text \<open>\<open>memset\<close> to zero: the enumerations' zero values and number 0.\<close>

definition http_parser_init :: "http_parser_type \<Rightarrow> 'd http_parser \<Rightarrow> 'd http_parser" where
  "http_parser_init t hp =
     \<lparr>hp_type = t, hp_flags = 0,
      hp_state = (if t = HTTP_REQUEST then s_start_req
                  else if t = HTTP_RESPONSE then s_start_res else s_start_req_or_res),
      hp_header_state = h_general, hp_index = 0, hp_nread = 0, hp_content_length = 0,
      hp_http_major = 0, hp_http_minor = 0, hp_status_code = 0, hp_method = HTTP_DELETE,
      hp_http_errno = HPE_OK, hp_upgrade = False, hp_data = hp_data hp\<rparr>"

definition http_parser_settings_init :: "'d http_parser_settings" where
  "http_parser_settings_init =
     \<lparr>on_message_begin = None, on_url = None, on_status = None, on_header_field = None,
      on_header_value = None, on_headers_complete = None, on_body = None,
      on_message_complete = None, on_chunk_header = None, on_chunk_complete = None\<rparr>"

text \<open>\<open>None\<close> is the failed assertion of a parser that is in another error state.\<close>

definition http_parser_pause :: "bool \<Rightarrow> 'd http_parser \<Rightarrow> 'd http_parser option" where
  "http_parser_pause paused hp =
     (if hp_http_errno hp = HPE_OK \<or> hp_http_errno hp = HPE_PAUSED
      then Some (hp\<lparr>hp_http_errno := (if paused then HPE_PAUSED else HPE_OK)\<rparr>)
      else None)"

definition http_body_is_final :: "'d http_parser \<Rightarrow> bool" where
  "http_body_is_final hp \<longleftrightarrow> hp_state hp = s_message_done"

definition start_state :: "'d http_parser \<Rightarrow> state" where
  "start_state hp = (if hp_type hp = HTTP_REQUEST then s_start_req else s_start_res)"

definition NEW_MESSAGE :: "'d http_parser \<Rightarrow> state" where
  "NEW_MESSAGE hp = (if http_should_keep_alive hp then start_state hp else s_dead)"

section \<open>One call of \<open>http_parser_execute\<close>\<close>

text \<open>The five marks, the places where a piece of data for a callback started.\<close>

datatype mark = M_header_field | M_header_value | M_url | M_body | M_status

primrec mark_errno :: "mark \<Rightarrow> http_errno" where
  "mark_errno M_header_field = HPE_CB_header_field"
| "mark_errno M_header_value = HPE_CB_header_value"
| "mark_errno M_url = HPE_CB_url"
| "mark_errno M_body = HPE_CB_body"
| "mark_errno M_status = HPE_CB_status"

primrec data_callback :: "'d http_parser_settings \<Rightarrow> mark \<Rightarrow> 'd http_data_cb option" where
  "data_callback st M_header_field = on_header_field st"
| "data_callback st M_header_value = on_header_value st"
| "data_callback st M_url = on_url st"
| "data_callback st M_body = on_body st"
| "data_callback st M_status = on_status st"

text \<open>
  The variables of the call: the parser, \<open>p_state\<close>, the position \<open>p - data\<close>, the current
  byte \<open>ch\<close> and the marks, as positions.
\<close>

record 'd exec =
  ex_hp :: "'d http_parser"
  ex_state :: state
  ex_p :: nat
  ex_ch :: byte
  ex_marks :: "mark \<Rightarrow> nat option"

text \<open>
  How the code for one state leaves the \<open>switch\<close>: \<open>break\<close>, \<open>goto reexecute\<close>, \<open>goto error\<close>,
  a \<open>return\<close>, or a fault: an assertion that fails or a read outside an array.
\<close>

datatype 'd step = Next "'d exec" | Reexec "'d exec" | Goto_error "'d exec"
  | Return nat "'d http_parser" | Fault

definition on_parser :: "('d http_parser \<Rightarrow> 'd http_parser) \<Rightarrow> 'd exec \<Rightarrow> 'd exec" where
  "on_parser f x = x\<lparr>ex_hp := f (ex_hp x)\<rparr>"

definition UPDATE_STATE :: "state \<Rightarrow> 'd exec \<Rightarrow> 'd exec" where
  "UPDATE_STATE s x = x\<lparr>ex_state := s\<rparr>"

text \<open>\<open>SET_ERRNO(e); goto error\<close>.\<close>

definition fail_with :: "http_errno \<Rightarrow> 'd exec \<Rightarrow> 'd step" where
  "fail_with e x = Goto_error (on_parser (hp_http_errno_update (\<lambda>_. e)) x)"

definition STRICT_CHECK :: "bool \<Rightarrow> 'd exec \<Rightarrow> 'd step \<Rightarrow> 'd step" where
  "STRICT_CHECK bad x k = (if bad then fail_with HPE_STRICT x else k)"

definition COUNT_HEADER_SIZE :: "nat \<Rightarrow> 'd exec \<Rightarrow> ('d exec \<Rightarrow> 'd step) \<Rightarrow> 'd step" where
  "COUNT_HEADER_SIZE v x k =
     (let x' = on_parser (\<lambda>hp. hp\<lparr>hp_nread := hp_nread hp + of_nat v\<rparr>) x in
      if unat (hp_nread (ex_hp x')) > HTTP_MAX_HEADER_SIZE then fail_with HPE_HEADER_OVERFLOW x'
      else k x')"

definition MARK :: "mark \<Rightarrow> 'd exec \<Rightarrow> 'd exec" where
  "MARK m x = (case ex_marks x m of None \<Rightarrow> x\<lparr>ex_marks := (ex_marks x)(m \<mapsto> ex_p x)\<rparr> | Some _ \<Rightarrow> x)"

text \<open>What follows a callback that returned \<open>r\<close> and left the parser \<open>hp\<close>.\<close>

definition after_callback :: "http_errno \<Rightarrow> nat \<Rightarrow> int \<times> 'd http_parser \<Rightarrow> 'd exec \<Rightarrow>
    ('d exec \<Rightarrow> 'd step) \<Rightarrow> 'd step" where
  "after_callback e er res x k =
     (let hp = (if fst res \<noteq> 0 then (snd res)\<lparr>hp_http_errno := e\<rparr> else snd res);
          x' = x\<lparr>ex_hp := hp, ex_state := hp_state hp\<rparr>
      in if hp_http_errno hp \<noteq> HPE_OK then Return er hp else k x')"

text \<open>\<open>CALLBACK_NOTIFY_(FOR, ER)\<close>.\<close>

definition CALLBACK_NOTIFY_at :: "'d http_cb option \<Rightarrow> http_errno \<Rightarrow> nat \<Rightarrow> 'd exec \<Rightarrow>
    ('d exec \<Rightarrow> 'd step) \<Rightarrow> 'd step" where
  "CALLBACK_NOTIFY_at cb e er x k =
     (if hp_http_errno (ex_hp x) \<noteq> HPE_OK then Fault
      else case cb of None \<Rightarrow> k x
        | Some f \<Rightarrow> after_callback e er (f ((ex_hp x)\<lparr>hp_state := ex_state x\<rparr>)) x k)"

definition CALLBACK_NOTIFY :: "'d http_cb option \<Rightarrow> http_errno \<Rightarrow> 'd exec \<Rightarrow> ('d exec \<Rightarrow> 'd step) \<Rightarrow> 'd step" where
  "CALLBACK_NOTIFY cb e x k = CALLBACK_NOTIFY_at cb e (ex_p x + 1) x k"

definition CALLBACK_NOTIFY_NOADVANCE :: "'d http_cb option \<Rightarrow> http_errno \<Rightarrow> 'd exec \<Rightarrow>
    ('d exec \<Rightarrow> 'd step) \<Rightarrow> 'd step" where
  "CALLBACK_NOTIFY_NOADVANCE cb e x k = CALLBACK_NOTIFY_at cb e (ex_p x) x k"

text \<open>
  \<open>CALLBACK_DATA_(FOR, LEN, ER)\<close>; \<open>stop\<close> is the position \<open>FOR_mark + LEN\<close>. The callback
  reads the bytes from the mark to there.
\<close>

definition CALLBACK_DATA_at :: "'d http_parser_settings \<Rightarrow> byte list \<Rightarrow> mark \<Rightarrow> nat \<Rightarrow> nat \<Rightarrow> 'd exec \<Rightarrow>
    ('d exec \<Rightarrow> 'd step) \<Rightarrow> 'd step" where
  "CALLBACK_DATA_at st dat m stop er x k =
     (if hp_http_errno (ex_hp x) \<noteq> HPE_OK then Fault
      else case ex_marks x m of None \<Rightarrow> k x
        | Some at \<Rightarrow>
            let done = (\<lambda>x. k (x\<lparr>ex_marks := (ex_marks x)(m := None)\<rparr>)) in
            (case data_callback st m of None \<Rightarrow> done x
             | Some f \<Rightarrow>
                 if length dat < stop then Fault
                 else after_callback (mark_errno m) er
                        (f ((ex_hp x)\<lparr>hp_state := ex_state x\<rparr>) (subbuf at (stop - at) dat)) x done))"

definition CALLBACK_DATA :: "'d http_parser_settings \<Rightarrow> byte list \<Rightarrow> mark \<Rightarrow> 'd exec \<Rightarrow>
    ('d exec \<Rightarrow> 'd step) \<Rightarrow> 'd step" where
  "CALLBACK_DATA st dat m x k = CALLBACK_DATA_at st dat m (ex_p x) (ex_p x + 1) x k"

definition CALLBACK_DATA_NOADVANCE :: "'d http_parser_settings \<Rightarrow> byte list \<Rightarrow> mark \<Rightarrow> 'd exec \<Rightarrow>
    ('d exec \<Rightarrow> 'd step) \<Rightarrow> 'd step" where
  "CALLBACK_DATA_NOADVANCE st dat m x k = CALLBACK_DATA_at st dat m (ex_p x) (ex_p x) x k"

text \<open>\<open>RETURN(V)\<close>.\<close>

definition RETURN :: "nat \<Rightarrow> 'd exec \<Rightarrow> 'd step" where
  "RETURN v x = Return v ((ex_hp x)\<lparr>hp_state := ex_state x\<rparr>)"

text \<open>\<open>parser->flags |= f\<close> and the value of a decimal digit.\<close>

definition set_flag :: "flag_word \<Rightarrow> 'd http_parser \<Rightarrow> 'd http_parser" where
  "set_flag f hp = hp\<lparr>hp_flags := hp_flags hp OR f\<rparr>"

definition digit_of :: "byte \<Rightarrow> nat" where
  "digit_of c = ord c - 48"

end
