(* ===== verification/Http_Start_Line.thy ===== *)
theory Http_Start_Line
  imports Http_Parser
begin

text \<open>
  The cases of \<open>http_parser_execute\<close> for the first line of a message: the guess between
  request and response, the status line, the request line.
\<close>

section \<open>Before the message\<close>

definition on_dead :: "'d exec \<Rightarrow> 'd step" where
  "on_dead x = (if ex_ch x = CR \<or> ex_ch x = LF then Next x else fail_with HPE_CLOSED_CONNECTION x)"

text \<open>\<open>parser->flags = 0; parser->content_length = ULLONG_MAX\<close>.\<close>

definition fresh_message :: "'d http_parser \<Rightarrow> 'd http_parser" where
  "fresh_message hp = hp\<lparr>hp_flags := 0, hp_content_length := ULLONG_MAX\<rparr>"

definition on_start_req_or_res :: "'d http_parser_settings \<Rightarrow> 'd exec \<Rightarrow> 'd step" where
  "on_start_req_or_res st x =
     (if ex_ch x = CR \<or> ex_ch x = LF then Next x
      else let x = on_parser fresh_message x in
        if ex_ch x = CHR ''H''
        then CALLBACK_NOTIFY (on_message_begin st) HPE_CB_message_begin (UPDATE_STATE s_res_or_resp_H x) Next
        else Reexec (UPDATE_STATE s_start_req (on_parser (hp_type_update (\<lambda>_. HTTP_REQUEST)) x)))"

definition on_res_or_resp_H :: "'d exec \<Rightarrow> 'd step" where
  "on_res_or_resp_H x =
     (if ex_ch x = CHR ''T''
      then Next (UPDATE_STATE s_res_HT (on_parser (hp_type_update (\<lambda>_. HTTP_RESPONSE)) x))
      else if ex_ch x \<noteq> CHR ''E'' then fail_with HPE_INVALID_CONSTANT x
      else Next (UPDATE_STATE s_req_method
             (on_parser (\<lambda>hp. hp\<lparr>hp_type := HTTP_REQUEST, hp_method := HTTP_HEAD, hp_index := 2\<rparr>) x)))"

section \<open>The status line\<close>

definition on_start_res :: "'d http_parser_settings \<Rightarrow> 'd exec \<Rightarrow> 'd step" where
  "on_start_res st x =
     (let x = on_parser fresh_message x;
          notify = (\<lambda>x. CALLBACK_NOTIFY (on_message_begin st) HPE_CB_message_begin x Next)
      in if ex_ch x = CHR ''H'' then notify (UPDATE_STATE s_res_H x)
         else if ex_ch x = CR \<or> ex_ch x = LF then notify x
         else fail_with HPE_INVALID_CONSTANT x)"

text \<open>The states that wait for one byte of a constant, checked in the strict build.\<close>

definition on_constant :: "byte \<Rightarrow> state \<Rightarrow> 'd exec \<Rightarrow> 'd step" where
  "on_constant c s x = STRICT_CHECK (ex_ch x \<noteq> c) x (Next (UPDATE_STATE s x))"

text \<open>The numbers of the version and the status: the first digit, and the digits after it.\<close>

definition on_res_first_http_major :: "'d exec \<Rightarrow> 'd step" where
  "on_res_first_http_major x =
     (if \<not> IS_NUM (ex_ch x) then fail_with HPE_INVALID_VERSION x
      else Next (UPDATE_STATE s_res_http_major
             (on_parser (hp_http_major_update (\<lambda>_. of_nat (digit_of (ex_ch x)))) x)))"

definition more_major :: "'d exec \<Rightarrow> 'd step" where
  "more_major x =
     (let x = on_parser (\<lambda>hp. hp\<lparr>hp_http_major := hp_http_major hp * 10 + of_nat (digit_of (ex_ch x))\<rparr>) x in
      if hp_http_major (ex_hp x) > 999 then fail_with HPE_INVALID_VERSION x else Next x)"

definition more_minor :: "'d exec \<Rightarrow> 'd step" where
  "more_minor x =
     (let x = on_parser (\<lambda>hp. hp\<lparr>hp_http_minor := hp_http_minor hp * 10 + of_nat (digit_of (ex_ch x))\<rparr>) x in
      if hp_http_minor (ex_hp x) > 999 then fail_with HPE_INVALID_VERSION x else Next x)"

definition on_http_major :: "state \<Rightarrow> 'd exec \<Rightarrow> 'd step" where
  "on_http_major minor x =
     (if ex_ch x = CHR ''.'' then Next (UPDATE_STATE minor x)
      else if \<not> IS_NUM (ex_ch x) then fail_with HPE_INVALID_VERSION x
      else more_major x)"

definition on_first_http_minor :: "state \<Rightarrow> 'd exec \<Rightarrow> 'd step" where
  "on_first_http_minor s x =
     (if \<not> IS_NUM (ex_ch x) then fail_with HPE_INVALID_VERSION x
      else Next (UPDATE_STATE s (on_parser (hp_http_minor_update (\<lambda>_. of_nat (digit_of (ex_ch x)))) x)))"

definition on_res_http_minor :: "'d exec \<Rightarrow> 'd step" where
  "on_res_http_minor x =
     (if ex_ch x = SP then Next (UPDATE_STATE s_res_first_status_code x)
      else if \<not> IS_NUM (ex_ch x) then fail_with HPE_INVALID_VERSION x
      else more_minor x)"

definition on_res_first_status_code :: "'d exec \<Rightarrow> 'd step" where
  "on_res_first_status_code x =
     (if \<not> IS_NUM (ex_ch x)
      then if ex_ch x = SP then Next x else fail_with HPE_INVALID_STATUS x
      else Next (UPDATE_STATE s_res_status_code
             (on_parser (hp_status_code_update (\<lambda>_. of_nat (digit_of (ex_ch x)))) x)))"

definition on_res_status_code :: "'d exec \<Rightarrow> 'd step" where
  "on_res_status_code x =
     (if \<not> IS_NUM (ex_ch x)
      then if ex_ch x = SP then Next (UPDATE_STATE s_res_status_start x)
           else if ex_ch x = CR then Next (UPDATE_STATE s_res_line_almost_done x)
           else if ex_ch x = LF then Next (UPDATE_STATE s_header_field_start x)
           else fail_with HPE_INVALID_STATUS x
      else let x = on_parser (\<lambda>hp. hp\<lparr>hp_status_code := hp_status_code hp * 10 + of_nat (digit_of (ex_ch x))\<rparr>) x in
        if hp_status_code (ex_hp x) > 999 then fail_with HPE_INVALID_STATUS x else Next x)"

definition on_res_status_start :: "'d exec \<Rightarrow> 'd step" where
  "on_res_status_start x =
     (if ex_ch x = CR then Next (UPDATE_STATE s_res_line_almost_done x)
      else if ex_ch x = LF then Next (UPDATE_STATE s_header_field_start x)
      else Next (on_parser (hp_index_update (\<lambda>_. 0)) (UPDATE_STATE s_res_status (MARK M_status x))))"

definition on_res_status :: "'d http_parser_settings \<Rightarrow> byte list \<Rightarrow> 'd exec \<Rightarrow> 'd step" where
  "on_res_status st dat x =
     (if ex_ch x = CR then CALLBACK_DATA st dat M_status (UPDATE_STATE s_res_line_almost_done x) Next
      else if ex_ch x = LF then CALLBACK_DATA st dat M_status (UPDATE_STATE s_header_field_start x) Next
      else Next x)"

section \<open>The request method\<close>

text \<open>The \<open>switch\<close> over the first letter.\<close>

definition first_method :: "byte \<Rightarrow> http_method option" where
  "first_method c =
     (if c = CHR ''A'' then Some HTTP_ACL
      else if c = CHR ''B'' then Some HTTP_BIND
      else if c = CHR ''C'' then Some HTTP_CONNECT
      else if c = CHR ''D'' then Some HTTP_DELETE
      else if c = CHR ''G'' then Some HTTP_GET
      else if c = CHR ''H'' then Some HTTP_HEAD
      else if c = CHR ''L'' then Some HTTP_LOCK
      else if c = CHR ''M'' then Some HTTP_MKCOL
      else if c = CHR ''N'' then Some HTTP_NOTIFY
      else if c = CHR ''O'' then Some HTTP_OPTIONS
      else if c = CHR ''P'' then Some HTTP_POST
      else if c = CHR ''R'' then Some HTTP_REPORT
      else if c = CHR ''S'' then Some HTTP_SUBSCRIBE
      else if c = CHR ''T'' then Some HTTP_TRACE
      else if c = CHR ''U'' then Some HTTP_UNLOCK
      else None)"

definition on_start_req :: "'d http_parser_settings \<Rightarrow> 'd exec \<Rightarrow> 'd step" where
  "on_start_req st x =
     (if ex_ch x = CR \<or> ex_ch x = LF then Next x
      else let x = on_parser fresh_message x in
        if \<not> IS_ALPHA (ex_ch x) then fail_with HPE_INVALID_METHOD x
        else let x = on_parser (\<lambda>hp. hp\<lparr>hp_method := HTTP_DELETE, hp_index := 1\<rparr>) x in
          case first_method (ex_ch x) of
            None \<Rightarrow> fail_with HPE_INVALID_METHOD x
          | Some m \<Rightarrow> CALLBACK_NOTIFY (on_message_begin st) HPE_CB_message_begin
                        (UPDATE_STATE s_req_method (on_parser (hp_method_update (\<lambda>_. m)) x)) Next)"

text \<open>\<open>s[i]\<close> of a C string: its terminator at the end, \<open>None\<close> beyond.\<close>

definition c_string_at :: "string \<Rightarrow> nat \<Rightarrow> byte option" where
  "c_string_at s i = (if i < length s then Some (s ! i) else if i = length s then Some NUL else None)"

definition method_string :: "http_method \<Rightarrow> string" where
  "method_string m = method_strings ! http_method_num m"

text \<open>
  The chain of corrections when \<open>ch\<close> is not the expected letter: the method the text can
  still become, \<open>None\<close> for \<open>HPE_INVALID_METHOD\<close>.
\<close>

definition next_method :: "http_method \<Rightarrow> 8 word \<Rightarrow> byte \<Rightarrow> http_method option" where
  "next_method m i c =
     (if m = HTTP_CONNECT
      then if i = 1 \<and> c = CHR ''H'' then Some HTTP_CHECKOUT
           else if i = 2 \<and> c = CHR ''P'' then Some HTTP_COPY
           else None
      else if m = HTTP_MKCOL
      then if i = 1 \<and> c = CHR ''O'' then Some HTTP_MOVE
           else if i = 1 \<and> c = CHR ''E'' then Some HTTP_MERGE
           else if i = 1 \<and> c = CHR ''-'' then Some HTTP_MSEARCH
           else if i = 2 \<and> c = CHR ''A'' then Some HTTP_MKACTIVITY
           else if i = 3 \<and> c = CHR ''A'' then Some HTTP_MKCALENDAR
           else None
      else if m = HTTP_SUBSCRIBE
      then if i = 1 \<and> c = CHR ''E'' then Some HTTP_SEARCH else None
      else if m = HTTP_REPORT
      then if i = 2 \<and> c = CHR ''B'' then Some HTTP_REBIND else None
      else if i = 1 \<and> m = HTTP_POST
      then if c = CHR ''R'' then Some HTTP_PROPFIND
           else if c = CHR ''U'' then Some HTTP_PUT
           else if c = CHR ''A'' then Some HTTP_PATCH
           else None
      else if i = 2
      then if m = HTTP_PUT then (if c = CHR ''R'' then Some HTTP_PURGE else None)
           else if m = HTTP_UNLOCK
           then if c = CHR ''S'' then Some HTTP_UNSUBSCRIBE
                else if c = CHR ''B'' then Some HTTP_UNBIND
                else None
           else None
      else if i = 4 \<and> m = HTTP_PROPFIND \<and> c = CHR ''P'' then Some HTTP_PROPPATCH
      else None)"

definition on_req_method :: "'d exec \<Rightarrow> 'd step" where
  "on_req_method x =
     (let hp = ex_hp x; ch = ex_ch x;
          advance = (\<lambda>x. Next (on_parser (\<lambda>hp. hp\<lparr>hp_index := hp_index hp + 1\<rparr>) x))
      in if ch = NUL then fail_with HPE_INVALID_METHOD x
         else case c_string_at (method_string (hp_method hp)) (unat (hp_index hp)) of
                None \<Rightarrow> Fault
              | Some expected \<Rightarrow>
                  if ch = SP \<and> expected = NUL then advance (UPDATE_STATE s_req_spaces_before_url x)
                  else if ch = expected then advance x
                  else case next_method (hp_method hp) (hp_index hp) ch of
                         None \<Rightarrow> fail_with HPE_INVALID_METHOD x
                       | Some m \<Rightarrow> advance (on_parser (hp_method_update (\<lambda>_. m)) x))"

section \<open>The request URL and version\<close>

text \<open>One byte of the URL.\<close>

definition url_byte :: "'d exec \<Rightarrow> 'd step" where
  "url_byte x =
     (let x = UPDATE_STATE (parse_url_char (ex_state x) (ex_ch x)) x in
      if ex_state x = s_dead then fail_with HPE_INVALID_URL x else Next x)"

definition on_req_spaces_before_url :: "'d exec \<Rightarrow> 'd step" where
  "on_req_spaces_before_url x =
     (if ex_ch x = SP then Next x
      else let x = MARK M_url x in
        url_byte (if hp_method (ex_hp x) = HTTP_CONNECT then UPDATE_STATE s_req_server_start x else x))"

definition on_req_schema :: "'d exec \<Rightarrow> 'd step" where
  "on_req_schema x =
     (if ex_ch x = SP \<or> ex_ch x = CR \<or> ex_ch x = LF then fail_with HPE_INVALID_URL x else url_byte x)"

definition on_req_url :: "'d http_parser_settings \<Rightarrow> byte list \<Rightarrow> 'd exec \<Rightarrow> 'd step" where
  "on_req_url st dat x =
     (if ex_ch x = SP then CALLBACK_DATA st dat M_url (UPDATE_STATE s_req_http_start x) Next
      else if ex_ch x = CR \<or> ex_ch x = LF
      then CALLBACK_DATA st dat M_url
             (UPDATE_STATE (if ex_ch x = CR then s_req_line_almost_done else s_header_field_start)
               (on_parser (\<lambda>hp. hp\<lparr>hp_http_major := 0, hp_http_minor := 9\<rparr>) x)) Next
      else url_byte x)"

definition on_req_http_start :: "'d exec \<Rightarrow> 'd step" where
  "on_req_http_start x =
     (if ex_ch x = CHR ''H'' then Next (UPDATE_STATE s_req_http_H x)
      else if ex_ch x = SP then Next x
      else fail_with HPE_INVALID_CONSTANT x)"

definition on_req_first_http_major :: "'d exec \<Rightarrow> 'd step" where
  "on_req_first_http_major x =
     (if \<not> IS_NUM (ex_ch x) \<or> ex_ch x = CHR ''0'' then fail_with HPE_INVALID_VERSION x
      else Next (UPDATE_STATE s_req_http_major
             (on_parser (hp_http_major_update (\<lambda>_. of_nat (digit_of (ex_ch x)))) x)))"

definition on_req_http_minor :: "'d exec \<Rightarrow> 'd step" where
  "on_req_http_minor x =
     (if ex_ch x = CR then Next (UPDATE_STATE s_req_line_almost_done x)
      else if ex_ch x = LF then Next (UPDATE_STATE s_header_field_start x)
      else if \<not> IS_NUM (ex_ch x) then fail_with HPE_INVALID_VERSION x
      else more_minor x)"

definition on_req_line_almost_done :: "'d exec \<Rightarrow> 'd step" where
  "on_req_line_almost_done x =
     (if ex_ch x \<noteq> LF then fail_with HPE_LF_EXPECTED x else Next (UPDATE_STATE s_header_field_start x))"

end
