(* ===== verification/Http_Headers.thy ===== *)
theory Http_Headers
  imports Http_Start_Line
begin

text \<open>
  The cases of \<open>http_parser_execute\<close> for header fields: names matched letter by letter
  against the five fields the parser interprets, and their values.
\<close>

section \<open>Matching constants\<close>

text \<open>
  \<open>index > sizeof(NAME)-1 || c != NAME[index]\<close>, then \<open>index == sizeof(NAME)-2\<close>: the letter at
  \<open>index\<close> differs, is one of several still to come, or is the last.
\<close>

datatype letter = Mismatch | More | Last

definition match_letter :: "string \<Rightarrow> 8 word \<Rightarrow> byte \<Rightarrow> letter" where
  "match_letter name i c =
     (if unat i > length name \<or> c_string_at name (unat i) \<noteq> Some c then Mismatch
      else if unat i = length name - 1 then Last
      else More)"

definition next_index :: "'d http_parser \<Rightarrow> 'd http_parser" where
  "next_index hp = hp\<lparr>hp_index := hp_index hp + 1\<rparr>"

section \<open>Field names\<close>

definition match_field :: "string \<Rightarrow> header_states \<Rightarrow> byte \<Rightarrow> 'd http_parser \<Rightarrow> 'd http_parser" where
  "match_field name complete c hp =
     (let hp = next_index hp in
      case match_letter name (hp_index hp) c of
        Mismatch \<Rightarrow> hp\<lparr>hp_header_state := h_general\<rparr>
      | More \<Rightarrow> hp
      | Last \<Rightarrow> hp\<lparr>hp_header_state := complete\<rparr>)"

text \<open>The inner \<open>switch\<close> for one byte of a name; \<open>None\<close> is its failed assertion.\<close>

definition header_field_byte :: "byte \<Rightarrow> 'd http_parser \<Rightarrow> 'd http_parser option" where
  "header_field_byte ch hp =
     (let c = TOKEN ch; s = hp_header_state hp in
      if s = h_general then Some hp
      else if s = h_C then Some ((next_index hp)\<lparr>hp_header_state := (if c = CHR ''o'' then h_CO else h_general)\<rparr>)
      else if s = h_CO then Some ((next_index hp)\<lparr>hp_header_state := (if c = CHR ''n'' then h_CON else h_general)\<rparr>)
      else if s = h_CON then Some ((next_index hp)\<lparr>hp_header_state :=
             (if c = CHR ''n'' then h_matching_connection
              else if c = CHR ''t'' then h_matching_content_length else h_general)\<rparr>)
      else if s = h_matching_connection then Some (match_field ''connection'' h_connection c hp)
      else if s = h_matching_proxy_connection then Some (match_field ''proxy-connection'' h_connection c hp)
      else if s = h_matching_content_length then Some (match_field ''content-length'' h_content_length c hp)
      else if s = h_matching_transfer_encoding
      then Some (match_field ''transfer-encoding'' h_transfer_encoding c hp)
      else if s = h_matching_upgrade then Some (match_field ''upgrade'' h_upgrade c hp)
      else if s = h_connection \<or> s = h_content_length \<or> s = h_transfer_encoding \<or> s = h_upgrade
      then Some (if ch \<noteq> SP then hp\<lparr>hp_header_state := h_general\<rparr> else hp)
      else None)"

definition on_header_field_start :: "'d exec \<Rightarrow> 'd step" where
  "on_header_field_start x =
     (if ex_ch x = CR then Next (UPDATE_STATE s_headers_almost_done x)
      else if ex_ch x = LF then Reexec (UPDATE_STATE s_headers_almost_done x)
      else let c = TOKEN (ex_ch x) in
        if c = NUL then fail_with HPE_INVALID_HEADER_TOKEN x
        else Next (on_parser (\<lambda>hp. hp\<lparr>hp_index := 0, hp_header_state :=
                 (if c = CHR ''c'' then h_C
                  else if c = CHR ''p'' then h_matching_proxy_connection
                  else if c = CHR ''t'' then h_matching_transfer_encoding
                  else if c = CHR ''u'' then h_matching_upgrade
                  else h_general)\<rparr>)
               (UPDATE_STATE s_header_field (MARK M_header_field x))))"

text \<open>The loop over the name: parser, position and current byte at its end.\<close>

fun header_field_loop :: "'d http_parser \<Rightarrow> nat \<Rightarrow> byte \<Rightarrow> byte list \<Rightarrow> ('d http_parser \<times> nat \<times> byte) option" where
  "header_field_loop hp p ch [] = Some (hp, p, ch)"
| "header_field_loop hp p ch (b # bs) =
     (if TOKEN b = NUL then Some (hp, p, b)
      else case header_field_byte b hp of
             None \<Rightarrow> None
           | Some hp' \<Rightarrow> header_field_loop hp' (p + 1) b bs)"

definition on_header_field_name :: "'d http_parser_settings \<Rightarrow> byte list \<Rightarrow> 'd exec \<Rightarrow> 'd step" where
  "on_header_field_name st dat x =
     (let start = ex_p x in
      case header_field_loop (ex_hp x) start (ex_ch x) (drop start dat) of
        None \<Rightarrow> Fault
      | Some (hp, p, ch) \<Rightarrow>
          COUNT_HEADER_SIZE (p - start) (x\<lparr>ex_hp := hp, ex_p := p, ex_ch := ch\<rparr>) (\<lambda>x.
            if ex_p x = length dat then Next (x\<lparr>ex_p := ex_p x - 1\<rparr>)
            else if ex_ch x = CHR '':''
            then CALLBACK_DATA st dat M_header_field (UPDATE_STATE s_header_value_discard_ws x) Next
            else fail_with HPE_INVALID_HEADER_TOKEN x))"

section \<open>Field values\<close>

definition lower_byte :: "byte \<Rightarrow> byte" where
  "lower_byte c = char_of (LOWER c)"

text \<open>The first byte of a value that is not blank.\<close>

definition on_header_value_start :: "'d exec \<Rightarrow> 'd step" where
  "on_header_value_start x =
     (let x = on_parser (hp_index_update (\<lambda>_. 0)) (UPDATE_STATE s_header_value (MARK M_header_value x));
          c = lower_byte (ex_ch x); s = hp_header_state (ex_hp x);
          to_state = (\<lambda>s. Next (on_parser (hp_header_state_update (\<lambda>_. s)) x))
      in if s = h_upgrade
         then Next (on_parser (\<lambda>hp. (set_flag F_UPGRADE hp)\<lparr>hp_header_state := h_general\<rparr>) x)
         else if s = h_transfer_encoding
         then to_state (if c = CHR ''c'' then h_matching_transfer_encoding_chunked else h_general)
         else if s = h_content_length
         then if \<not> IS_NUM (ex_ch x) then fail_with HPE_INVALID_CONTENT_LENGTH x
              else Next (on_parser (hp_content_length_update (\<lambda>_. of_nat (digit_of (ex_ch x)))) x)
         else if s = h_connection
         then to_state (if c = CHR ''k'' then h_matching_connection_keep_alive
                        else if c = CHR ''c'' then h_matching_connection_close
                        else if c = CHR ''u'' then h_matching_connection_upgrade
                        else h_matching_connection_token)
         else if s = h_matching_connection_token_start then Next x
         else to_state h_general)"

definition on_header_value_discard_ws :: "'d exec \<Rightarrow> 'd step" where
  "on_header_value_discard_ws x =
     (if ex_ch x = SP \<or> ex_ch x = TAB then Next x
      else if ex_ch x = CR then Next (UPDATE_STATE s_header_value_discard_ws_almost_done x)
      else if ex_ch x = LF then Next (UPDATE_STATE s_header_value_discard_lws x)
      else on_header_value_start x)"

text \<open>
  One more digit of the length; \<open>None\<close> is \<open>HPE_INVALID_CONTENT_LENGTH\<close>.
\<close>

definition content_length_digit :: "byte \<Rightarrow> 'd http_parser \<Rightarrow> 'd http_parser option" where
  "content_length_digit ch hp =
     (if ch = SP then Some hp
      else if \<not> IS_NUM ch then None
      else let t = hp_content_length hp * 10 + of_nat (digit_of ch) in
        if (ULLONG_MAX - 10) div 10 < hp_content_length hp then None
        else Some (hp\<lparr>hp_content_length := t\<rparr>))"

definition match_value :: "string \<Rightarrow> header_states \<Rightarrow> header_states \<Rightarrow> header_states \<Rightarrow> byte \<Rightarrow>
    'd http_parser \<Rightarrow> 'd http_parser \<times> header_states" where
  "match_value name otherwise same complete c hp =
     (let hp = next_index hp in
      (hp, case match_letter name (hp_index hp) c of Mismatch \<Rightarrow> otherwise | More \<Rightarrow> same | Last \<Rightarrow> complete))"

text \<open>The token states of the \<open>Connection\<close> field.\<close>

definition connection_token_start :: "byte \<Rightarrow> header_states" where
  "connection_token_start c =
     (if c = CHR ''k'' then h_matching_connection_keep_alive
      else if c = CHR ''c'' then h_matching_connection_close
      else if c = CHR ''u'' then h_matching_connection_upgrade
      else if STRICT_TOKEN c \<noteq> NUL then h_matching_connection_token
      else if c = SP \<or> c = TAB then h_matching_connection_token_start
      else h_general)"

definition connection_flag :: "header_states \<Rightarrow> flag_word" where
  "connection_flag s =
     (if s = h_connection_keep_alive then F_CONNECTION_KEEP_ALIVE
      else if s = h_connection_close then F_CONNECTION_CLOSE
      else if s = h_connection_upgrade then F_CONNECTION_UPGRADE
      else 0)"

text \<open>
  The inner \<open>switch\<close> for one byte of a value, \<open>h_general\<close> apart: the local \<open>h_state\<close> is
  the argument and second result. \<open>Inl\<close> is an error, with \<open>None\<close> for a failed assertion.
  The state is \<open>s_header_value\<close> on entry, so the assignment in \<open>default\<close> changes nothing.
\<close>

definition header_value_byte :: "byte \<Rightarrow> header_states \<Rightarrow> 'd http_parser \<Rightarrow>
    http_errno option + 'd http_parser \<times> header_states" where
  "header_value_byte ch s hp =
     (let c = lower_byte ch in
      if s = h_connection \<or> s = h_transfer_encoding then Inl None
      else if s = h_content_length
      then (case content_length_digit ch hp of
              None \<Rightarrow> Inl (Some HPE_INVALID_CONTENT_LENGTH)
            | Some hp' \<Rightarrow> Inr (hp', s))
      else if s = h_matching_transfer_encoding_chunked
      then Inr (match_value ''chunked'' h_general s h_transfer_encoding_chunked c hp)
      else if s = h_matching_connection_token_start then Inr (hp, connection_token_start c)
      else if s = h_matching_connection_keep_alive
      then Inr (match_value ''keep-alive'' h_matching_connection_token s h_connection_keep_alive c hp)
      else if s = h_matching_connection_close
      then Inr (match_value ''close'' h_matching_connection_token s h_connection_close c hp)
      else if s = h_matching_connection_upgrade
      then Inr (match_value ''upgrade'' h_matching_connection_token s h_connection_upgrade c hp)
      else if s = h_matching_connection_token
      then Inr (if ch = CHR '','' then (hp\<lparr>hp_index := 0\<rparr>, h_matching_connection_token_start) else (hp, s))
      else if s = h_transfer_encoding_chunked then Inr (hp, if ch \<noteq> SP then h_general else s)
      else if s = h_connection_keep_alive \<or> s = h_connection_close \<or> s = h_connection_upgrade
      then Inr (if ch = CHR '',''
                then ((set_flag (connection_flag s) hp)\<lparr>hp_index := 0\<rparr>, h_matching_connection_token_start)
                else (hp, if ch \<noteq> SP then h_matching_connection_token else s))
      else Inr (hp, h_general))"

text \<open>
  The two \<open>memchr\<close> of \<open>h_general\<close>: the place of the first CR or LF among the next
  \<open>HTTP_MAX_HEADER_SIZE\<close> bytes; without one, the end of the data.
\<close>

fun line_end :: "nat \<Rightarrow> byte list \<Rightarrow> nat option" where
  "line_end n [] = None"
| "line_end n (b # bs) =
     (if n = 0 then None else if b = CR \<or> b = LF then Some 0 else map_option Suc (line_end (n - 1) bs))"

definition general_skip :: "byte list \<Rightarrow> nat" where
  "general_skip bs = (case line_end HTTP_MAX_HEADER_SIZE bs of Some i \<Rightarrow> i | None \<Rightarrow> length bs)"

text \<open>What follows the loop over the value.\<close>

definition header_value_end :: "byte list \<Rightarrow> nat \<Rightarrow> header_states \<Rightarrow> 'd exec \<Rightarrow> 'd step" where
  "header_value_end dat start s x =
     COUNT_HEADER_SIZE (ex_p x - start) (on_parser (hp_header_state_update (\<lambda>_. s)) x) (\<lambda>x.
       Next (if ex_p x = length dat then x\<lparr>ex_p := ex_p x - 1\<rparr> else x))"

text \<open>
  The loop. The last argument is the data from \<open>p\<close> on. In the branch for \<open>h_general\<close> the
  current byte is neither CR nor LF, so \<open>general_skip\<close> is at least 1; \<open>p\<close> is set to the byte
  before the line end and advanced by the loop.
\<close>

function header_value_loop :: "'d http_parser_settings \<Rightarrow> byte list \<Rightarrow> nat \<Rightarrow> header_states \<Rightarrow> 'd exec \<Rightarrow>
    byte list \<Rightarrow> 'd step" where
  "header_value_loop st dat start s x [] = header_value_end dat start s x"
| "header_value_loop st dat start s x (b # bs) =
     (let x = x\<lparr>ex_ch := b\<rparr>;
          keep = on_parser (hp_header_state_update (\<lambda>_. s)) in
      if b = CR
      then CALLBACK_DATA st dat M_header_value (keep (UPDATE_STATE s_header_almost_done x))
             (header_value_end dat start s)
      else if b = LF
      then COUNT_HEADER_SIZE (ex_p x - start) (UPDATE_STATE s_header_almost_done x) (\<lambda>x.
             CALLBACK_DATA_NOADVANCE st dat M_header_value (keep x) Reexec)
      else if s = h_general
      then let n = general_skip (b # bs) in
        header_value_loop st dat start s (x\<lparr>ex_p := ex_p x + n\<rparr>) (drop (n - 1) bs)
      else case header_value_byte b s (ex_hp x) of
             Inl None \<Rightarrow> Fault
           | Inl (Some e) \<Rightarrow> fail_with e (keep x)
           | Inr (hp, s') \<Rightarrow>
               header_value_loop st dat start s' (x\<lparr>ex_hp := hp, ex_p := ex_p x + 1\<rparr>) bs)"
  by pat_completeness auto
termination by (relation "measure (\<lambda>(st, dat, start, s, x, bs). length bs)") auto

declare header_value_loop.simps [simp del]

definition on_header_value_text :: "'d http_parser_settings \<Rightarrow> byte list \<Rightarrow> 'd exec \<Rightarrow> 'd step" where
  "on_header_value_text st dat x =
     header_value_loop st dat (ex_p x) (hp_header_state (ex_hp x)) x (drop (ex_p x) dat)"

section \<open>The end of a field\<close>

text \<open>The \<open>switch\<close> that records what the value was.\<close>

definition header_flags :: "'d http_parser \<Rightarrow> 'd http_parser" where
  "header_flags hp =
     (let s = hp_header_state hp in
      if s = h_connection_keep_alive then set_flag F_CONNECTION_KEEP_ALIVE hp
      else if s = h_connection_close then set_flag F_CONNECTION_CLOSE hp
      else if s = h_transfer_encoding_chunked then set_flag F_CHUNKED hp
      else if s = h_connection_upgrade then set_flag F_CONNECTION_UPGRADE hp
      else hp)"

definition on_header_value_lws :: "'d exec \<Rightarrow> 'd step" where
  "on_header_value_lws x =
     (if ex_ch x = SP \<or> ex_ch x = TAB then Reexec (UPDATE_STATE s_header_value_start x)
      else Reexec (UPDATE_STATE s_header_field_start (on_parser header_flags x)))"

definition on_header_value_discard_lws :: "'d http_parser_settings \<Rightarrow> byte list \<Rightarrow> 'd exec \<Rightarrow> 'd step" where
  "on_header_value_discard_lws st dat x =
     (if ex_ch x = SP \<or> ex_ch x = TAB then Next (UPDATE_STATE s_header_value_discard_ws x)
      else CALLBACK_DATA_NOADVANCE st dat M_header_value
             (UPDATE_STATE s_header_field_start (MARK M_header_value (on_parser header_flags x))) Reexec)"

end
