(* ===== verification/Http_Body.thy ===== *)
theory Http_Body
  imports Http_Start_Line
begin

text \<open>
  The cases of \<open>http_parser_execute\<close> from the end of the headers on: bodies of known length,
  bodies up to the end of the connection, chunked bodies, and the end of the message.
\<close>

section \<open>The end of the headers\<close>

text \<open>
  The call of \<open>on_headers_complete\<close>, which is not the macro: \<open>parser->state\<close> is not stored
  before it nor read after it, and a result of 1 asks for no body.
\<close>

definition headers_complete :: "'d http_parser_settings \<Rightarrow> 'd exec \<Rightarrow> 'd step" where
  "headers_complete st x =
     (let proceed = (\<lambda>x. if hp_http_errno (ex_hp x) \<noteq> HPE_OK then RETURN (ex_p x) x else Reexec x) in
      case on_headers_complete st of
        None \<Rightarrow> proceed x
      | Some f \<Rightarrow>
          (let (r, hp) = f (ex_hp x); x = x\<lparr>ex_hp := hp\<rparr> in
           if r = 0 then proceed x
           else if r = 1 then proceed (on_parser (set_flag F_SKIPBODY) x)
           else RETURN (ex_p x) (on_parser (hp_http_errno_update (\<lambda>_. HPE_CB_headers_complete)) x)))"

definition wants_upgrade :: "'d http_parser \<Rightarrow> bool" where
  "wants_upgrade hp \<longleftrightarrow>
     hp_flags hp AND (F_UPGRADE OR F_CONNECTION_UPGRADE) = (F_UPGRADE OR F_CONNECTION_UPGRADE) \<or>
     hp_method hp = HTTP_CONNECT"

definition on_headers_almost_done :: "'d http_parser_settings \<Rightarrow> 'd exec \<Rightarrow> 'd step" where
  "on_headers_almost_done st x =
     STRICT_CHECK (ex_ch x \<noteq> LF) x
       (if hp_flags (ex_hp x) AND F_TRAILING \<noteq> 0
        then CALLBACK_NOTIFY_NOADVANCE (on_chunk_complete st) HPE_CB_chunk_complete
               (UPDATE_STATE s_message_done x) Reexec
        else headers_complete st
               (on_parser (\<lambda>hp. hp\<lparr>hp_upgrade := wants_upgrade hp\<rparr>) (UPDATE_STATE s_headers_done x)))"

definition has_body :: "'d http_parser \<Rightarrow> bool" where
  "has_body hp \<longleftrightarrow>
     hp_flags hp AND F_CHUNKED \<noteq> 0 \<or> (hp_content_length hp > 0 \<and> hp_content_length hp \<noteq> ULLONG_MAX)"

definition message_complete :: "'d http_parser_settings \<Rightarrow> 'd exec \<Rightarrow> ('d exec \<Rightarrow> 'd step) \<Rightarrow> 'd step" where
  "message_complete st x k =
     CALLBACK_NOTIFY (on_message_complete st) HPE_CB_message_complete
       (UPDATE_STATE (NEW_MESSAGE (ex_hp x)) x) k"

definition on_headers_done :: "'d http_parser_settings \<Rightarrow> 'd exec \<Rightarrow> 'd step" where
  "on_headers_done st x =
     STRICT_CHECK (ex_ch x \<noteq> LF) x
       (let x = on_parser (hp_nread_update (\<lambda>_. 0)) x; hp = ex_hp x in
        if hp_upgrade hp \<and> (hp_method hp = HTTP_CONNECT \<or> hp_flags hp AND F_SKIPBODY \<noteq> 0 \<or> \<not> has_body hp)
        then message_complete st x (\<lambda>x. RETURN (ex_p x + 1) x)
        else if hp_flags hp AND F_SKIPBODY \<noteq> 0 then message_complete st x Next
        else if hp_flags hp AND F_CHUNKED \<noteq> 0 then Next (UPDATE_STATE s_chunk_size_start x)
        else if hp_content_length hp = 0 then message_complete st x Next
        else if hp_content_length hp \<noteq> ULLONG_MAX then Next (UPDATE_STATE s_body_identity x)
        else if \<not> http_message_needs_eof hp then message_complete st x Next
        else Next (UPDATE_STATE s_body_identity_eof x))"

section \<open>Bodies\<close>

text \<open>\<open>to_read\<close>, and the step over that many bytes: \<open>p\<close> stops on the last of them.\<close>

definition body_to_read :: "byte list \<Rightarrow> 'd exec \<Rightarrow> nat" where
  "body_to_read dat x = min (unat (hp_content_length (ex_hp x))) (length dat - ex_p x)"

definition read_body :: "byte list \<Rightarrow> 'd exec \<Rightarrow> 'd exec" where
  "read_body dat x =
     (let n = body_to_read dat x; x = MARK M_body x in
      (on_parser (\<lambda>hp. hp\<lparr>hp_content_length := hp_content_length hp - of_nat n\<rparr>) x)\<lparr>ex_p := ex_p x + n - 1\<rparr>)"

definition on_body_identity :: "'d http_parser_settings \<Rightarrow> byte list \<Rightarrow> 'd exec \<Rightarrow> 'd step" where
  "on_body_identity st dat x =
     (if hp_content_length (ex_hp x) = 0 \<or> hp_content_length (ex_hp x) = ULLONG_MAX then Fault
      else let x = read_body dat x in
        if hp_content_length (ex_hp x) = 0
        then CALLBACK_DATA_at st dat M_body (ex_p x + 1) (ex_p x) (UPDATE_STATE s_message_done x) Reexec
        else Next x)"

definition on_body_identity_eof :: "byte list \<Rightarrow> 'd exec \<Rightarrow> 'd step" where
  "on_body_identity_eof dat x = Next ((MARK M_body x)\<lparr>ex_p := length dat - 1\<rparr>)"

definition on_message_done :: "'d http_parser_settings \<Rightarrow> 'd exec \<Rightarrow> 'd step" where
  "on_message_done st x =
     message_complete st x (\<lambda>x. if hp_upgrade (ex_hp x) then RETURN (ex_p x + 1) x else Next x)"

section \<open>Chunks\<close>

definition assert_chunked :: "'d exec \<Rightarrow> 'd step \<Rightarrow> 'd step" where
  "assert_chunked x k = (if hp_flags (ex_hp x) AND F_CHUNKED = 0 then Fault else k)"

definition on_chunk_size_start :: "'d exec \<Rightarrow> 'd step" where
  "on_chunk_size_start x =
     (if hp_nread (ex_hp x) \<noteq> 1 then Fault
      else assert_chunked x
        (if unhex_val (ex_ch x) = - 1 then fail_with HPE_INVALID_CHUNK_SIZE x
         else Next (UPDATE_STATE s_chunk_size
                (on_parser (hp_content_length_update (\<lambda>_. of_int (unhex_val (ex_ch x)))) x))))"

definition on_chunk_size :: "'d exec \<Rightarrow> 'd step" where
  "on_chunk_size x =
     assert_chunked x
       (if ex_ch x = CR then Next (UPDATE_STATE s_chunk_size_almost_done x)
        else if unhex_val (ex_ch x) = - 1
        then if ex_ch x = CHR '';'' \<or> ex_ch x = SP then Next (UPDATE_STATE s_chunk_parameters x)
             else fail_with HPE_INVALID_CHUNK_SIZE x
        else let n = hp_content_length (ex_hp x); t = n * 16 + of_int (unhex_val (ex_ch x)) in
          if (ULLONG_MAX - 16) div 16 < n then fail_with HPE_INVALID_CONTENT_LENGTH x
          else Next (on_parser (hp_content_length_update (\<lambda>_. t)) x))"

definition on_chunk_parameters :: "'d exec \<Rightarrow> 'd step" where
  "on_chunk_parameters x =
     assert_chunked x
       (if ex_ch x = CR then Next (UPDATE_STATE s_chunk_size_almost_done x) else Next x)"

definition on_chunk_size_almost_done :: "'d http_parser_settings \<Rightarrow> 'd exec \<Rightarrow> 'd step" where
  "on_chunk_size_almost_done st x =
     assert_chunked x (STRICT_CHECK (ex_ch x \<noteq> LF) x
       (let x = on_parser (hp_nread_update (\<lambda>_. 0)) x;
            x = (if hp_content_length (ex_hp x) = 0
                 then UPDATE_STATE s_header_field_start (on_parser (set_flag F_TRAILING) x)
                 else UPDATE_STATE s_chunk_data x)
        in CALLBACK_NOTIFY (on_chunk_header st) HPE_CB_chunk_header x Next))"

definition on_chunk_data :: "byte list \<Rightarrow> 'd exec \<Rightarrow> 'd step" where
  "on_chunk_data dat x =
     assert_chunked x
       (if hp_content_length (ex_hp x) = 0 \<or> hp_content_length (ex_hp x) = ULLONG_MAX then Fault
        else let x = read_body dat x in
          Next (if hp_content_length (ex_hp x) = 0 then UPDATE_STATE s_chunk_data_almost_done x else x))"

definition on_chunk_data_almost_done :: "'d http_parser_settings \<Rightarrow> byte list \<Rightarrow> 'd exec \<Rightarrow> 'd step" where
  "on_chunk_data_almost_done st dat x =
     assert_chunked x
       (if hp_content_length (ex_hp x) \<noteq> 0 then Fault
        else STRICT_CHECK (ex_ch x \<noteq> CR) x
          (CALLBACK_DATA st dat M_body (UPDATE_STATE s_chunk_data_done x) Next))"

definition on_chunk_data_done :: "'d http_parser_settings \<Rightarrow> 'd exec \<Rightarrow> 'd step" where
  "on_chunk_data_done st x =
     assert_chunked x (STRICT_CHECK (ex_ch x \<noteq> LF) x
       (CALLBACK_NOTIFY (on_chunk_complete st) HPE_CB_chunk_complete
          (UPDATE_STATE s_chunk_size_start (on_parser (hp_nread_update (\<lambda>_. 0)) x)) Next))"

end
