(* ===== verification/Http_Exec.thy ===== *)
theory Http_Exec
  imports Http_Headers Http_Body
begin

text \<open>
  \<open>http_parser_execute\<close> of \<open>src/lib/http_parser.c\<close>: the dispatch over the state, the loop over
  the bytes with its \<open>reexecute\<close> label, the callbacks for data left over at the end.
\<close>

section \<open>The switch\<close>

definition exec_switch :: "'d http_parser_settings \<Rightarrow> byte list \<Rightarrow> 'd exec \<Rightarrow> 'd step" where
  "exec_switch st dat x =
     (case ex_state x of
        s_dead \<Rightarrow> on_dead x
      | s_start_req_or_res \<Rightarrow> on_start_req_or_res st x
      | s_res_or_resp_H \<Rightarrow> on_res_or_resp_H x
      | s_start_res \<Rightarrow> on_start_res st x
      | s_res_H \<Rightarrow> on_constant (CHR ''T'') s_res_HT x
      | s_res_HT \<Rightarrow> on_constant (CHR ''T'') s_res_HTT x
      | s_res_HTT \<Rightarrow> on_constant (CHR ''P'') s_res_HTTP x
      | s_res_HTTP \<Rightarrow> on_constant (CHR ''/'') s_res_first_http_major x
      | s_res_first_http_major \<Rightarrow> on_res_first_http_major x
      | s_res_http_major \<Rightarrow> on_http_major s_res_first_http_minor x
      | s_res_first_http_minor \<Rightarrow> on_first_http_minor s_res_http_minor x
      | s_res_http_minor \<Rightarrow> on_res_http_minor x
      | s_res_first_status_code \<Rightarrow> on_res_first_status_code x
      | s_res_status_code \<Rightarrow> on_res_status_code x
      | s_res_status_start \<Rightarrow> on_res_status_start x
      | s_res_status \<Rightarrow> on_res_status st dat x
      | s_res_line_almost_done \<Rightarrow> on_constant LF s_header_field_start x
      | s_start_req \<Rightarrow> on_start_req st x
      | s_req_method \<Rightarrow> on_req_method x
      | s_req_spaces_before_url \<Rightarrow> on_req_spaces_before_url x
      | s_req_schema \<Rightarrow> on_req_schema x
      | s_req_schema_slash \<Rightarrow> on_req_schema x
      | s_req_schema_slash_slash \<Rightarrow> on_req_schema x
      | s_req_server_start \<Rightarrow> on_req_schema x
      | s_req_server \<Rightarrow> on_req_url st dat x
      | s_req_server_with_at \<Rightarrow> on_req_url st dat x
      | s_req_path \<Rightarrow> on_req_url st dat x
      | s_req_query_string_start \<Rightarrow> on_req_url st dat x
      | s_req_query_string \<Rightarrow> on_req_url st dat x
      | s_req_fragment_start \<Rightarrow> on_req_url st dat x
      | s_req_fragment \<Rightarrow> on_req_url st dat x
      | s_req_http_start \<Rightarrow> on_req_http_start x
      | s_req_http_H \<Rightarrow> on_constant (CHR ''T'') s_req_http_HT x
      | s_req_http_HT \<Rightarrow> on_constant (CHR ''T'') s_req_http_HTT x
      | s_req_http_HTT \<Rightarrow> on_constant (CHR ''P'') s_req_http_HTTP x
      | s_req_http_HTTP \<Rightarrow> on_constant (CHR ''/'') s_req_first_http_major x
      | s_req_first_http_major \<Rightarrow> on_req_first_http_major x
      | s_req_http_major \<Rightarrow> on_http_major s_req_first_http_minor x
      | s_req_first_http_minor \<Rightarrow> on_first_http_minor s_req_http_minor x
      | s_req_http_minor \<Rightarrow> on_req_http_minor x
      | s_req_line_almost_done \<Rightarrow> on_req_line_almost_done x
      | s_header_field_start \<Rightarrow> on_header_field_start x
      | s_header_field \<Rightarrow> on_header_field_name st dat x
      | s_header_value_discard_ws \<Rightarrow> on_header_value_discard_ws x
      | s_header_value_discard_ws_almost_done \<Rightarrow> on_constant LF s_header_value_discard_lws x
      | s_header_value_discard_lws \<Rightarrow> on_header_value_discard_lws st dat x
      | s_header_value_start \<Rightarrow> on_header_value_start x
      | s_header_value \<Rightarrow> on_header_value_text st dat x
      | s_header_value_lws \<Rightarrow> on_header_value_lws x
      | s_header_almost_done \<Rightarrow> on_constant LF s_header_value_lws x
      | s_chunk_size_start \<Rightarrow> on_chunk_size_start x
      | s_chunk_size \<Rightarrow> on_chunk_size x
      | s_chunk_parameters \<Rightarrow> on_chunk_parameters x
      | s_chunk_size_almost_done \<Rightarrow> on_chunk_size_almost_done st x
      | s_headers_almost_done \<Rightarrow> on_headers_almost_done st x
      | s_headers_done \<Rightarrow> on_headers_done st x
      | s_chunk_data \<Rightarrow> on_chunk_data dat x
      | s_chunk_data_almost_done \<Rightarrow> on_chunk_data_almost_done st dat x
      | s_chunk_data_done \<Rightarrow> on_chunk_data_done st x
      | s_body_identity \<Rightarrow> on_body_identity st dat x
      | s_body_identity_eof \<Rightarrow> on_body_identity_eof dat x
      | s_message_done \<Rightarrow> on_message_done st x)"

section \<open>The loop\<close>

datatype 'd result = Returned nat "'d http_parser" | Faulted

text \<open>The label \<open>error\<close>.\<close>

definition exec_error :: "'d exec \<Rightarrow> 'd result" where
  "exec_error x =
     Returned (ex_p x)
       ((if hp_http_errno (ex_hp x) = HPE_OK then (ex_hp x)\<lparr>hp_http_errno := HPE_UNKNOWN\<rparr> else ex_hp x)
         \<lparr>hp_state := ex_state x\<rparr>)"

text \<open>After the last byte: the callbacks for marks that are still set.\<close>

definition marks_set :: "'d exec \<Rightarrow> nat" where
  "marks_set x =
     length (filter (\<lambda>m. ex_marks x m \<noteq> None) [M_header_field, M_header_value, M_url, M_body, M_status])"

definition exec_end :: "'d http_parser_settings \<Rightarrow> byte list \<Rightarrow> 'd exec \<Rightarrow> 'd step" where
  "exec_end st dat x =
     (if marks_set x > 1 then Fault
      else CALLBACK_DATA_NOADVANCE st dat M_header_field x (\<lambda>x.
           CALLBACK_DATA_NOADVANCE st dat M_header_value x (\<lambda>x.
           CALLBACK_DATA_NOADVANCE st dat M_url x (\<lambda>x.
           CALLBACK_DATA_NOADVANCE st dat M_body x (\<lambda>x.
           CALLBACK_DATA_NOADVANCE st dat M_status x (\<lambda>x. RETURN (length dat) x))))))"

text \<open>The head of the loop body: load the byte, count it when in a header.\<close>

definition exec_byte :: "byte list \<Rightarrow> 'd exec \<Rightarrow> 'd step" where
  "exec_byte dat x =
     (let x = x\<lparr>ex_ch := dat ! ex_p x\<rparr> in
      if PARSING_HEADER (ex_state x) then COUNT_HEADER_SIZE 1 x Reexec else Reexec x)"

text \<open>
  The loop at its head (\<open>again = False\<close>) and at the label \<open>reexecute\<close> (\<open>again = True\<close>). A
  callback can make it run forever by setting \<open>parser->state\<close>, so it is partial. Past the
  end of the data, which the comparison \<open>p != data + len\<close> would not notice, it is a fault.
\<close>

partial_function (option) exec_loop :: "'d http_parser_settings \<Rightarrow> byte list \<Rightarrow> bool \<Rightarrow> 'd exec \<Rightarrow> 'd result option" where
  "exec_loop st dat again x =
     (if \<not> again \<and> length dat < ex_p x then Some Faulted
      else case (if again then exec_switch st dat x
                 else if ex_p x = length dat then exec_end st dat x
                 else exec_byte dat x) of
             Next x' \<Rightarrow> exec_loop st dat False (x'\<lparr>ex_p := ex_p x' + 1\<rparr>)
           | Reexec x' \<Rightarrow> exec_loop st dat True x'
           | Goto_error x' \<Rightarrow> Some (exec_error x')
           | Return n hp \<Rightarrow> Some (Returned n hp)
           | Fault \<Rightarrow> Some Faulted)"

declare exec_loop.simps [code]

text \<open>The marks of the data a former call left in the middle of.\<close>

definition initial_marks :: "state \<Rightarrow> mark \<Rightarrow> nat option" where
  "initial_marks s m =
     (case m of
        M_header_field \<Rightarrow> if s = s_header_field then Some 0 else None
      | M_header_value \<Rightarrow> if s = s_header_value then Some 0 else None
      | M_url \<Rightarrow>
          if s \<in> {s_req_path, s_req_schema, s_req_schema_slash, s_req_schema_slash_slash,
                  s_req_server_start, s_req_server, s_req_server_with_at, s_req_query_string_start,
                  s_req_query_string, s_req_fragment_start, s_req_fragment}
          then Some 0 else None
      | M_body \<Rightarrow> None
      | M_status \<Rightarrow> if s = s_res_status then Some 0 else None)"

definition exec_start :: "'d http_parser \<Rightarrow> 'd exec" where
  "exec_start hp = \<lparr>ex_hp = hp, ex_state = hp_state hp, ex_p = 0, ex_ch = NUL, ex_marks = initial_marks (hp_state hp)\<rparr>"

text \<open>A call with no data, which signals the end of the connection.\<close>

definition execute_eof :: "'d http_parser_settings \<Rightarrow> 'd http_parser \<Rightarrow> 'd result" where
  "execute_eof st hp =
     (if hp_state hp = s_body_identity_eof
      then (case CALLBACK_NOTIFY_NOADVANCE (on_message_complete st) HPE_CB_message_complete (exec_start hp)
                   (\<lambda>x. Return 0 (ex_hp x)) of
              Return n hp' \<Rightarrow> Returned n hp'
            | _ \<Rightarrow> Faulted)
      else if hp_state hp \<in> {s_dead, s_start_req_or_res, s_start_res, s_start_req} then Returned 0 hp
      else Returned 1 (hp\<lparr>hp_http_errno := HPE_INVALID_EOF_STATE\<rparr>))"

definition http_parser_execute :: "'d http_parser_settings \<Rightarrow> 'd http_parser \<Rightarrow> byte list \<Rightarrow> 'd result option" where
  "http_parser_execute st hp dat =
     (if hp_http_errno hp \<noteq> HPE_OK then Some (Returned 0 hp)
      else if dat = [] then Some (execute_eof st hp)
      else exec_loop st dat False (exec_start hp))"

end
