(* ===== verification/Http_Safety.thy ===== *)
theory Http_Safety
  imports Http_Exec
begin

text \<open>
  \<open>http_parser_execute\<close> always returns, no assertion of it fails and it reads no byte outside
  its arrays, as long as the callbacks leave the parser's own fields alone. The proof goes
  through an invariant of the parser between calls (\<open>parser_ok\<close>), kept by the code of every
  state (\<open>step_ok\<close>), and the order in which the code re-executes states (\<open>rank\<close>).
\<close>

section \<open>Callbacks\<close>

text \<open>
  A callback may change the user's data, and the error code: \<open>http_parser_pause\<close>.
\<close>

definition polite :: "(int \<times> 'd http_parser) \<Rightarrow> 'd http_parser \<Rightarrow> bool" where
  "polite res hp \<longleftrightarrow> snd res = hp\<lparr>hp_data := hp_data (snd res), hp_http_errno := hp_http_errno (snd res)\<rparr>"

definition polite_cb :: "'d http_cb option \<Rightarrow> bool" where
  "polite_cb cb \<longleftrightarrow> (\<forall>f hp. cb = Some f \<longrightarrow> polite (f hp) hp)"

definition polite_data_cb :: "'d http_data_cb option \<Rightarrow> bool" where
  "polite_data_cb cb \<longleftrightarrow> (\<forall>f hp bs. cb = Some f \<longrightarrow> polite (f hp bs) hp)"

definition polite_settings :: "'d http_parser_settings \<Rightarrow> bool" where
  "polite_settings st \<longleftrightarrow>
     polite_cb (on_message_begin st) \<and> polite_cb (on_headers_complete st) \<and>
     polite_cb (on_message_complete st) \<and> polite_cb (on_chunk_header st) \<and>
     polite_cb (on_chunk_complete st) \<and> (\<forall>m. polite_data_cb (data_callback st m))"

section \<open>The invariant\<close>

definition name_state :: "header_states \<Rightarrow> bool" where
  "name_state h \<longleftrightarrow> h \<in> {h_general, h_C, h_CO, h_CON, h_matching_connection, h_matching_proxy_connection,
     h_matching_content_length, h_matching_transfer_encoding, h_matching_upgrade, h_connection,
     h_content_length, h_transfer_encoding, h_upgrade}"

abbreviation chunked :: "'d http_parser \<Rightarrow> bool" where
  "chunked hp \<equiv> hp_flags hp AND F_CHUNKED \<noteq> 0"

text \<open>
  What holds of the parser in each state; \<open>n\<close> is the header count a chunk size starts with.
\<close>

definition state_inv :: "u32 \<Rightarrow> 'd http_parser \<Rightarrow> state \<Rightarrow> bool" where
  "state_inv n hp s =
     (case s of
        s_chunk_size_start \<Rightarrow> chunked hp \<and> hp_nread hp = n
      | s_chunk_size \<Rightarrow> chunked hp \<and> hp_content_length hp \<noteq> ULLONG_MAX
      | s_chunk_parameters \<Rightarrow> chunked hp \<and> hp_content_length hp \<noteq> ULLONG_MAX
      | s_chunk_size_almost_done \<Rightarrow> chunked hp \<and> hp_content_length hp \<noteq> ULLONG_MAX
      | s_chunk_data \<Rightarrow> chunked hp \<and> hp_content_length hp \<noteq> 0 \<and> hp_content_length hp \<noteq> ULLONG_MAX
      | s_chunk_data_almost_done \<Rightarrow> chunked hp \<and> hp_content_length hp = 0
      | s_chunk_data_done \<Rightarrow> chunked hp
      | s_body_identity \<Rightarrow> hp_content_length hp \<noteq> 0 \<and> hp_content_length hp \<noteq> ULLONG_MAX
      | s_req_method \<Rightarrow> unat (hp_index hp) \<le> length (method_string (hp_method hp))
      | s_header_field \<Rightarrow> name_state (hp_header_state hp)
      | s_header_value \<Rightarrow> hp_header_state hp \<noteq> h_connection \<and> hp_header_state hp \<noteq> h_transfer_encoding
      | _ \<Rightarrow> True)"

definition parser_ok :: "'d http_parser \<Rightarrow> bool" where
  "parser_ok hp \<longleftrightarrow> state_inv 0 hp (hp_state hp)"

text \<open>The mark that may be set in a state.\<close>

definition owner :: "state \<Rightarrow> mark option" where
  "owner s =
     (case s of
        s_header_field \<Rightarrow> Some M_header_field
      | s_header_value \<Rightarrow> Some M_header_value
      | s_req_schema \<Rightarrow> Some M_url
      | s_req_schema_slash \<Rightarrow> Some M_url
      | s_req_schema_slash_slash \<Rightarrow> Some M_url
      | s_req_server_start \<Rightarrow> Some M_url
      | s_req_server \<Rightarrow> Some M_url
      | s_req_server_with_at \<Rightarrow> Some M_url
      | s_req_path \<Rightarrow> Some M_url
      | s_req_query_string_start \<Rightarrow> Some M_url
      | s_req_query_string \<Rightarrow> Some M_url
      | s_req_fragment_start \<Rightarrow> Some M_url
      | s_req_fragment \<Rightarrow> Some M_url
      | s_res_status \<Rightarrow> Some M_status
      | s_body_identity \<Rightarrow> Some M_body
      | s_body_identity_eof \<Rightarrow> Some M_body
      | s_chunk_data \<Rightarrow> Some M_body
      | s_chunk_data_almost_done \<Rightarrow> Some M_body
      | _ \<Rightarrow> None)"

definition marks_in :: "mark option \<Rightarrow> 'd exec \<Rightarrow> bool" where
  "marks_in own x \<longleftrightarrow>
     (\<forall>m. (own \<noteq> Some m \<longrightarrow> ex_marks x m = None) \<and> (\<forall>at. ex_marks x m = Some at \<longrightarrow> at \<le> ex_p x))"

text \<open>At the head of the loop, and at \<open>reexecute\<close>.\<close>

definition head_ok :: "byte list \<Rightarrow> 'd exec \<Rightarrow> bool" where
  "head_ok dat x \<longleftrightarrow> ex_p x \<le> length dat \<and> hp_http_errno (ex_hp x) = HPE_OK \<and>
     state_inv 0 (ex_hp x) (ex_state x) \<and> marks_in (owner (ex_state x)) x"

definition switch_ok :: "byte list \<Rightarrow> 'd exec \<Rightarrow> bool" where
  "switch_ok dat x \<longleftrightarrow> ex_p x < length dat \<and> hp_http_errno (ex_hp x) = HPE_OK \<and>
     state_inv 1 (ex_hp x) (ex_state x) \<and> marks_in (owner (ex_state x)) x"

definition rank :: "state \<Rightarrow> nat" where
  "rank s =
     (case s of
        s_header_value_lws \<Rightarrow> 3
      | s_header_value_discard_lws \<Rightarrow> 3
      | s_header_field_start \<Rightarrow> 2
      | s_headers_almost_done \<Rightarrow> 1
      | s_header_value \<Rightarrow> 1
      | s_body_identity \<Rightarrow> 1
      | s_start_req_or_res \<Rightarrow> 1
      | _ \<Rightarrow> 0)"

text \<open>What the code of a state of rank \<open>k\<close>, entered at position \<open>p\<close>, may do.\<close>

definition returned_ok :: "byte list \<Rightarrow> nat \<Rightarrow> 'd http_parser \<Rightarrow> bool" where
  "returned_ok dat n hp \<longleftrightarrow>
     n \<le> length dat \<and> (hp_http_errno hp \<in> {HPE_OK, HPE_PAUSED} \<longrightarrow> parser_ok hp)"

definition step_ok :: "byte list \<Rightarrow> nat \<Rightarrow> nat \<Rightarrow> 'd step \<Rightarrow> bool" where
  "step_ok dat p k r =
     (case r of
        Next x \<Rightarrow> p \<le> ex_p x \<and> head_ok dat (x\<lparr>ex_p := ex_p x + 1\<rparr>)
      | Reexec x \<Rightarrow> p \<le> ex_p x \<and> switch_ok dat x \<and> rank (ex_state x) < k
      | Goto_error x \<Rightarrow> ex_p x \<le> length dat \<and> hp_http_errno (ex_hp x) \<notin> {HPE_OK, HPE_PAUSED}
      | Return n hp \<Rightarrow> returned_ok dat n hp
      | Fault \<Rightarrow> False)"

lemmas exec_simps = on_parser_def UPDATE_STATE_def

lemma step_fail:
  "e \<notin> {HPE_OK, HPE_PAUSED} \<Longrightarrow> ex_p x \<le> length dat \<Longrightarrow> step_ok dat p k (fail_with e x)"
  by (simp add: step_ok_def fail_with_def exec_simps)

lemma step_strict: "ex_p x \<le> length dat \<Longrightarrow> (\<not> bad \<Longrightarrow> step_ok dat p k r) \<Longrightarrow> step_ok dat p k (STRICT_CHECK bad x r)"
  by (simp add: STRICT_CHECK_def step_fail)

lemma step_next_iff:
  "step_ok dat p k (Next x) \<longleftrightarrow> p \<le> ex_p x \<and> ex_p x < length dat \<and> hp_http_errno (ex_hp x) = HPE_OK \<and>
     state_inv 0 (ex_hp x) (ex_state x) \<and> marks_in (owner (ex_state x)) (x\<lparr>ex_p := ex_p x + 1\<rparr>)"
  by (auto simp: step_ok_def head_ok_def)

text \<open>Callbacks keep everything the invariant speaks about.\<close>

lemma state_inv_cong:
  "hp_flags hp' = hp_flags hp \<Longrightarrow> hp_content_length hp' = hp_content_length hp \<Longrightarrow> hp_nread hp' = hp_nread hp \<Longrightarrow>
   hp_index hp' = hp_index hp \<Longrightarrow> hp_method hp' = hp_method hp \<Longrightarrow> hp_header_state hp' = hp_header_state hp \<Longrightarrow>
     state_inv n hp' s = state_inv n hp s"
  by (simp add: state_inv_def split: state.split)

text \<open>What a successful callback leaves.\<close>

definition calm :: "'d exec \<Rightarrow> 'd exec \<Rightarrow> bool" where
  "calm x x' \<longleftrightarrow> ex_state x' = ex_state x \<and> ex_p x' = ex_p x \<and> ex_hp x' =
     (ex_hp x)\<lparr>hp_state := hp_state (ex_hp x'), hp_data := hp_data (ex_hp x'), hp_http_errno := HPE_OK\<rparr>"

lemma calm_hp:
  assumes "calm x x'"
  shows "hp_http_errno (ex_hp x') = HPE_OK" and "hp_flags (ex_hp x') = hp_flags (ex_hp x)"
    and "state_inv n (ex_hp x') s = state_inv n (ex_hp x) s"
    and "ex_state x' = ex_state x" and "ex_p x' = ex_p x"
proof -
  have hp: "ex_hp x' = (ex_hp x)\<lparr>hp_state := hp_state (ex_hp x'), hp_data := hp_data (ex_hp x'), hp_http_errno := HPE_OK\<rparr>"
    and "ex_state x' = ex_state x" "ex_p x' = ex_p x"
    using assms by (simp_all add: calm_def)
  then show "ex_state x' = ex_state x" "ex_p x' = ex_p x" by simp_all
  show "hp_http_errno (ex_hp x') = HPE_OK" "hp_flags (ex_hp x') = hp_flags (ex_hp x)"
    by (subst hp, simp)+
  show "state_inv n (ex_hp x') s = state_inv n (ex_hp x) s"
    by (rule state_inv_cong; subst hp, simp)
qed

lemma calm_refl: "hp_http_errno (ex_hp x) = HPE_OK \<Longrightarrow> calm x x"
  by (simp add: calm_def)

lemma after_callback_ok:
  assumes "polite res ((ex_hp x)\<lparr>hp_state := ex_state x\<rparr>)" and "er \<le> length dat"
    and "e \<notin> {HPE_OK, HPE_PAUSED}" and "state_inv 0 (ex_hp x) (ex_state x)"
    and next_ok: "\<And>x'. calm x x' \<Longrightarrow> ex_marks x' = ex_marks x \<Longrightarrow> step_ok dat p r (k x')"
  shows "step_ok dat p r (after_callback e er res x k)"
proof -
  obtain i hp where res: "res = (i, hp)" by (cases res)
  then obtain d en where hp: "hp = (ex_hp x)\<lparr>hp_state := ex_state x, hp_data := d, hp_http_errno := en\<rparr>"
    using assms(1) by (auto simp: polite_def)
  have inv: "state_inv 0 hp (ex_state x)"
    using assms(4) unfolding hp by (subst state_inv_cong [of _ "ex_hp x"]) simp_all
  show ?thesis
  proof (cases "i = 0 \<and> en = HPE_OK")
    case True
    let ?x = "x\<lparr>ex_hp := hp, ex_state := hp_state hp\<rparr>"
    have "calm x ?x" using True by (simp add: calm_def hp)
    then have "step_ok dat p r (k ?x)" by (rule next_ok) simp
    then show ?thesis using True by (simp add: after_callback_def res hp)
  next
    case False
    then show ?thesis
      using assms(2,3) inv by (auto simp: after_callback_def res hp step_ok_def returned_ok_def parser_ok_def)
  qed
qed

lemma notify_ok:
  assumes "polite_cb cb" and "hp_http_errno (ex_hp x) = HPE_OK" and "er \<le> length dat"
    and "e \<notin> {HPE_OK, HPE_PAUSED}" and "state_inv 0 (ex_hp x) (ex_state x)"
    and "\<And>x'. calm x x' \<Longrightarrow> ex_marks x' = ex_marks x \<Longrightarrow> step_ok dat p r (k x')"
  shows "step_ok dat p r (CALLBACK_NOTIFY_at cb e er x k)"
  using assms calm_refl [OF assms(2)]
  by (auto simp: CALLBACK_NOTIFY_at_def polite_cb_def split: option.split intro!: after_callback_ok)

lemma data_ok:
  assumes "polite_settings st" and "hp_http_errno (ex_hp x) = HPE_OK" and "er \<le> length dat" and "stop \<le> length dat"
    and "state_inv 0 (ex_hp x) (ex_state x)"
    and next_ok: "\<And>x'. calm x x' \<Longrightarrow> ex_marks x' = (ex_marks x)(m := None) \<Longrightarrow> step_ok dat p r (k x')"
  shows "step_ok dat p r (CALLBACK_DATA_at st dat m stop er x k)"
proof (cases "ex_marks x m")
  case None
  then have "ex_marks x = (ex_marks x)(m := None)" by auto
  with next_ok [OF calm_refl [OF assms(2)]] None assms(2) show ?thesis by (simp add: CALLBACK_DATA_at_def)
next
  case (Some at)
  let ?fin = "\<lambda>x. k (x\<lparr>ex_marks := (ex_marks x)(m := None)\<rparr>)"
  have fin: "step_ok dat p r (?fin x')" if "calm x x'" "ex_marks x' = ex_marks x" for x'
    by (rule next_ok) (use that in \<open>simp_all add: calm_def\<close>)
  have "mark_errno m \<notin> {HPE_OK, HPE_PAUSED}" by (cases m) auto
  moreover have "polite_data_cb (data_callback st m)" using assms(1) by (simp add: polite_settings_def)
  ultimately show ?thesis
    using Some assms(2-5) fin [OF calm_refl [OF assms(2)]] fin
    by (auto simp: CALLBACK_DATA_at_def polite_data_cb_def split: option.split intro!: after_callback_ok)
qed

section \<open>Concluding a step\<close>

lemmas switch_simps = switch_ok_def step_next_iff exec_simps marks_in_def

lemma state_inv_simps [simp]:
  "state_inv n hp s_dead" "state_inv n hp s_start_req_or_res" "state_inv n hp s_res_or_resp_H"
  "state_inv n hp s_start_res" "state_inv n hp s_res_H" "state_inv n hp s_res_HT" "state_inv n hp s_res_HTT"
  "state_inv n hp s_res_HTTP" "state_inv n hp s_res_first_http_major" "state_inv n hp s_res_http_major"
  "state_inv n hp s_res_first_http_minor" "state_inv n hp s_res_http_minor"
  "state_inv n hp s_res_first_status_code" "state_inv n hp s_res_status_code" "state_inv n hp s_res_status_start"
  "state_inv n hp s_res_status" "state_inv n hp s_res_line_almost_done" "state_inv n hp s_start_req"
  "state_inv n hp s_req_spaces_before_url" "state_inv n hp s_req_http_start" "state_inv n hp s_req_http_H"
  "state_inv n hp s_req_http_HT" "state_inv n hp s_req_http_HTT" "state_inv n hp s_req_http_HTTP"
  "state_inv n hp s_req_first_http_major" "state_inv n hp s_req_http_major"
  "state_inv n hp s_req_first_http_minor" "state_inv n hp s_req_http_minor"
  "state_inv n hp s_req_line_almost_done" "state_inv n hp s_header_field_start"
  "state_inv n hp s_header_value_discard_ws" "state_inv n hp s_header_value_discard_ws_almost_done"
  "state_inv n hp s_header_value_discard_lws" "state_inv n hp s_header_value_start"
  "state_inv n hp s_header_value_lws" "state_inv n hp s_header_almost_done"
  "state_inv n hp s_headers_almost_done" "state_inv n hp s_headers_done" "state_inv n hp s_body_identity_eof"
  "state_inv n hp s_message_done"
  by (simp_all add: state_inv_def)

lemma state_inv_method:
  "state_inv n hp s_req_method \<longleftrightarrow> unat (hp_index hp) \<le> length (method_string (hp_method hp))"
  by (simp add: state_inv_def)

lemma step_reexec_iff:
  "step_ok dat p k (Reexec x) \<longleftrightarrow> p \<le> ex_p x \<and> ex_p x < length dat \<and> hp_http_errno (ex_hp x) = HPE_OK \<and>
     state_inv 1 (ex_hp x) (ex_state x) \<and> marks_in (owner (ex_state x)) x \<and> rank (ex_state x) < k"
  by (auto simp: step_ok_def switch_ok_def)

lemma step_return_iff: "step_ok dat p k (Return n hp) \<longleftrightarrow> returned_ok dat n hp"
  by (simp add: step_ok_def)

lemma polite_settingsD:
  assumes "polite_settings st"
  shows "polite_cb (on_message_begin st)" "polite_cb (on_headers_complete st)"
    "polite_cb (on_message_complete st)" "polite_cb (on_chunk_header st)" "polite_cb (on_chunk_complete st)"
  using assms by (simp_all add: polite_settings_def)

lemmas step_simps = switch_ok_def step_next_iff step_reexec_iff exec_simps marks_in_def owner_def Let_def
  rank_def le_Suc_eq CALLBACK_NOTIFY_def CALLBACK_NOTIFY_NOADVANCE_def CALLBACK_DATA_def CALLBACK_DATA_NOADVANCE_def

lemmas step_intros = step_fail step_strict notify_ok data_ok

section \<open>The start line\<close>

lemma on_constant_ok:
  assumes "switch_ok dat x" and "owner (ex_state x) = None" and "state_inv 0 (ex_hp x) s"
  shows "step_ok dat (ex_p x) k (on_constant c s x)"
  using assms by (auto simp: on_constant_def switch_simps intro!: step_strict)

lemma on_dead_ok:
  "switch_ok dat x \<Longrightarrow> ex_state x = s_dead \<Longrightarrow> step_ok dat (ex_p x) k (on_dead x)"
  by (auto simp: on_dead_def step_simps intro!: step_fail)

lemma on_start_req_or_res_ok:
  assumes "polite_settings st" and "switch_ok dat x" and "ex_state x = s_start_req_or_res"
  shows "step_ok dat (ex_p x) 1 (on_start_req_or_res st x)"
  using polite_settingsD [OF assms(1)] assms(2,3)
  by (auto simp: on_start_req_or_res_def step_simps calm_hp fresh_message_def intro!: step_intros)

lemma method_lengths: "2 \<le> length (method_string m)" "2 < length (method_string HTTP_HEAD)"
proof -
  show "2 \<le> length (method_string m)" by (cases m) (simp_all add: method_string_def method_strings_def)
qed (simp add: method_string_def method_strings_def)

lemma on_res_or_resp_H_ok:
  "switch_ok dat x \<Longrightarrow> ex_state x = s_res_or_resp_H \<Longrightarrow> step_ok dat (ex_p x) k (on_res_or_resp_H x)"
  using method_lengths(2) by (auto simp: on_res_or_resp_H_def step_simps state_inv_method intro!: step_fail)

lemma on_start_res_ok:
  assumes "polite_settings st" and "switch_ok dat x" and "ex_state x = s_start_res"
  shows "step_ok dat (ex_p x) k (on_start_res st x)"
  using polite_settingsD [OF assms(1)] assms(2,3)
  by (auto simp: on_start_res_def step_simps calm_hp fresh_message_def intro!: step_intros)

lemma version_ok:
  assumes "switch_ok dat x"
  shows "ex_state x = s_res_first_http_major \<Longrightarrow> step_ok dat (ex_p x) k (on_res_first_http_major x)"
    and "ex_state x \<in> {s_res_http_major, s_req_http_major} \<Longrightarrow> s \<in> {s_res_first_http_minor, s_req_first_http_minor} \<Longrightarrow>
           step_ok dat (ex_p x) k (on_http_major s x)"
    and "ex_state x \<in> {s_res_first_http_minor, s_req_first_http_minor} \<Longrightarrow> s \<in> {s_res_http_minor, s_req_http_minor} \<Longrightarrow>
           step_ok dat (ex_p x) k (on_first_http_minor s x)"
    and "ex_state x = s_res_http_minor \<Longrightarrow> step_ok dat (ex_p x) k (on_res_http_minor x)"
    and "ex_state x = s_req_first_http_major \<Longrightarrow> step_ok dat (ex_p x) k (on_req_first_http_major x)"
    and "ex_state x = s_req_http_minor \<Longrightarrow> step_ok dat (ex_p x) k (on_req_http_minor x)"
  using assms
  by (auto simp: on_res_first_http_major_def on_http_major_def on_first_http_minor_def on_res_http_minor_def
      on_req_first_http_major_def on_req_http_minor_def more_major_def more_minor_def step_simps
      intro!: step_fail)

lemma status_ok:
  assumes "switch_ok dat x"
  shows "ex_state x = s_res_first_status_code \<Longrightarrow> step_ok dat (ex_p x) k (on_res_first_status_code x)"
    and "ex_state x = s_res_status_code \<Longrightarrow> step_ok dat (ex_p x) k (on_res_status_code x)"
    and "ex_state x = s_res_status_start \<Longrightarrow> step_ok dat (ex_p x) k (on_res_status_start x)"
    and "polite_settings st \<Longrightarrow> ex_state x = s_res_status \<Longrightarrow> step_ok dat (ex_p x) k (on_res_status st dat x)"
  using assms
  by (auto simp: on_res_first_status_code_def on_res_status_code_def on_res_status_start_def on_res_status_def
      MARK_def step_simps calm_hp intro!: step_fail data_ok split: if_splits)

lemma next_method_length:
  "next_method m i c = Some m' \<Longrightarrow> unat (i + 1) \<le> length (method_string m')"
  by (auto simp: next_method_def method_string_def method_strings_def split: if_splits)

lemma index_Suc: "unat (i :: 8 word) < 255 \<Longrightarrow> unat (i + 1) = Suc (unat i)"
  by (simp add: unat_word_ariths)

lemma method_length_bound: "length (method_string m) \<le> 11"
  by (cases m) (simp_all add: method_string_def method_strings_def)

lemma method_fresh: "hp_index hp = 1 \<Longrightarrow> state_inv n hp s_req_method"
  using method_lengths(1) [of "hp_method hp"] by (simp add: state_inv_method)

lemma on_start_req_ok:
  assumes "polite_settings st" and "switch_ok dat x" and "ex_state x = s_start_req"
  shows "step_ok dat (ex_p x) 0 (on_start_req st x)"
  using polite_settingsD [OF assms(1)] assms(2,3)
  by (auto simp: on_start_req_def step_simps calm_hp fresh_message_def method_fresh
      intro!: step_intros split: option.split)

lemma on_req_method_ok:
  assumes "switch_ok dat x" and "ex_state x = s_req_method"
  shows "step_ok dat (ex_p x) k (on_req_method x)"
proof -
  let ?hp = "ex_hp x"
  let ?i = "unat (hp_index ?hp)" and ?m = "method_string (hp_method ?hp)"
  have inv: "?i \<le> length ?m" "ex_p x < length dat" "hp_http_errno ?hp = HPE_OK" "\<forall>m. ex_marks x m = None"
    using assms by (simp_all add: step_simps state_inv_method)
  show ?thesis
  proof (cases "c_string_at ?m ?i")
    case None
    with inv(1) show ?thesis by (simp add: c_string_at_def split: if_splits)
  next
    case (Some e)
    have more: "unat (hp_index ?hp + 1) \<le> length ?m" if "ex_ch x = e" "ex_ch x \<noteq> NUL"
      using that Some inv(1) method_length_bound [of "hp_method ?hp"]
      by (subst index_Suc) (auto simp: c_string_at_def split: if_splits)
    show ?thesis
      unfolding on_req_method_def Let_def
      using assms(2) inv(2-4) more next_method_length [of "hp_method ?hp" "hp_index ?hp" "ex_ch x"]
      by (auto simp: Some step_simps state_inv_method split: option.split intro!: step_fail)
  qed
qed

definition url_states :: "state set" where
  "url_states = {s. owner s = Some M_url}"

lemma url_states_eq:
  "url_states = {s_req_schema, s_req_schema_slash, s_req_schema_slash_slash, s_req_server_start, s_req_server,
     s_req_server_with_at, s_req_path, s_req_query_string_start, s_req_query_string, s_req_fragment_start,
     s_req_fragment}"
proof (rule set_eqI)
  fix s
  show "s \<in> url_states \<longleftrightarrow> s \<in> {s_req_schema, s_req_schema_slash, s_req_schema_slash_slash, s_req_server_start,
      s_req_server, s_req_server_with_at, s_req_path, s_req_query_string_start, s_req_query_string,
      s_req_fragment_start, s_req_fragment}"
    by (cases s) (simp_all add: url_states_def owner_def)
qed

lemma url_char_cases:
  "s \<in> insert s_req_spaces_before_url url_states \<Longrightarrow> parse_url_char s c = s_dead \<or> parse_url_char s c \<in> url_states"
  unfolding url_states_eq by (elim insertE emptyE) (simp_all add: parse_url_char_def Let_def)

lemma url_state_inv: "s \<in> url_states \<Longrightarrow> state_inv n hp s"
  by (auto simp: url_states_eq state_inv_def)

lemma url_byte_ok:
  assumes "ex_p x < length dat" and "hp_http_errno (ex_hp x) = HPE_OK"
    and "ex_state x \<in> insert s_req_spaces_before_url url_states" and "marks_in (Some M_url) x"
  shows "step_ok dat (ex_p x) k (url_byte x)"
proof (cases "parse_url_char (ex_state x) (ex_ch x) = s_dead")
  case True
  with assms(1) show ?thesis by (auto simp: url_byte_def exec_simps intro: step_fail)
next
  case False
  then have s: "parse_url_char (ex_state x) (ex_ch x) \<in> url_states" using url_char_cases assms(3) by blast
  then have "owner (parse_url_char (ex_state x) (ex_ch x)) = Some M_url" by (simp add: url_states_def)
  with s False assms url_state_inv show ?thesis
    by (auto simp: url_byte_def step_next_iff exec_simps marks_in_def le_Suc_eq)
qed

lemma req_url_ok:
  assumes "switch_ok dat x"
  shows "ex_state x = s_req_spaces_before_url \<Longrightarrow> step_ok dat (ex_p x) k (on_req_spaces_before_url x)"
    and "ex_state x \<in> url_states \<Longrightarrow> step_ok dat (ex_p x) k (on_req_schema x)"
proof -
  assume s: "ex_state x = s_req_spaces_before_url"
  show "step_ok dat (ex_p x) k (on_req_spaces_before_url x)"
  proof (cases "ex_ch x = SP")
    case True
    with s assms show ?thesis by (simp add: on_req_spaces_before_url_def step_simps)
  next
    case False
    let ?x = "if hp_method (ex_hp (MARK M_url x)) = HTTP_CONNECT then UPDATE_STATE s_req_server_start (MARK M_url x)
      else MARK M_url x"
    have "step_ok dat (ex_p ?x) k (url_byte ?x)"
      by (rule url_byte_ok)
        (use s assms in \<open>auto simp: switch_ok_def MARK_def exec_simps url_states_eq marks_in_def owner_def\<close>)
    moreover have "ex_p ?x = ex_p x" by (auto simp: MARK_def exec_simps split: option.split)
    ultimately show ?thesis using False by (simp add: on_req_spaces_before_url_def Let_def)
  qed
next
  assume s: "ex_state x \<in> url_states"
  then show "step_ok dat (ex_p x) k (on_req_schema x)"
    using assms url_byte_ok [of x dat k] by (auto simp: on_req_schema_def switch_ok_def url_states_def intro!: step_fail)
qed

lemma on_req_url_ok:
  assumes "polite_settings st" and "switch_ok dat x" and "ex_state x \<in> url_states"
  shows "step_ok dat (ex_p x) k (on_req_url st dat x)"
proof -
  have "marks_in (Some M_url) x" using assms(2,3) by (simp add: switch_ok_def url_states_def)
  with assms url_byte_ok [of x dat k] show ?thesis
    by (auto simp: on_req_url_def switch_ok_def step_next_iff exec_simps marks_in_def owner_def CALLBACK_DATA_def calm_hp
        intro!: data_ok)
qed

lemma request_line_ok:
  assumes "switch_ok dat x"
  shows "ex_state x = s_req_http_start \<Longrightarrow> step_ok dat (ex_p x) k (on_req_http_start x)"
    and "ex_state x = s_req_line_almost_done \<Longrightarrow> step_ok dat (ex_p x) k (on_req_line_almost_done x)"
  using assms
  by (auto simp: on_req_http_start_def on_req_line_almost_done_def step_simps intro!: step_fail)

end
