(* ===== verification/Http_Run.thy ===== *)
theory Http_Run
  imports Http_Safety
begin

text \<open>
  The rest of the proof that \<open>http_parser_execute\<close> is safe and returns: header fields,
  bodies, chunks, and the loop.
\<close>

section \<open>Header fields\<close>

lemma exec_sels [simp]:
  "ex_p (on_parser f x) = ex_p x" "ex_ch (on_parser f x) = ex_ch x" "ex_state (on_parser f x) = ex_state x"
  "ex_marks (on_parser f x) = ex_marks x" "ex_hp (on_parser f x) = f (ex_hp x)"
  "ex_p (UPDATE_STATE s x) = ex_p x" "ex_state (UPDATE_STATE s x) = s" "ex_hp (UPDATE_STATE s x) = ex_hp x"
  "ex_marks (UPDATE_STATE s x) = ex_marks x"
  by (simp_all add: exec_simps)

lemma count_ok:
  assumes "ex_p x \<le> length dat" and "\<And>n. step_ok dat p k (f (on_parser (hp_nread_update (\<lambda>_. n)) x))"
  shows "step_ok dat p k (COUNT_HEADER_SIZE v x f)"
  using assms(2) [of "hp_nread (ex_hp x) + of_nat v"] assms(1)
  by (auto simp: COUNT_HEADER_SIZE_def Let_def exec_simps intro!: step_fail)

lemma state_inv_field: "state_inv n hp s_header_field \<longleftrightarrow> name_state (hp_header_state hp)"
  by (simp add: state_inv_def)

lemma state_inv_value:
  "state_inv n hp s_header_value \<longleftrightarrow> hp_header_state hp \<noteq> h_connection \<and> hp_header_state hp \<noteq> h_transfer_encoding"
  by (simp add: state_inv_def)

lemma on_header_field_start_ok:
  "switch_ok dat x \<Longrightarrow> ex_state x = s_header_field_start \<Longrightarrow> step_ok dat (ex_p x) 2 (on_header_field_start x)"
  by (auto simp: on_header_field_start_def MARK_def step_simps state_inv_field name_state_def intro!: step_fail)

lemma match_field_name:
  "name_state h \<Longrightarrow> name_state (hp_header_state hp) \<Longrightarrow>
     name_state (hp_header_state (match_field name h c hp)) \<and>
     hp_http_errno (match_field name h c hp) = hp_http_errno hp"
  by (auto simp: match_field_def next_index_def Let_def name_state_def split: letter.split)

lemma header_field_byte_ok:
  assumes "name_state (hp_header_state hp)"
  shows "\<exists>hp'. header_field_byte ch hp = Some hp' \<and> name_state (hp_header_state hp') \<and>
           hp_http_errno hp' = hp_http_errno hp"
proof -
  have "name_state h_connection" "name_state h_content_length" "name_state h_transfer_encoding" "name_state h_upgrade"
    by (simp_all add: name_state_def)
  note m = this [THEN match_field_name, OF assms]
  show ?thesis
    using m assms unfolding header_field_byte_def Let_def
    by (simp add: next_index_def) (simp add: name_state_def, blast?)
qed

lemma header_field_loop_ok:
  "name_state (hp_header_state hp) \<Longrightarrow>
     \<exists>hp' p' ch'. header_field_loop hp p ch bs = Some (hp', p', ch') \<and> p \<le> p' \<and> p' \<le> p + length bs \<and>
       name_state (hp_header_state hp') \<and> hp_http_errno hp' = hp_http_errno hp"
proof (induction bs arbitrary: hp p ch)
  case (Cons b bs)
  obtain hp1 where hp1: "header_field_byte b hp = Some hp1" "name_state (hp_header_state hp1)"
      "hp_http_errno hp1 = hp_http_errno hp"
    using header_field_byte_ok [OF Cons.prems] by blast
  show ?case
    using Cons.IH [OF hp1(2), of "p + 1" b] hp1 Cons.prems by fastforce
qed simp

lemma marks_in_mono:
  "marks_in own x \<Longrightarrow> ex_marks y = ex_marks x \<Longrightarrow> ex_p x \<le> ex_p y \<Longrightarrow> marks_in own y"
  by (fastforce simp: marks_in_def)

text \<open>\<open>--p\<close> at the end of the data, undone by the loop.\<close>

lemma step_back:
  assumes "p < length dat" and "ex_p x = length dat" and "hp_http_errno (ex_hp x) = HPE_OK"
    and "state_inv 0 (ex_hp x) (ex_state x)" and "marks_in (owner (ex_state x)) x"
  shows "step_ok dat p k (Next (x\<lparr>ex_p := ex_p x - 1\<rparr>))"
proof -
  have "Suc (length dat - Suc 0) = length dat" using assms(1) by simp
  with assms show ?thesis by (auto simp: step_ok_def head_ok_def marks_in_def)
qed

lemma on_header_field_name_ok:
  assumes "polite_settings st" and "switch_ok dat x" and "ex_state x = s_header_field"
  shows "step_ok dat (ex_p x) k (on_header_field_name st dat x)"
proof -
  have "name_state (hp_header_state (ex_hp x))" using assms(2,3) by (simp add: switch_ok_def state_inv_field)
  then obtain hp p ch where loop: "header_field_loop (ex_hp x) (ex_p x) (ex_ch x) (drop (ex_p x) dat) = Some (hp, p, ch)"
    and hp: "ex_p x \<le> p" "p \<le> ex_p x + length (drop (ex_p x) dat)" "name_state (hp_header_state hp)"
      "hp_http_errno hp = hp_http_errno (ex_hp x)"
    using header_field_loop_ok by blast
  have p: "p \<le> length dat" using hp(2) assms(2) by (simp add: switch_ok_def)
  let ?x = "\<lambda>n. on_parser (hp_nread_update (\<lambda>_. n)) (x\<lparr>ex_hp := hp, ex_p := p, ex_ch := ch\<rparr>)"
  have last: "step_ok dat (ex_p x) k (Next (?x n\<lparr>ex_p := ex_p (?x n) - 1\<rparr>))" if "p = length dat" for n
  proof (rule step_back)
    have "marks_in (owner (ex_state x)) x" using assms(2) by (simp add: switch_ok_def)
    then show "marks_in (owner (ex_state (?x n))) (?x n)" using hp(1) by (auto intro: marks_in_mono)
  qed (use that hp assms in \<open>auto simp: switch_ok_def state_inv_field exec_sels\<close>)
  have colon: "step_ok dat (ex_p x) k
      (CALLBACK_DATA st dat M_header_field (UPDATE_STATE s_header_value_discard_ws (?x n)) Next)"
    if "p < length dat" for n
    using that hp assms by (auto simp: step_simps calm_hp intro!: data_ok)
  show ?thesis
    unfolding on_header_field_name_def Let_def using loop hp p last colon
    by (auto simp: exec_sels intro!: count_ok step_fail)
qed

lemma on_header_value_start_ok:
  assumes "switch_ok dat x" and "owner (ex_state x) = None"
  shows "step_ok dat (ex_p x) k (on_header_value_start x)"
  using assms
  by (auto simp: on_header_value_start_def MARK_def step_simps state_inv_value set_flag_def lower_byte_def
      intro!: step_fail)

lemma on_header_value_discard_ws_ok:
  assumes "switch_ok dat x" and "ex_state x = s_header_value_discard_ws"
  shows "step_ok dat (ex_p x) k (on_header_value_discard_ws x)"
proof -
  have "owner (ex_state x) = None" using assms(2) by (simp add: owner_def)
  from on_header_value_start_ok [OF assms(1) this, of k] assms show ?thesis
    by (auto simp: on_header_value_discard_ws_def step_simps)
qed

text \<open>The values of \<open>h_state\<close> inside a value.\<close>

abbreviation value_state :: "header_states \<Rightarrow> bool" where
  "value_state s \<equiv> s \<noteq> h_connection \<and> s \<noteq> h_transfer_encoding"

lemma match_value_ok:
  "match_value name a b c ch hp = (hp', s) \<Longrightarrow> value_state a \<Longrightarrow> value_state b \<Longrightarrow> value_state c \<Longrightarrow>
     value_state s \<and> hp_http_errno hp' = hp_http_errno hp"
  by (auto simp: match_value_def next_index_def Let_def split: letter.splits)

lemma header_value_byte_ok:
  assumes "value_state s"
  shows "header_value_byte ch s hp \<noteq> Inl None"
    and "header_value_byte ch s hp = Inl (Some e) \<Longrightarrow> e = HPE_INVALID_CONTENT_LENGTH"
    and "header_value_byte ch s hp = Inr (hp', s') \<Longrightarrow> value_state s' \<and> hp_http_errno hp' = hp_http_errno hp"
proof -
  show "header_value_byte ch s hp \<noteq> Inl None"
    using assms by (simp add: header_value_byte_def Let_def split: option.split)
  show "header_value_byte ch s hp = Inl (Some e) \<Longrightarrow> e = HPE_INVALID_CONTENT_LENGTH"
    by (simp add: header_value_byte_def Let_def split: if_splits option.splits)
  show "header_value_byte ch s hp = Inr (hp', s') \<Longrightarrow> value_state s' \<and> hp_http_errno hp' = hp_http_errno hp"
    using assms
    by (auto simp: header_value_byte_def Let_def content_length_digit_def connection_token_start_def set_flag_def
        split: if_splits option.splits dest!: match_value_ok)
qed

lemma line_end_bound: "line_end n bs = Some i \<Longrightarrow> i < length bs"
  by (induction n bs arbitrary: i rule: line_end.induct) (auto split: if_splits)

lemma general_skip_bounds: "general_skip bs \<le> length bs"
  using line_end_bound [of HTTP_MAX_HEADER_SIZE bs] by (force simp: general_skip_def split: option.split)

lemma general_skip_pos: "b \<noteq> CR \<Longrightarrow> b \<noteq> LF \<Longrightarrow> 0 < general_skip (b # bs)"
  by (auto simp: general_skip_def HTTP_MAX_HEADER_SIZE_def split: option.split)

lemma header_value_end_ok:
  assumes "p < length dat" and "p \<le> ex_p x" and "ex_p x \<le> length dat" and "hp_http_errno (ex_hp x) = HPE_OK"
    and "ex_state x = s_header_value \<or> ex_state x = s_header_almost_done" and "value_state s"
    and "marks_in (owner (ex_state x)) x"
  shows "step_ok dat p k (header_value_end dat start s x)"
proof -
  let ?x = "\<lambda>n. on_parser (hp_nread_update (\<lambda>_. n)) (on_parser (hp_header_state_update (\<lambda>_. s)) x)"
  have last: "step_ok dat p k (Next (?x n\<lparr>ex_p := ex_p (?x n) - 1\<rparr>))" if "ex_p x = length dat" for n
    by (rule step_back) (use that assms in \<open>auto simp: exec_simps state_inv_value marks_in_def\<close>)
  have "step_ok dat p k (Next (?x n))" if "ex_p x \<noteq> length dat" for n
    using that assms by (auto simp: step_next_iff exec_simps state_inv_value marks_in_def le_Suc_eq)
  with last assms(3) show ?thesis
    unfolding header_value_end_def by (auto simp: exec_simps intro!: count_ok)
qed

lemma header_value_loop_cases:
  shows "b = CR \<Longrightarrow> header_value_loop st dat start s x (b # cs) =
      CALLBACK_DATA st dat M_header_value
        (on_parser (hp_header_state_update (\<lambda>_. s)) (UPDATE_STATE s_header_almost_done (x\<lparr>ex_ch := b\<rparr>)))
        (header_value_end dat start s)"
    and "b = LF \<Longrightarrow> header_value_loop st dat start s x (b # cs) =
      COUNT_HEADER_SIZE (ex_p x - start) (UPDATE_STATE s_header_almost_done (x\<lparr>ex_ch := b\<rparr>)) (\<lambda>x.
        CALLBACK_DATA_NOADVANCE st dat M_header_value (on_parser (hp_header_state_update (\<lambda>_. s)) x) Reexec)"
    and "b \<noteq> CR \<Longrightarrow> b \<noteq> LF \<Longrightarrow> s = h_general \<Longrightarrow> header_value_loop st dat start s x (b # cs) =
      header_value_loop st dat start s (x\<lparr>ex_ch := b, ex_p := ex_p x + general_skip (b # cs)\<rparr>)
        (drop (general_skip (b # cs) - 1) cs)"
    and "b \<noteq> CR \<Longrightarrow> b \<noteq> LF \<Longrightarrow> s \<noteq> h_general \<Longrightarrow> header_value_loop st dat start s x (b # cs) =
      (case header_value_byte b s (ex_hp x) of
         Inl None \<Rightarrow> Fault
       | Inl (Some e) \<Rightarrow> fail_with e (on_parser (hp_header_state_update (\<lambda>_. s)) (x\<lparr>ex_ch := b\<rparr>))
       | Inr (hp, s') \<Rightarrow> header_value_loop st dat start s' (x\<lparr>ex_ch := b, ex_hp := hp, ex_p := ex_p x + 1\<rparr>) cs)"
  by (simp_all add: header_value_loop.simps(2) Let_def split: sum.split option.split)

lemma header_value_loop_ok:
  assumes "polite_settings st" and "p < length dat"
  shows "p \<le> ex_p x \<Longrightarrow> ex_p x + length bs = length dat \<Longrightarrow> hp_http_errno (ex_hp x) = HPE_OK \<Longrightarrow>
    ex_state x = s_header_value \<Longrightarrow> value_state s \<Longrightarrow> marks_in (Some M_header_value) x \<Longrightarrow>
      step_ok dat p 1 (header_value_loop st dat start s x bs)"
proof (induction "length bs" arbitrary: bs x s rule: less_induct)
  case less
  have own: "owner s_header_value = Some M_header_value" "owner s_header_almost_done = None"
    by (simp_all add: owner_def)
  show ?case
  proof (cases bs)
    case Nil
    with less.prems assms(2) own show ?thesis
      by (auto simp: header_value_loop.simps(1) intro!: header_value_end_ok)
  next
    case (Cons b cs)
    then have p: "ex_p x < length dat" using less.prems(2) by simp
    consider "b = CR" | "b = LF" | "b \<noteq> CR" "b \<noteq> LF" "s = h_general" | "b \<noteq> CR" "b \<noteq> LF" "s \<noteq> h_general"
      by blast
    then show ?thesis
    proof cases
      case 1
      show ?thesis
        unfolding Cons header_value_loop_cases(1) [OF 1] CALLBACK_DATA_def
      proof (rule data_ok)
        fix x'
        assume calm: "calm (on_parser (hp_header_state_update (\<lambda>_. s)) (UPDATE_STATE s_header_almost_done (x\<lparr>ex_ch := b\<rparr>))) x'"
          and m: "ex_marks x' = (ex_marks (on_parser (hp_header_state_update (\<lambda>_. s))
            (UPDATE_STATE s_header_almost_done (x\<lparr>ex_ch := b\<rparr>))))(M_header_value := None)"
        show "step_ok dat p 1 (header_value_end dat start s x')"
          by (rule header_value_end_ok)
            (use calm_hp [OF calm] m less.prems assms(2) p own in \<open>auto simp: marks_in_def\<close>)
      qed (use less.prems assms p in \<open>auto simp: exec_simps\<close>)
    next
      case 2
      let ?x = "\<lambda>n. on_parser (hp_header_state_update (\<lambda>_. s)) (on_parser (hp_nread_update (\<lambda>_. n))
        (UPDATE_STATE s_header_almost_done (x\<lparr>ex_ch := b\<rparr>)))"
      have "step_ok dat p 1 (CALLBACK_DATA_at st dat M_header_value (ex_p (?x n)) (ex_p (?x n)) (?x n) Reexec)" for n
      proof (rule data_ok)
        fix x' assume calm: "calm (?x n) x'" and m: "ex_marks x' = (ex_marks (?x n))(M_header_value := None)"
        show "step_ok dat p 1 (Reexec x')"
          using calm_hp [OF calm] m less.prems p own by (auto simp: step_reexec_iff marks_in_def rank_def)
      qed (use less.prems assms p in \<open>auto simp: exec_simps\<close>)
      then show ?thesis
        unfolding Cons header_value_loop_cases(2) [OF 2] CALLBACK_DATA_NOADVANCE_def
        using p by (intro count_ok) simp_all
    next
      case 3
      let ?n = "general_skip (b # cs)"
      have n: "0 < ?n" "?n \<le> length (b # cs)"
        using general_skip_pos [OF 3(1,2)] general_skip_bounds by blast+
      have "step_ok dat p 1 (header_value_loop st dat start s (x\<lparr>ex_ch := b, ex_p := ex_p x + ?n\<rparr>) (drop (?n - 1) cs))"
        by (rule less.hyps) (use n Cons less.prems in \<open>auto simp: marks_in_def intro: trans_le_add1\<close>)
      then show ?thesis unfolding Cons header_value_loop_cases(3) [OF 3] .
    next
      case 4
      show ?thesis
      proof (cases "header_value_byte b s (ex_hp x)")
        case (Inl e)
        then have "e = Some HPE_INVALID_CONTENT_LENGTH"
          using header_value_byte_ok(1,2) [OF less.prems(5), of b "ex_hp x"] by (cases e) simp_all
        with Inl p show ?thesis unfolding Cons header_value_loop_cases(4) [OF 4] by (simp add: step_fail)
      next
        case (Inr r)
        obtain hp' s' where r: "r = (hp', s')" by (cases r)
        then have s': "value_state s'" "hp_http_errno hp' = hp_http_errno (ex_hp x)"
          using header_value_byte_ok(3) [OF less.prems(5)] Inr by auto
        have "step_ok dat p 1 (header_value_loop st dat start s' (x\<lparr>ex_ch := b, ex_hp := hp', ex_p := ex_p x + 1\<rparr>) cs)"
          by (rule less.hyps) (use Cons less.prems s' in \<open>auto simp: marks_in_def le_Suc_eq\<close>)
        then show ?thesis unfolding Cons header_value_loop_cases(4) [OF 4] Inr r by simp
      qed
    qed
  qed
qed

lemma on_header_value_text_ok:
  assumes "polite_settings st" and "switch_ok dat x" and "ex_state x = s_header_value"
  shows "step_ok dat (ex_p x) 1 (on_header_value_text st dat x)"
  unfolding on_header_value_text_def
  by (rule header_value_loop_ok) (use assms in \<open>auto simp: switch_ok_def owner_def state_inv_value\<close>)

lemma header_flags_errno [simp]: "hp_http_errno (header_flags hp) = hp_http_errno hp"
  by (simp add: header_flags_def Let_def set_flag_def)

lemma header_ends_ok:
  assumes "switch_ok dat x"
  shows "ex_state x = s_header_value_lws \<Longrightarrow> step_ok dat (ex_p x) 3 (on_header_value_lws x)"
    and "polite_settings st \<Longrightarrow> ex_state x = s_header_value_discard_lws \<Longrightarrow>
           step_ok dat (ex_p x) 3 (on_header_value_discard_lws st dat x)"
  using assms
  by (auto simp: on_header_value_lws_def on_header_value_discard_lws_def MARK_def step_simps calm_hp
      intro!: data_ok split: option.split)

section \<open>Bodies and chunks\<close>

lemma state_inv_body:
  "state_inv n hp s_chunk_size_start \<longleftrightarrow> chunked hp \<and> hp_nread hp = n"
  "state_inv n hp s_chunk_size \<longleftrightarrow> chunked hp \<and> hp_content_length hp \<noteq> ULLONG_MAX"
  "state_inv n hp s_chunk_parameters \<longleftrightarrow> chunked hp \<and> hp_content_length hp \<noteq> ULLONG_MAX"
  "state_inv n hp s_chunk_size_almost_done \<longleftrightarrow> chunked hp \<and> hp_content_length hp \<noteq> ULLONG_MAX"
  "state_inv n hp s_chunk_data \<longleftrightarrow> chunked hp \<and> hp_content_length hp \<noteq> 0 \<and> hp_content_length hp \<noteq> ULLONG_MAX"
  "state_inv n hp s_chunk_data_almost_done \<longleftrightarrow> chunked hp \<and> hp_content_length hp = 0"
  "state_inv n hp s_chunk_data_done \<longleftrightarrow> chunked hp"
  "state_inv n hp s_body_identity \<longleftrightarrow> hp_content_length hp \<noteq> 0 \<and> hp_content_length hp \<noteq> ULLONG_MAX"
  by (simp_all add: state_inv_def)

lemma headers_complete_ok:
  assumes "polite_settings st" and "ex_p x < length dat" and "hp_http_errno (ex_hp x) = HPE_OK"
    and "ex_state x = s_headers_done" and "marks_in None x"
  shows "step_ok dat (ex_p x) 1 (headers_complete st x)"
proof -
  have own: "owner s_headers_done = None" "rank s_headers_done = 0" by (simp_all add: owner_def rank_def)
  have ok: "step_ok dat (ex_p x) 1
      (if hp_http_errno hp \<noteq> HPE_OK then RETURN (ex_p x) (x\<lparr>ex_hp := hp\<rparr>) else Reexec (x\<lparr>ex_hp := hp\<rparr>))" for hp
    using assms own
    by (auto simp: RETURN_def step_return_iff returned_ok_def parser_ok_def step_reexec_iff marks_in_def)
  have err: "step_ok dat (ex_p x) 1 (RETURN (ex_p x) (x\<lparr>ex_hp := hp\<lparr>hp_http_errno := HPE_CB_headers_complete\<rparr>\<rparr>))" for hp
    using assms(2) by (simp add: RETURN_def step_return_iff returned_ok_def)
  show ?thesis
  proof (cases "on_headers_complete st")
    case None
    have "x\<lparr>ex_hp := ex_hp x\<rparr> = x" by simp
    with ok [of "ex_hp x"] have "step_ok dat (ex_p x) 1
      (if hp_http_errno (ex_hp x) \<noteq> HPE_OK then RETURN (ex_p x) x else Reexec x)" by (simp only:)
    with None show ?thesis by (simp add: headers_complete_def Let_def)
  next
    case (Some f)
    obtain r hp where r: "f (ex_hp x) = (r, hp)" by (cases "f (ex_hp x)")
    show ?thesis
      using Some r ok [of hp] ok [of "set_flag F_SKIPBODY hp"] err [of hp]
      by (auto simp: headers_complete_def Let_def on_parser_def split: if_splits)
  qed
qed

lemma on_headers_almost_done_ok:
  assumes "polite_settings st" and "switch_ok dat x" and "ex_state x = s_headers_almost_done"
  shows "step_ok dat (ex_p x) 1 (on_headers_almost_done st x)"
proof -
  let ?x = "on_parser (\<lambda>hp. hp\<lparr>hp_upgrade := wants_upgrade hp\<rparr>) (UPDATE_STATE s_headers_done x)"
  have "step_ok dat (ex_p ?x) 1 (headers_complete st ?x)"
    by (rule headers_complete_ok) (use assms in \<open>auto simp: switch_ok_def exec_simps owner_def marks_in_def\<close>)
  then show ?thesis
    using polite_settingsD [OF assms(1)] assms(2,3)
    by (auto simp: on_headers_almost_done_def step_simps calm_hp intro!: step_strict notify_ok)
qed

lemma new_message_ok: "state_inv n hp (NEW_MESSAGE hp')" "owner (NEW_MESSAGE hp) = None"
  by (simp_all add: NEW_MESSAGE_def start_state_def owner_def)

lemma message_complete_ok:
  assumes "polite_settings st" and "ex_p x < length dat" and "hp_http_errno (ex_hp x) = HPE_OK"
    and "marks_in None x"
    and "\<And>x'. ex_p x' = ex_p x \<Longrightarrow> hp_http_errno (ex_hp x') = HPE_OK \<Longrightarrow> state_inv 0 (ex_hp x') (ex_state x') \<Longrightarrow>
      marks_in (owner (ex_state x')) (x'\<lparr>ex_p := ex_p x' + 1\<rparr>) \<Longrightarrow> step_ok dat p k (c x')"
  shows "step_ok dat p k (message_complete st x c)"
  unfolding message_complete_def CALLBACK_NOTIFY_def
proof (rule notify_ok)
  let ?x = "UPDATE_STATE (NEW_MESSAGE (ex_hp x)) x"
  fix x' assume calm: "calm ?x x'" and m: "ex_marks x' = ex_marks ?x"
  show "step_ok dat p k (c x')"
    by (rule assms(5)) (use calm_hp [OF calm] m assms(4) in \<open>auto simp: new_message_ok exec_simps marks_in_def\<close>)
qed (use polite_settingsD [OF assms(1)] assms(2,3) in \<open>simp_all add: new_message_ok\<close>)

lemma message_next_ok:
  assumes "polite_settings st" and "ex_p x < length dat" and "hp_http_errno (ex_hp x) = HPE_OK" and "marks_in None x"
  shows "step_ok dat (ex_p x) k (message_complete st x Next)"
    and "step_ok dat (ex_p x) k (message_complete st x (\<lambda>x. RETURN (ex_p x + 1) x))"
    and "step_ok dat (ex_p x) k (message_complete st x (\<lambda>x. if hp_upgrade (ex_hp x) then RETURN (ex_p x + 1) x else Next x))"
  by (rule message_complete_ok [OF assms], use assms(2) in
      \<open>auto simp: step_next_iff RETURN_def step_return_iff returned_ok_def parser_ok_def
        state_inv_cong [of "hp_state_update f hp" hp for f hp]\<close>)+

lemma on_headers_done_ok:
  assumes "polite_settings st" and "switch_ok dat x" and "ex_state x = s_headers_done"
  shows "step_ok dat (ex_p x) k (on_headers_done st x)"
proof -
  let ?x = "on_parser (hp_nread_update (\<lambda>_. 0)) x"
  have x: "ex_p ?x < length dat" "hp_http_errno (ex_hp ?x) = HPE_OK" "marks_in None ?x"
    using assms(2,3) by (auto simp: switch_ok_def owner_def marks_in_def)
  note m = message_next_ok [OF assms(1) x, unfolded exec_sels]
  have next_ok: "step_ok dat (ex_p x) k (Next (UPDATE_STATE s ?x))" if "state_inv 0 (ex_hp ?x) s" for s
    using x that by (auto simp: step_next_iff marks_in_def)
  show ?thesis
    unfolding on_headers_done_def Let_def
    using x m by (auto simp: state_inv_body intro!: step_strict next_ok)
qed

lemma on_message_done_ok:
  assumes "polite_settings st" and "switch_ok dat x" and "ex_state x = s_message_done"
  shows "step_ok dat (ex_p x) k (on_message_done st x)"
  unfolding on_message_done_def
  by (rule message_next_ok) (use assms in \<open>auto simp: switch_ok_def owner_def\<close>)

lemma marks_in_MARK: "marks_in (Some m) x \<Longrightarrow> marks_in (Some m) (MARK m x)"
  by (auto simp: MARK_def marks_in_def split: option.split)

lemma MARK_sels [simp]: "ex_p (MARK m x) = ex_p x" "ex_hp (MARK m x) = ex_hp x" "ex_state (MARK m x) = ex_state x"
  by (auto simp: MARK_def split: option.split)

text \<open>What \<open>read_body\<close> leaves: a length that is still no \<open>ULLONG_MAX\<close>, a mark behind \<open>p\<close>.\<close>

lemma read_body_props:
  assumes "ex_p x < length dat" and "hp_content_length (ex_hp x) \<noteq> 0" and "hp_content_length (ex_hp x) \<noteq> ULLONG_MAX"
    and "marks_in (Some M_body) x"
  defines "y \<equiv> read_body dat x"
  shows "ex_p x \<le> ex_p y" and "ex_p y < length dat" and "hp_content_length (ex_hp y) \<noteq> ULLONG_MAX"
    and "marks_in (Some M_body) y" and "hp_flags (ex_hp y) = hp_flags (ex_hp x)"
    and "hp_http_errno (ex_hp y) = hp_http_errno (ex_hp x)" and "ex_state y = ex_state x"
proof -
  define n where "n = body_to_read dat x"
  have pos: "0 < unat (hp_content_length (ex_hp x))" using assms(2) by (simp add: unat_gt_0)
  then have n: "0 < n" "n \<le> length dat - ex_p x" "n \<le> unat (hp_content_length (ex_hp x))"
    using assms(1) by (auto simp: n_def body_to_read_def)
  let ?c = "hp_content_length (ex_hp x)"
  have "unat (?c - of_nat n) = unat ?c - n"
  proof -
    have "unat ?c < 2 ^ LENGTH(64)" by (rule unsigned_less)
    then have "n < 2 ^ 64" using n(3) by simp
    then have "unat (of_nat n :: u64) = n" by (simp add: unat_of_nat take_bit_nat_eq_self)
    with n(3) show ?thesis by (simp add: unat_sub word_le_nat_alt)
  qed
  then have less: "unat (?c - of_nat n) < unat ?c" using n(1) pos by simp
  have "unat ?c \<le> unat ULLONG_MAX" by (simp add: ULLONG_MAX_def word_le_nat_alt [symmetric])
  with less show "hp_content_length (ex_hp y) \<noteq> ULLONG_MAX"
    by (auto simp: y_def read_body_def Let_def n_def [symmetric] MARK_def split: option.split)
  show p: "ex_p x \<le> ex_p y" "ex_p y < length dat"
    using n assms(1) by (auto simp: y_def read_body_def Let_def n_def [symmetric] MARK_def split: option.split)
  from assms(4) have "marks_in (Some M_body) (MARK M_body x)" by (rule marks_in_MARK)
  then show "marks_in (Some M_body) y"
    by (rule marks_in_mono) (use p in \<open>auto simp: y_def read_body_def Let_def MARK_def split: option.splits\<close>)
  show "hp_flags (ex_hp y) = hp_flags (ex_hp x)" "hp_http_errno (ex_hp y) = hp_http_errno (ex_hp x)"
    "ex_state y = ex_state x"
    by (auto simp: y_def read_body_def Let_def MARK_def split: option.split)
qed

lemma calm_counts:
  assumes "calm x x'"
  shows "hp_content_length (ex_hp x') = hp_content_length (ex_hp x)" and "hp_nread (ex_hp x') = hp_nread (ex_hp x)"
proof -
  have hp: "ex_hp x' = (ex_hp x)\<lparr>hp_state := hp_state (ex_hp x'), hp_data := hp_data (ex_hp x'), hp_http_errno := HPE_OK\<rparr>"
    using assms by (simp add: calm_def)
  show "hp_content_length (ex_hp x') = hp_content_length (ex_hp x)" "hp_nread (ex_hp x') = hp_nread (ex_hp x)"
    by (subst hp, simp)+
qed

lemma read_body_next_ok:
  assumes "switch_ok dat x" and "ex_state x \<in> {s_body_identity, s_chunk_data}"
  shows "step_ok dat (ex_p x) k (Next (if hp_content_length (ex_hp (read_body dat x)) = 0 \<and> ex_state x = s_chunk_data
           then UPDATE_STATE s_chunk_data_almost_done (read_body dat x) else read_body dat x)) \<or>
         hp_content_length (ex_hp (read_body dat x)) = 0 \<and> ex_state x = s_body_identity"
proof -
  have "marks_in (Some M_body) x" "ex_p x < length dat" "hp_content_length (ex_hp x) \<noteq> 0"
    "hp_content_length (ex_hp x) \<noteq> ULLONG_MAX" "hp_http_errno (ex_hp x) = HPE_OK"
    using assms by (auto simp: switch_ok_def owner_def state_inv_body)
  note p = read_body_props [OF this(2,3,4,1)]
  then show ?thesis
    using assms p by (auto simp: step_next_iff switch_ok_def owner_def state_inv_body marks_in_def exec_simps le_Suc_eq)
qed

lemma on_body_identity_ok:
  assumes "polite_settings st" and "switch_ok dat x" and "ex_state x = s_body_identity"
  shows "step_ok dat (ex_p x) 1 (on_body_identity st dat x)"
proof -
  have x: "marks_in (Some M_body) x" "ex_p x < length dat" "hp_content_length (ex_hp x) \<noteq> 0"
    "hp_content_length (ex_hp x) \<noteq> ULLONG_MAX" "hp_http_errno (ex_hp x) = HPE_OK"
    using assms by (auto simp: switch_ok_def owner_def state_inv_body)
  define y where "y = UPDATE_STATE s_message_done (read_body dat x)"
  have y: "ex_p x \<le> ex_p y" "ex_p y < length dat" "hp_http_errno (ex_hp y) = HPE_OK" "ex_state y = s_message_done"
      "marks_in (Some M_body) y"
    using read_body_props [OF x(2,3,4,1)] x(5) by (auto simp: y_def marks_in_def)
  have "step_ok dat (ex_p x) 1 (CALLBACK_DATA_at st dat M_body (ex_p y + 1) (ex_p y) y Reexec)"
  proof (rule data_ok)
    fix x' assume calm: "calm y x'" and m: "ex_marks x' = (ex_marks y)(M_body := None)"
    show "step_ok dat (ex_p x) 1 (Reexec x')"
      using y calm_hp [OF calm] m by (auto simp: step_reexec_iff rank_def owner_def marks_in_def)
  qed (use y assms(1) in auto)
  then show ?thesis
    using read_body_next_ok [OF assms(2)] assms(3) x
    by (auto simp: on_body_identity_def Let_def y_def [symmetric])
       (auto simp: y_def)
qed

lemma on_body_identity_eof_ok:
  assumes "switch_ok dat x" and "ex_state x = s_body_identity_eof"
  shows "step_ok dat (ex_p x) k (on_body_identity_eof dat x)"
proof -
  have own: "owner s_body_identity_eof = Some M_body" by (simp add: owner_def)
  have x: "ex_p x < length dat" "hp_http_errno (ex_hp x) = HPE_OK" "marks_in (Some M_body) x"
    using assms own by (auto simp: switch_ok_def)
  have "marks_in (Some M_body) ((MARK M_body x)\<lparr>ex_p := length dat\<rparr>)"
    by (rule marks_in_mono [OF marks_in_MARK [OF x(3)]]) (use x(1) in auto)
  moreover have "Suc (length dat - Suc 0) = length dat" using x(1) by (cases dat) simp_all
  ultimately show ?thesis
    using x assms(2) own by (auto simp: on_body_identity_eof_def step_next_iff)
qed

lemma unhex_range: "unhex_val c \<noteq> - 1 \<Longrightarrow> 0 \<le> unhex_val c \<and> unhex_val c < 16"
  by (auto simp: unhex_val_eq unhex_of_def split: if_splits)

lemma chunk_length_bound:
  assumes "n \<le> (ULLONG_MAX - 16) div 16" and "0 \<le> d" and "d < 16"
  shows "n * 16 + of_int d \<noteq> (ULLONG_MAX :: u64)"
proof
  assume eq: "n * 16 + of_int d = ULLONG_MAX"
  have "unat n \<le> unat ((ULLONG_MAX - 16) div 16)" using assms(1) by (simp add: word_le_nat_alt)
  then have n: "unat n \<le> 2 ^ 60 - 2" by (simp add: ULLONG_MAX_def unat_div)
  define k where "k = nat d"
  have k: "d = int k" "k < 16" using assms(2,3) by (simp_all add: k_def)
  have "unat (n * 16 + of_int d) = unat n * 16 + k"
    using n k(2) by (simp add: k(1) unat_word_ariths unat_of_nat take_bit_nat_eq_self)
  moreover have "unat (ULLONG_MAX :: u64) = 2 ^ 64 - 1"
    by (simp add: ULLONG_MAX_def unsigned_minus_1_eq_mask mask_eq_exp_minus_1)
  ultimately show False using eq n k(2) by simp
qed

lemma assert_chunked_ok:
  "chunked (ex_hp x) \<Longrightarrow> step_ok dat p k r \<Longrightarrow> step_ok dat p k (assert_chunked x r)"
  by (simp add: assert_chunked_def)

lemma on_chunk_size_start_ok:
  assumes "switch_ok dat x" and "ex_state x = s_chunk_size_start"
  shows "step_ok dat (ex_p x) k (on_chunk_size_start x)"
proof -
  have x: "chunked (ex_hp x)" "hp_nread (ex_hp x) = 1" using assms by (simp_all add: switch_ok_def state_inv_body)
  have "(of_int (unhex_val (ex_ch x)) :: u64) \<noteq> ULLONG_MAX" if "unhex_val (ex_ch x) \<noteq> - 1"
    using chunk_length_bound [of 0 "unhex_val (ex_ch x)"] unhex_range [OF that] by simp
  with assms x show ?thesis
    by (auto simp: on_chunk_size_start_def step_simps state_inv_body intro!: assert_chunked_ok step_fail)
qed

lemma on_chunk_size_ok:
  assumes "switch_ok dat x" and "ex_state x = s_chunk_size"
  shows "step_ok dat (ex_p x) k (on_chunk_size x)"
proof -
  have x: "chunked (ex_hp x)" using assms by (simp add: switch_ok_def state_inv_body)
  have "hp_content_length (ex_hp x) * 16 + of_int (unhex_val (ex_ch x)) \<noteq> ULLONG_MAX"
    if "unhex_val (ex_ch x) \<noteq> - 1" "\<not> (ULLONG_MAX - 16) div 16 < hp_content_length (ex_hp x)"
    using that(2) unhex_range [OF that(1)] by (intro chunk_length_bound) simp_all
  with assms x show ?thesis
    by (auto simp: on_chunk_size_def step_simps state_inv_body intro!: assert_chunked_ok step_fail)
qed

lemma chunk_line_ok:
  assumes "switch_ok dat x"
  shows "ex_state x = s_chunk_parameters \<Longrightarrow> step_ok dat (ex_p x) k (on_chunk_parameters x)"
    and "polite_settings st \<Longrightarrow> ex_state x = s_chunk_size_almost_done \<Longrightarrow>
           step_ok dat (ex_p x) k (on_chunk_size_almost_done st x)"
    and "polite_settings st \<Longrightarrow> ex_state x = s_chunk_data_done \<Longrightarrow>
           step_ok dat (ex_p x) k (on_chunk_data_done st x)"
  using assms
  by (auto simp: on_chunk_parameters_def on_chunk_size_almost_done_def on_chunk_data_done_def step_simps
      state_inv_body calm_hp calm_counts set_flag_def polite_settingsD intro!: assert_chunked_ok step_strict notify_ok)

lemma on_chunk_data_ok:
  assumes "switch_ok dat x" and "ex_state x = s_chunk_data"
  shows "step_ok dat (ex_p x) k (on_chunk_data dat x)"
  using read_body_next_ok [OF assms(1)] assms
  by (auto simp: on_chunk_data_def Let_def switch_ok_def state_inv_body intro!: assert_chunked_ok)

lemma on_chunk_data_almost_done_ok:
  assumes "polite_settings st" and "switch_ok dat x" and "ex_state x = s_chunk_data_almost_done"
  shows "step_ok dat (ex_p x) k (on_chunk_data_almost_done st dat x)"
  using assms
  by (auto simp: on_chunk_data_almost_done_def step_simps state_inv_body calm_hp
      intro!: assert_chunked_ok step_strict data_ok)

section \<open>The whole switch\<close>

lemma exec_switch_ok:
  assumes "polite_settings st" and "switch_ok dat x"
  shows "step_ok dat (ex_p x) (rank (ex_state x)) (exec_switch st dat x)"
proof -
  note plain = on_dead_ok on_start_req_or_res_ok [OF assms(1)] on_res_or_resp_H_ok on_start_res_ok [OF assms(1)]
    version_ok status_ok on_start_req_ok [OF assms(1)] on_req_method_ok req_url_ok on_req_url_ok [OF assms(1)]
    request_line_ok on_header_field_start_ok on_header_field_name_ok [OF assms(1)]
    on_header_value_start_ok on_header_value_discard_ws_ok on_header_value_text_ok [OF assms(1)] header_ends_ok
    on_headers_almost_done_ok [OF assms(1)] on_headers_done_ok [OF assms(1)] on_message_done_ok [OF assms(1)]
    on_body_identity_ok [OF assms(1)] on_body_identity_eof_ok on_chunk_size_start_ok on_chunk_size_ok chunk_line_ok
    on_chunk_data_ok on_chunk_data_almost_done_ok [OF assms(1)] on_constant_ok
  show ?thesis
    using assms
    by (cases "ex_state x")
       (simp_all add: exec_switch_def rank_def owner_def url_states_eq plain [unfolded One_nat_def])
qed

lemma state_inv_count:
  assumes "state_inv 0 hp s"
  shows "s \<noteq> s_chunk_size_start \<Longrightarrow> state_inv 1 (hp_nread_update (\<lambda>_. n) hp) s"
    and "s \<noteq> s_chunk_size_start \<Longrightarrow> state_inv 1 hp s"
    and "state_inv 1 (hp_nread_update (\<lambda>_. hp_nread hp + 1) hp) s"
  using assms by (simp_all add: state_inv_def split: state.splits)

lemma exec_byte_ok:
  assumes "head_ok dat x" and "ex_p x < length dat"
  shows "step_ok dat (ex_p x) 4 (exec_byte dat x)"
proof -
  let ?x = "x\<lparr>ex_ch := dat ! ex_p x\<rparr>"
  have x: "hp_http_errno (ex_hp x) = HPE_OK" "state_inv 0 (ex_hp x) (ex_state x)" "marks_in (owner (ex_state x)) x"
    and rank: "rank (ex_state x) < 4"
    using assms(1) by (simp_all add: head_ok_def rank_def split: state.split)
  note count = state_inv_count [OF x(2)]
  show ?thesis
  proof (cases "PARSING_HEADER (ex_state x)")
    case True
    with x rank assms(2) count(3) show ?thesis
      by (auto simp: exec_byte_def Let_def COUNT_HEADER_SIZE_def on_parser_def step_reexec_iff marks_in_def
          intro!: step_fail)
  next
    case False
    then have "ex_state x \<noteq> s_chunk_size_start" by (auto simp: PARSING_HEADER_def less_eq_state_def)
    with False x rank assms(2) count(2) show ?thesis
      by (auto simp: exec_byte_def Let_def step_reexec_iff marks_in_def)
  qed
qed

lemma marks_set_le: "marks_in own x \<Longrightarrow> marks_set x \<le> 1"
proof (cases own)
  case (Some m)
  assume "marks_in own x"
  with Some have none: "ex_marks x m' = None" if "m \<noteq> m'" for m' using that by (simp add: marks_in_def)
  show ?thesis by (cases m) (simp_all add: marks_set_def none)
qed (simp add: marks_set_def marks_in_def)

lemma end_data_ok:
  assumes "polite_settings st" and "ex_p x = length dat" and "hp_http_errno (ex_hp x) = HPE_OK"
    and "state_inv 0 (ex_hp x) (ex_state x)"
    and "\<And>x'. ex_p x' = length dat \<Longrightarrow> hp_http_errno (ex_hp x') = HPE_OK \<Longrightarrow> state_inv 0 (ex_hp x') (ex_state x') \<Longrightarrow>
      step_ok dat p k (c x')"
  shows "step_ok dat p k (CALLBACK_DATA_NOADVANCE st dat m x c)"
  unfolding CALLBACK_DATA_NOADVANCE_def
proof (rule data_ok)
  fix x' assume "calm x x'"
  then show "step_ok dat p k (c x')" using assms by (simp add: calm_hp)
qed (use assms in simp_all)

lemma exec_end_ok:
  assumes "polite_settings st" and "head_ok dat x" and "ex_p x = length dat"
  shows "step_ok dat (length dat) k (exec_end st dat x)"
proof -
  note end_ok = end_data_ok [OF assms(1)]
  have final: "step_ok dat (length dat) k (RETURN (length dat) y)" if "state_inv 0 (ex_hp y) (ex_state y)" for y
    using that state_inv_cong [of "(ex_hp y)\<lparr>hp_state := ex_state y\<rparr>" "ex_hp y"]
    by (simp add: RETURN_def step_return_iff returned_ok_def parser_ok_def)
  have "marks_set x \<le> 1" using assms(2) by (auto simp: head_ok_def dest: marks_set_le)
  then have "exec_end st dat x = CALLBACK_DATA_NOADVANCE st dat M_header_field x (\<lambda>x.
           CALLBACK_DATA_NOADVANCE st dat M_header_value x (\<lambda>x.
           CALLBACK_DATA_NOADVANCE st dat M_url x (\<lambda>x.
           CALLBACK_DATA_NOADVANCE st dat M_body x (\<lambda>x.
           CALLBACK_DATA_NOADVANCE st dat M_status x (\<lambda>x. RETURN (length dat) x)))))"
    by (simp add: exec_end_def)
  then show ?thesis using assms(2,3) by (auto simp: head_ok_def intro!: end_ok final)
qed

text \<open>The position and the order of re-execution make the loop end.\<close>

definition loop_measure :: "byte list \<Rightarrow> bool \<Rightarrow> 'd exec \<Rightarrow> nat" where
  "loop_measure dat again x = 10 * (length dat - ex_p x) + (if again then rank (ex_state x) else 5)"

lemma rank_less: "rank s < 4"
  by (simp add: rank_def split: state.split)

lemma exec_loop_ok:
  assumes "polite_settings st"
  shows "(if again then switch_ok dat x else head_ok dat x) \<Longrightarrow>
    \<exists>n hp. exec_loop st dat again x = Some (Returned n hp) \<and> returned_ok dat n hp"
proof (induction "loop_measure dat again x" arbitrary: again x rule: less_induct)
  case less
  let ?r = "if again then exec_switch st dat x
    else if ex_p x = length dat then exec_end st dat x else exec_byte dat x"
  let ?k = "if again then rank (ex_state x) else 4"
  have le: "ex_p x \<le> length dat"
    using less.prems by (auto simp: switch_ok_def head_ok_def split: if_splits)
  have ok: "step_ok dat (ex_p x) ?k ?r"
    using less.prems le exec_switch_ok [OF assms, of dat x] exec_end_ok [OF assms, of dat x] exec_byte_ok [of dat x]
    by (auto split: if_splits)
  have unfold: "exec_loop st dat again x = (case ?r of
             Next x' \<Rightarrow> exec_loop st dat False (x'\<lparr>ex_p := ex_p x' + 1\<rparr>)
           | Reexec x' \<Rightarrow> exec_loop st dat True x'
           | Goto_error x' \<Rightarrow> Some (exec_error x')
           | Return n hp \<Rightarrow> Some (Returned n hp)
           | Fault \<Rightarrow> Some Faulted)"
    using le by (subst exec_loop.simps) simp
  show ?case
  proof (cases ?r)
    case (Next x')
    with ok have x': "ex_p x \<le> ex_p x'" "head_ok dat (x'\<lparr>ex_p := ex_p x' + 1\<rparr>)" by (simp_all add: step_ok_def)
    then have "loop_measure dat False (x'\<lparr>ex_p := ex_p x' + 1\<rparr>) < loop_measure dat again x"
      by (auto simp: loop_measure_def head_ok_def)
    with less.hyps [of False] x' show ?thesis unfolding unfold Next by simp
  next
    case (Reexec x')
    with ok have x': "ex_p x \<le> ex_p x'" "switch_ok dat x'" "rank (ex_state x') < ?k" by (simp_all add: step_ok_def)
    then have "loop_measure dat True x' < loop_measure dat again x"
      by (auto simp: loop_measure_def split: if_splits)
    with less.hyps [of True] x' show ?thesis unfolding unfold Reexec by simp
  next
    case (Goto_error x')
    with ok show ?thesis unfolding unfold Goto_error by (simp add: step_ok_def exec_error_def returned_ok_def)
  next
    case (Return n hp)
    with ok show ?thesis unfolding unfold Return by (simp add: step_ok_def)
  next
    case Fault
    with ok show ?thesis by (simp add: step_ok_def)
  qed
qed

section \<open>The whole call\<close>

lemma start_ok:
  assumes "parser_ok hp" and "hp_http_errno hp = HPE_OK"
  shows "head_ok dat (exec_start hp)"
proof -
  have "marks_in (owner (hp_state hp)) (exec_start hp)"
    by (cases "hp_state hp") (simp_all add: marks_in_def owner_def exec_start_def initial_marks_def split: mark.split)
  with assms show ?thesis by (simp add: head_ok_def parser_ok_def exec_start_def)
qed

lemma execute_eof_ok:
  assumes "polite_settings st" and "parser_ok hp" and "hp_http_errno hp = HPE_OK"
  shows "\<exists>n hp'. execute_eof st hp = Returned n hp' \<and> n \<le> 1 \<and>
           (hp_http_errno hp' \<in> {HPE_OK, HPE_PAUSED} \<longrightarrow> parser_ok hp')"
proof (cases "hp_state hp = s_body_identity_eof")
  case True
  show ?thesis
  proof (cases "on_message_complete st")
    case None
    with True assms show ?thesis
      by (simp add: execute_eof_def CALLBACK_NOTIFY_NOADVANCE_def CALLBACK_NOTIFY_at_def exec_start_def)
  next
    case (Some f)
    let ?hp = "hp\<lparr>hp_state := s_body_identity_eof\<rparr>"
    obtain r hp1 where f: "f ?hp = (r, hp1)" by (cases "f ?hp")
    have "polite (f ?hp) ?hp" using polite_settingsD(3) [OF assms(1)] Some by (simp add: polite_cb_def)
    then have "hp1 = ?hp\<lparr>hp_data := hp_data hp1, hp_http_errno := hp_http_errno hp1\<rparr>" using f by (simp add: polite_def)
    then have "hp_state hp1 = hp_state (?hp\<lparr>hp_data := hp_data hp1, hp_http_errno := hp_http_errno hp1\<rparr>)"
      by (rule arg_cong)
    then have "hp_state hp1 = s_body_identity_eof" by simp
    then show ?thesis
      using True Some f assms(3)
      by (simp add: execute_eof_def CALLBACK_NOTIFY_NOADVANCE_def CALLBACK_NOTIFY_at_def exec_start_def
          after_callback_def Let_def parser_ok_def)
  qed
next
  case False
  with assms show ?thesis by (auto simp: execute_eof_def)
qed

text \<open>
  C2. \<open>http_parser_execute\<close> returns on every buffer: with callbacks that leave the fields of
  the parser alone, no assertion fails, no byte outside the buffer is read, the loop ends, at
  most the bytes of the buffer are counted as parsed (one for the call that signals the end
  of the connection), and a parser that is not in error keeps the invariant, ready for the
  next buffer.
\<close>

theorem http_parser_execute_returns:
  assumes "polite_settings st" and "parser_ok hp"
  shows "\<exists>n hp'. http_parser_execute st hp dat = Some (Returned n hp') \<and> n \<le> max 1 (length dat) \<and>
           (hp_http_errno hp' \<in> {HPE_OK, HPE_PAUSED} \<longrightarrow> parser_ok hp')"
proof (cases "hp_http_errno hp = HPE_OK")
  case True
  show ?thesis
  proof (cases "dat = []")
    case True
    with execute_eof_ok [OF assms \<open>hp_http_errno hp = HPE_OK\<close>] \<open>hp_http_errno hp = HPE_OK\<close> show ?thesis
      by (auto simp: http_parser_execute_def)
  next
    case False
    with exec_loop_ok [OF assms(1), of False dat "exec_start hp"] start_ok [OF assms(2) True] True show ?thesis
      by (auto simp: http_parser_execute_def returned_ok_def)
  qed
next
  case False
  with assms show ?thesis by (simp add: http_parser_execute_def)
qed

text \<open>A client that collects the bodies and the field names it is given.\<close>

definition collecting :: "byte list http_data_cb" where
  "collecting hp bs = (0, hp\<lparr>hp_data := hp_data hp @ bs\<rparr>)"

definition collecting_settings :: "byte list http_parser_settings" where
  "collecting_settings = http_parser_settings_init\<lparr>on_header_field := Some collecting, on_body := Some collecting\<rparr>"

definition fresh_parser :: "http_parser_type \<Rightarrow> byte list http_parser" where
  "fresh_parser t = http_parser_init t
     \<lparr>hp_type = HTTP_BOTH, hp_flags = 0, hp_state = s_dead, hp_header_state = h_general, hp_index = 0, hp_nread = 0,
      hp_content_length = 0, hp_http_major = 0, hp_http_minor = 0, hp_status_code = 0, hp_method = HTTP_DELETE,
      hp_http_errno = HPE_OK, hp_upgrade = False, hp_data = []\<rparr>"

lemma collecting_polite: "polite_settings collecting_settings"
proof -
  have "polite_data_cb (data_callback collecting_settings m)" for m
    by (cases m) (simp_all add: polite_data_cb_def polite_def collecting_def collecting_settings_def http_parser_settings_init_def)
  then show ?thesis
    by (simp add: polite_settings_def polite_cb_def collecting_settings_def http_parser_settings_init_def)
qed

lemma init_parser_ok: "parser_ok (http_parser_init t hp)"
  by (simp add: parser_ok_def http_parser_init_def)

lemma fresh_parser_ok: "parser_ok (fresh_parser t)"
  by (simp add: fresh_parser_def init_parser_ok)

theorem http_parser_execute_returns_witness:
  "\<exists>n hp'. http_parser_execute collecting_settings (fresh_parser HTTP_RESPONSE) ''HTTP/1.1 200 OK'' =
      Some (Returned n hp') \<and> n \<le> max 1 (length ''HTTP/1.1 200 OK'') \<and>
      (hp_http_errno hp' \<in> {HPE_OK, HPE_PAUSED} \<longrightarrow> parser_ok hp')"
  by (rule http_parser_execute_returns [OF collecting_polite fresh_parser_ok])

end
