(* ===== verification/Http_Chunks.thy ===== *)
theory Http_Chunks
  imports Http_Run
begin

text \<open>
  The bodies \<open>http_parser_execute\<close> hands to its client: the chunked transfer coding is undone
  exactly, and a body of known length is collected from whatever pieces it comes in. The loop
  is run symbolically, one lemma to a state.
\<close>

section \<open>Steps of the loop\<close>

text \<open>The loop at the byte \<open>p\<close>, in state \<open>s\<close>, with no data waiting for a callback.\<close>

definition exec_at :: "'d http_parser \<Rightarrow> state \<Rightarrow> nat \<Rightarrow> byte \<Rightarrow> (mark \<Rightarrow> nat option) \<Rightarrow> 'd exec" where
  "exec_at hp s p c marks = \<lparr>ex_hp = hp, ex_state = s, ex_p = p, ex_ch = c, ex_marks = marks\<rparr>"

lemma exec_at_simps [simp]:
  "ex_hp (exec_at hp s p c m) = hp" "ex_state (exec_at hp s p c m) = s" "ex_p (exec_at hp s p c m) = p"
  "ex_ch (exec_at hp s p c m) = c" "ex_marks (exec_at hp s p c m) = m"
  "(exec_at hp s p c m)\<lparr>ex_hp := hp'\<rparr> = exec_at hp' s p c m" "(exec_at hp s p c m)\<lparr>ex_state := s'\<rparr> = exec_at hp s' p c m"
  "(exec_at hp s p c m)\<lparr>ex_p := p'\<rparr> = exec_at hp s p' c m" "(exec_at hp s p c m)\<lparr>ex_ch := c'\<rparr> = exec_at hp s p c' m"
  "(exec_at hp s p c m)\<lparr>ex_marks := m'\<rparr> = exec_at hp s p c m'"
  "UPDATE_STATE s' (exec_at hp s p c m) = exec_at hp s' p c m" "on_parser f (exec_at hp s p c m) = exec_at (f hp) s p c m"
  by (simp_all add: exec_at_def UPDATE_STATE_def on_parser_def)

lemma hp_update_order [simp]:
  "hp\<lparr>hp_content_length := n, hp_nread := k\<rparr> = hp\<lparr>hp_nread := k, hp_content_length := n\<rparr>"
  by simp

text \<open>What the loop does with the result of the \<open>switch\<close>.\<close>

definition continue_loop :: "'d http_parser_settings \<Rightarrow> byte list \<Rightarrow> 'd step \<Rightarrow> 'd result option" where
  "continue_loop st dat y =
     (case y of
        Next x \<Rightarrow> exec_loop st dat False (x\<lparr>ex_p := ex_p x + 1\<rparr>)
      | Reexec x \<Rightarrow> exec_loop st dat True x
      | Goto_error x \<Rightarrow> Some (exec_error x)
      | Return n hp \<Rightarrow> Some (Returned n hp)
      | Fault \<Rightarrow> Some Faulted)"

lemma continue_simps [simp]:
  "continue_loop st dat (Next (exec_at hp s p c m)) = exec_loop st dat False (exec_at hp s (p + 1) c m)"
  "continue_loop st dat (Reexec x) = exec_loop st dat True x"
  "continue_loop st dat (Return n hp) = Some (Returned n hp)"
  by (simp_all add: continue_loop_def)

lemma loop_again: "exec_loop st dat True x = continue_loop st dat (exec_switch st dat x)"
  by (subst exec_loop.simps) (simp add: continue_loop_def)

lemma at_byte: "drop p dat = b # rest \<Longrightarrow> p < length dat \<and> dat ! p = b \<and> drop (p + 1) dat = rest"
  by (metis Cons_nth_drop_Suc Suc_eq_plus1 drop_eq_Nil leI list.discI list.inject)

lemma drop_past: "drop p dat = xs @ ys \<Longrightarrow> drop (p + length xs) dat = ys"
  by (metis add.commute append_eq_conv_conj drop_drop)

lemma header_byte:
  assumes "drop p dat = b # rest" and "PARSING_HEADER s" and "unat (hp_nread hp) < HTTP_MAX_HEADER_SIZE"
  shows "exec_loop st dat False (exec_at hp s p c m) =
           continue_loop st dat (exec_switch st dat (exec_at (hp\<lparr>hp_nread := hp_nread hp + 1\<rparr>) s p b m))"
proof -
  have "unat (hp_nread hp + 1) = unat (hp_nread hp) + 1"
    using assms(3) by (simp add: unat_word_ariths(1) HTTP_MAX_HEADER_SIZE_def)
  then show ?thesis
    using at_byte [OF assms(1)] assms(2,3)
    by (subst exec_loop.simps) (simp add: exec_byte_def Let_def COUNT_HEADER_SIZE_def loop_again)
qed

lemma body_byte:
  assumes "drop p dat = b # rest" and "\<not> PARSING_HEADER s"
  shows "exec_loop st dat False (exec_at hp s p c m) = continue_loop st dat (exec_switch st dat (exec_at hp s p b m))"
  using at_byte [OF assms(1)] assms(2)
  by (subst exec_loop.simps) (simp add: exec_byte_def Let_def loop_again)

section \<open>The line of a chunk size\<close>

text \<open>The value of hexadecimal digits.\<close>

definition hex_digit_value :: "byte \<Rightarrow> nat" where
  "hex_digit_value c = (if ord c \<le> 57 then ord c - 48 else if ord c \<le> 70 then ord c - 55 else ord c - 87)"

definition hex_value :: "byte list \<Rightarrow> nat" where
  "hex_value ds = foldl (\<lambda>v c. 16 * v + hex_digit_value c) 0 ds"

definition hex_digits :: "byte list \<Rightarrow> bool" where
  "hex_digits ds \<longleftrightarrow> ds \<noteq> [] \<and> list_all IS_HEX ds"

lemma hex_digit:
  assumes "IS_HEX c" shows "0 \<le> unhex_val c" and "unhex_val c < 16" and "c \<noteq> CR" and "unhex_val c \<noteq> - 1"
proof -
  show "0 \<le> unhex_val c" "unhex_val c < 16" using assms by (auto simp: unhex_val_eq unhex_of_def IS_HEX_iff)
  then show "unhex_val c \<noteq> - 1" by simp
  show "c \<noteq> CR" using assms by (auto simp: IS_HEX_iff)
qed

lemma hex_fold_mono: "v \<le> foldl (\<lambda>v c. 16 * v + nat (unhex_val c)) (v::nat) ds"
proof (induction ds arbitrary: v)
  case (Cons d ds)
  have "v \<le> 16 * v + nat (unhex_val d)" by simp
  also have "\<dots> \<le> foldl (\<lambda>v c. 16 * v + nat (unhex_val c)) (16 * v + nat (unhex_val d)) ds" by (rule Cons)
  finally show ?case by simp
qed simp

lemma hex_value_unhex:
  "list_all IS_HEX ds \<Longrightarrow> foldl (\<lambda>v c. 16 * v + hex_digit_value c) v ds = foldl (\<lambda>v c. 16 * v + nat (unhex_val c)) v ds"
proof (induction ds arbitrary: v)
  case (Cons d ds)
  then have "hex_digit_value d = nat (unhex_val d)"
    by (auto simp: hex_digit_value_def unhex_val_eq unhex_of_def IS_HEX_iff)
  with Cons show ?case by simp
qed simp

lemma header_states: "PARSING_HEADER s_chunk_size_start" "PARSING_HEADER s_chunk_size" "PARSING_HEADER s_chunk_parameters"
  "PARSING_HEADER s_chunk_size_almost_done" "PARSING_HEADER s_header_field_start" "PARSING_HEADER s_headers_almost_done"
  "\<not> PARSING_HEADER s_chunk_data" "\<not> PARSING_HEADER s_chunk_data_almost_done" "\<not> PARSING_HEADER s_chunk_data_done"
  by code_simp+

lemma nread_suc: "k < HTTP_MAX_HEADER_SIZE \<Longrightarrow> unat (of_nat k :: u32) = k"
  by (simp add: HTTP_MAX_HEADER_SIZE_def unsigned_of_nat take_bit_nat_eq_self_iff)

lemma unat_small: "n < 2 ^ 60 \<Longrightarrow> unat (of_nat n :: u64) = n"
  by (simp add: unsigned_of_nat take_bit_nat_eq_self_iff)

lemma size_digits:
  "drop p dat = ds @ rest \<Longrightarrow> list_all IS_HEX ds \<Longrightarrow> chunked hp \<Longrightarrow> k + length ds \<le> HTTP_MAX_HEADER_SIZE \<Longrightarrow>
   foldl (\<lambda>v c. 16 * v + nat (unhex_val c)) v ds < 2 ^ 60 \<Longrightarrow>
   \<exists>c'. exec_loop st dat False (exec_at (hp\<lparr>hp_nread := of_nat k, hp_content_length := of_nat v\<rparr>) s_chunk_size p c m) =
     exec_loop st dat False (exec_at (hp\<lparr>hp_nread := of_nat (k + length ds),
       hp_content_length := of_nat (foldl (\<lambda>v c. 16 * v + nat (unhex_val c)) v ds)\<rparr>) s_chunk_size (p + length ds) c' m)"
proof (induction ds arbitrary: p k v c)
  case (Cons d ds)
  let ?v = "16 * v + nat (unhex_val d)"
  note d = hex_digit [of d]
  have hd: "IS_HEX d" "list_all IS_HEX ds" using Cons.prems(2) by simp_all
  have p: "drop p dat = d # (ds @ rest)" "drop (p + 1) dat = ds @ rest" using Cons.prems(1) at_byte by fastforce+
  have "?v < 2 ^ 60" using hex_fold_mono [of ?v ds] Cons.prems(5) by simp
  then have v: "v < 2 ^ 56" by simp
  then have "take_bit 64 v = v" by (simp add: take_bit_nat_eq_self_iff)
  with v have "(of_nat v :: u64) \<le> (ULLONG_MAX - 16) div 16"
    by (simp add: word_le_nat_alt ULLONG_MAX_def unsigned_of_nat)
  then have small: "\<not> (ULLONG_MAX - 16) div 16 < (of_nat v :: u64)" by simp
  have val: "of_int (unhex_val d) + (of_nat v :: u64) * 16 = of_nat (nat (unhex_val d)) + 16 * of_nat v"
    using d(1) [OF hd(1)] by simp
  have k: "k < HTTP_MAX_HEADER_SIZE" using Cons.prems(4) by simp
  have "exec_loop st dat False (exec_at (hp\<lparr>hp_nread := of_nat k, hp_content_length := of_nat v\<rparr>) s_chunk_size p c m) =
      exec_loop st dat False (exec_at (hp\<lparr>hp_nread := of_nat (k + 1), hp_content_length := of_nat ?v\<rparr>) s_chunk_size (p + 1) d m)"
    using Cons.prems(3) d(3,4) [OF hd(1)] small
    by (subst header_byte [OF p(1)])
      (simp_all add: header_states nread_suc k exec_switch_def on_chunk_size_def assert_chunked_def Let_def val add.commute)
  with Cons.IH [OF p(2) hd(2) Cons.prems(3), of "k + 1" ?v d] Cons.prems(4,5) show ?case by simp
qed auto

text \<open>Parameters of a chunk: from a semicolon or a space to the end of the line.\<close>

definition chunk_params :: "byte list \<Rightarrow> bool" where
  "chunk_params ext \<longleftrightarrow> CR \<notin> set ext \<and> (ext = [] \<or> hd ext = CHR '';'' \<or> hd ext = SP)"

lemma size_parameters:
  "drop p dat = ext @ rest \<Longrightarrow> CR \<notin> set ext \<Longrightarrow> chunked hp \<Longrightarrow> k + length ext \<le> HTTP_MAX_HEADER_SIZE \<Longrightarrow>
   \<exists>c'. exec_loop st dat False (exec_at (hp\<lparr>hp_nread := of_nat k\<rparr>) s_chunk_parameters p c m) =
     exec_loop st dat False (exec_at (hp\<lparr>hp_nread := of_nat (k + length ext)\<rparr>) s_chunk_parameters (p + length ext) c' m)"
proof (induction ext arbitrary: p k c)
  case (Cons d ext)
  have p: "drop p dat = d # (ext @ rest)" "drop (p + 1) dat = ext @ rest" using Cons.prems(1) at_byte by fastforce+
  have "d \<noteq> CR" using Cons.prems(2) by auto
  then have "exec_loop st dat False (exec_at (hp\<lparr>hp_nread := of_nat k\<rparr>) s_chunk_parameters p c m) =
      exec_loop st dat False (exec_at (hp\<lparr>hp_nread := of_nat (k + 1)\<rparr>) s_chunk_parameters (p + 1) d m)"
    using Cons.prems(3,4)
    by (subst header_byte [OF p(1)])
      (simp_all add: header_states nread_suc exec_switch_def on_chunk_parameters_def assert_chunked_def add.commute)
  with Cons.IH [OF p(2), of "k + 1" d] Cons.prems(2-4) show ?case by simp
qed auto

lemma size_text:
  assumes "drop p dat = ds @ ext @ rest" and "hex_digits ds" and "chunk_params ext"
    and "chunked hp" and "hp_nread hp = 0" and "length ds + length ext \<le> HTTP_MAX_HEADER_SIZE" and "hex_value ds < 2 ^ 60"
  shows "\<exists>c' s. (s = s_chunk_size \<or> s = s_chunk_parameters) \<and>
    exec_loop st dat False (exec_at hp s_chunk_size_start p c m) =
    exec_loop st dat False (exec_at (hp\<lparr>hp_nread := of_nat (length ds + length ext), hp_content_length := of_nat (hex_value ds)\<rparr>)
      s (p + length ds + length ext) c' m)"
proof -
  obtain d es where ds: "ds = d # es" using assms(2) by (cases ds) (auto simp: hex_digits_def)
  have hd: "IS_HEX d" "list_all IS_HEX es" using assms(2) by (simp_all add: hex_digits_def ds)
  have p: "drop p dat = d # (es @ ext @ rest)" "drop (p + 1) dat = es @ ext @ rest" using assms(1) at_byte by (fastforce simp: ds)+
  have val: "hex_value ds = foldl (\<lambda>v c. 16 * v + nat (unhex_val c)) (nat (unhex_val d)) es"
    using hex_value_unhex [of ds 0] hd by (simp add: hex_value_def ds)
  have one: "(of_nat (nat (unhex_val d)) :: u64) = of_int (unhex_val d)" using hex_digit(1) [OF hd(1)] by simp
  let ?hp = "\<lambda>k. hp\<lparr>hp_nread := of_nat k, hp_content_length := of_nat (hex_value ds)\<rparr>"
  have "exec_loop st dat False (exec_at hp s_chunk_size_start p c m) =
      exec_loop st dat False (exec_at (hp\<lparr>hp_nread := of_nat 1, hp_content_length := of_nat (nat (unhex_val d))\<rparr>) s_chunk_size (p + 1) d m)"
    using assms(4,5) hex_digit(4) [OF hd(1)] unfolding one
    by (subst header_byte [OF p(1)])
      (simp_all add: header_states HTTP_MAX_HEADER_SIZE_def exec_switch_def on_chunk_size_start_def assert_chunked_def)
  moreover obtain c1 where "exec_loop st dat False (exec_at (hp\<lparr>hp_nread := of_nat 1, hp_content_length := of_nat (nat (unhex_val d))\<rparr>) s_chunk_size (p + 1) d m) =
      exec_loop st dat False (exec_at (?hp (1 + length es)) s_chunk_size (p + 1 + length es) c1 m)"
    using size_digits [OF p(2) hd(2) assms(4), of 1 "nat (unhex_val d)" st d m] assms(6,7) unfolding val by (auto simp: ds)
  ultimately have digits: "exec_loop st dat False (exec_at hp s_chunk_size_start p c m) =
      exec_loop st dat False (exec_at (?hp (length ds)) s_chunk_size (p + length ds) c1 m)" by (simp add: ds)
  show ?thesis
  proof (cases ext)
    case Nil
    with digits show ?thesis by auto
  next
    case (Cons e es)
    have e: "e = CHR '';'' \<or> e = SP" "e \<noteq> CR" "CR \<notin> set es" using assms(3) by (auto simp: chunk_params_def Cons)
    then have "unhex_val e = - 1" by (auto simp: unhex_val_eq unhex_of_def)
    moreover have q: "drop (p + length ds) dat = e # (es @ rest)" using drop_past [OF assms(1)] by (simp add: Cons)
    moreover have q2: "drop (p + length ds + 1) dat = es @ rest" using at_byte [OF q] by simp
    moreover have "chunked (?hp k)" for k using assms(4) by simp
    ultimately have "exec_loop st dat False (exec_at (?hp (length ds)) s_chunk_size (p + length ds) c1 m) =
        exec_loop st dat False (exec_at (?hp (length ds + 1)) s_chunk_parameters (p + length ds + 1) e m)"
      using e(1,2) assms(6)
      by (subst header_byte [OF q])
        (auto simp: Cons header_states nread_suc exec_switch_def on_chunk_size_def assert_chunked_def add.commute)
    moreover obtain c2 where "exec_loop st dat False (exec_at (?hp (length ds + 1)) s_chunk_parameters (p + length ds + 1) e m) =
        exec_loop st dat False (exec_at (?hp (length ds + 1 + length es)) s_chunk_parameters (p + length ds + 1 + length es) c2 m)"
      using size_parameters [OF q2 e(3), of "?hp 0" "length ds + 1" st e m] assms(4,6) by (auto simp: Cons)
    ultimately show ?thesis using digits by (auto simp: Cons intro!: exI [of _ c2] exI [of _ s_chunk_parameters])
  qed
qed

text \<open>The whole line, up to its line feed.\<close>

lemma size_line:
  assumes "drop p dat = ds @ ext @ CR # LF # rest" and "hex_digits ds" and "chunk_params ext"
    and "chunked hp" and "hp_nread hp = 0" and "length ds + length ext + 2 \<le> HTTP_MAX_HEADER_SIZE" and "hex_value ds < 2 ^ 60"
    and "on_chunk_header st = None" and "hp_http_errno hp = HPE_OK"
  shows "\<exists>c'. exec_loop st dat False (exec_at hp s_chunk_size_start p c m) =
    exec_loop st dat False (if hex_value ds = 0
      then exec_at (set_flag F_TRAILING (hp\<lparr>hp_nread := 0, hp_content_length := 0\<rparr>)) s_header_field_start (p + length ds + length ext + 2) c' m
      else exec_at (hp\<lparr>hp_nread := 0, hp_content_length := of_nat (hex_value ds)\<rparr>) s_chunk_data (p + length ds + length ext + 2) c' m)"
proof -
  define n where "n = length ds + length ext"
  have n: "n + 2 \<le> HTTP_MAX_HEADER_SIZE" using assms(6) by (simp add: n_def)
  let ?v = "of_nat (hex_value ds) :: u64"
  let ?hp = "\<lambda>k. hp\<lparr>hp_nread := of_nat k, hp_content_length := ?v\<rparr>"
  obtain c1 s where s: "s = s_chunk_size \<or> s = s_chunk_parameters"
    and line1: "exec_loop st dat False (exec_at hp s_chunk_size_start p c m) = exec_loop st dat False (exec_at (?hp n) s (p + n) c1 m)"
    using size_text [OF assms(1-5) _ assms(7), of st c m] assms(6) by (auto simp: n_def add.assoc)
  have q: "drop (p + n) dat = CR # (LF # rest)" using drop_past [of p dat "ds @ ext"] assms(1) by (simp add: n_def)
  have q2: "drop (p + n + 1) dat = LF # rest" using at_byte [OF q] by simp
  have ch: "chunked (?hp k)" for k using assms(4) by simp
  have cr: "exec_loop st dat False (exec_at (?hp n) s (p + n) c1 m) =
      exec_loop st dat False (exec_at (?hp (n + 1)) s_chunk_size_almost_done (p + n + 1) CR m)"
    using s assms(4) n
    by (subst header_byte [OF q]) (auto simp: header_states nread_suc exec_switch_def on_chunk_size_def on_chunk_parameters_def
      assert_chunked_def add.commute add.left_commute)
  have v: "?v = 0 \<longleftrightarrow> hex_value ds = 0"
    using unat_small [OF assms(7)] unat_eq_zero [of ?v] by linarith
  have "exec_loop st dat False (exec_at (?hp (n + 1)) s_chunk_size_almost_done (p + n + 1) CR m) =
      exec_loop st dat False (if hex_value ds = 0
      then exec_at (set_flag F_TRAILING (hp\<lparr>hp_nread := 0, hp_content_length := 0\<rparr>)) s_header_field_start (p + n + 2) LF m
      else exec_at (hp\<lparr>hp_nread := 0, hp_content_length := ?v\<rparr>) s_chunk_data (p + n + 2) LF m)"
    using assms(4,8,9) v n nread_suc [of "n + 1"]
    by (subst header_byte [OF q2]) (auto simp: header_states nread_suc exec_switch_def on_chunk_size_almost_done_def
      assert_chunked_def STRICT_CHECK_def Let_def CALLBACK_NOTIFY_def CALLBACK_NOTIFY_at_def set_flag_def)
  with line1 cr show ?thesis by (auto simp: n_def add.assoc)
qed

section \<open>The data of a chunk\<close>

text \<open>A client that collects the body in the user's data.\<close>

definition body_settings :: "byte list http_parser_settings" where
  "body_settings = http_parser_settings_init\<lparr>on_body := Some collecting\<rparr>"

lemma body_settings_simps [simp]:
  "on_body body_settings = Some collecting" "on_chunk_header body_settings = None" "on_chunk_complete body_settings = None"
  "on_message_complete body_settings = None"
  by (simp_all add: body_settings_def http_parser_settings_init_def)

lemma data_chunk:
  assumes "drop p dat = c @ CR # LF # rest" and "c \<noteq> []" and "length c < 2 ^ 60"
    and "chunked hp" and "hp_content_length hp = of_nat (length c)" and "hp_http_errno hp = HPE_OK"
  shows "exec_loop body_settings dat False (exec_at hp s_chunk_data p b (\<lambda>_. None)) =
    exec_loop body_settings dat False (exec_at (hp\<lparr>hp_content_length := 0, hp_state := s_chunk_data_done,
      hp_data := hp_data hp @ c, hp_nread := 0\<rparr>) s_chunk_size_start (p + length c + 2) LF (\<lambda>_. None))"
proof -
  let ?hp = "hp\<lparr>hp_content_length := 0\<rparr>" and ?m = "(\<lambda>_. None)(M_body \<mapsto> p)"
  obtain d cs where c: "c = d # cs" using assms(2) by (cases c) auto
  have p: "drop p dat = d # (cs @ CR # LF # rest)" using assms(1) by (simp add: c)
  have q: "drop (p + length c) dat = CR # (LF # rest)" using drop_past [of p dat c] assms(1) by simp
  have r: "drop (p + length c + 1) dat = LF # rest" using at_byte [OF q] by simp
  have len: "p + length c < length dat" using at_byte [OF q] by simp
  have u: "unat (hp_content_length hp) = length c" using unat_small [OF assms(3)] assms(5) by simp
  have ne: "hp_content_length hp \<noteq> 0" "hp_content_length hp \<noteq> ULLONG_MAX"
    using u assms(2,3) by (auto simp: ULLONG_MAX_def unsigned_minus_1_eq_mask mask_eq_exp_minus_1)
  have dat: "subbuf p (length c) dat = c" using assms(1) by (simp add: subbuf_def)
  have n: "body_to_read dat (exec_at hp s_chunk_data p x m) = length c" for x m using len u by (simp add: body_to_read_def)
  have "exec_loop body_settings dat False (exec_at hp s_chunk_data p b (\<lambda>_. None)) =
      exec_loop body_settings dat False (exec_at ?hp s_chunk_data_almost_done (p + length c) d ?m)"
    using assms(4,5) ne
    by (subst body_byte [OF p]) (simp_all add: header_states exec_switch_def on_chunk_data_def assert_chunked_def read_body_def n
      Let_def MARK_def c)
  also have "\<dots> = exec_loop body_settings dat False (exec_at (?hp\<lparr>hp_state := s_chunk_data_done, hp_data := hp_data hp @ c\<rparr>)
      s_chunk_data_done (p + length c + 1) CR (\<lambda>_. None))"
    using assms(4,6) len
    by (subst body_byte [OF q]) (simp_all add: header_states exec_switch_def on_chunk_data_almost_done_def assert_chunked_def
      STRICT_CHECK_def CALLBACK_DATA_def CALLBACK_DATA_at_def after_callback_def collecting_def Let_def dat)
  also have "\<dots> = exec_loop body_settings dat False (exec_at (hp\<lparr>hp_content_length := 0, hp_state := s_chunk_data_done,
      hp_data := hp_data hp @ c, hp_nread := 0\<rparr>) s_chunk_size_start (p + length c + 2) LF (\<lambda>_. None))"
    using assms(4,6)
    by (subst body_byte [OF r]) (simp_all add: header_states exec_switch_def on_chunk_data_done_def assert_chunked_def
      STRICT_CHECK_def CALLBACK_NOTIFY_def CALLBACK_NOTIFY_at_def Let_def)
  finally show ?thesis .
qed

section \<open>Whole bodies\<close>

text \<open>A chunk: its size as it is written, the parameters of the line and the data.\<close>

record chunk =
  ck_size :: "byte list"
  ck_ext :: "byte list"
  ck_data :: "byte list"

definition chunk_text :: "chunk \<Rightarrow> byte list" where
  "chunk_text k = ck_size k @ ck_ext k @ [CR, LF] @ ck_data k @ [CR, LF]"

definition chunk_line :: "chunk \<Rightarrow> bool" where
  "chunk_line k \<longleftrightarrow> hex_digits (ck_size k) \<and> chunk_params (ck_ext k) \<and> hex_value (ck_size k) = length (ck_data k) \<and>
     length (ck_size k) + length (ck_ext k) + 2 \<le> HTTP_MAX_HEADER_SIZE \<and> length (ck_data k) < 2 ^ 60"

lemma one_chunk:
  assumes "drop p dat = chunk_text k @ rest" and "chunk_line k" and "ck_data k \<noteq> []"
    and "chunked hp" and "hp_nread hp = 0" and "hp_http_errno hp = HPE_OK"
  shows "\<exists>c. exec_loop body_settings dat False (exec_at hp s_chunk_size_start p b (\<lambda>_. None)) =
    exec_loop body_settings dat False (exec_at (hp\<lparr>hp_content_length := 0, hp_state := s_chunk_data_done,
      hp_data := hp_data hp @ ck_data k, hp_nread := 0\<rparr>) s_chunk_size_start (p + length (chunk_text k)) c (\<lambda>_. None))"
proof -
  let ?n = "length (ck_size k) + length (ck_ext k) + 2"
  have line: "drop p dat = ck_size k @ ck_ext k @ CR # LF # (ck_data k @ CR # LF # rest)"
    using assms(1) by (simp add: chunk_text_def)
  have k: "hex_digits (ck_size k)" "chunk_params (ck_ext k)" "?n \<le> HTTP_MAX_HEADER_SIZE"
      "hex_value (ck_size k) = length (ck_data k)" "length (ck_data k) < 2 ^ 60"
    using assms(2) by (simp_all add: chunk_line_def)
  let ?hp = "hp\<lparr>hp_nread := 0, hp_content_length := of_nat (length (ck_data k))\<rparr>"
  obtain c where first: "exec_loop body_settings dat False (exec_at hp s_chunk_size_start p b (\<lambda>_. None)) =
      exec_loop body_settings dat False (exec_at ?hp s_chunk_data (p + ?n) c (\<lambda>_. None))"
    using size_line [OF line k(1,2) assms(4,5) k(3), of body_settings b "\<lambda>_. None"] k(4,5) assms(3,6) by (auto simp: add.assoc)
  have data: "drop (p + ?n) dat = ck_data k @ CR # LF # rest"
    using drop_past [of p dat "ck_size k @ ck_ext k @ [CR, LF]"] line by (simp add: add.assoc)
  have "chunked ?hp" using assms(4) by simp
  from data_chunk [OF data assms(3) k(5) this] first assms(6) show ?thesis
    by (auto simp: chunk_text_def add.assoc add.commute add.left_commute)
qed

lemma many_chunks:
  "drop p dat = concat (map chunk_text ks) @ rest \<Longrightarrow> \<forall>k \<in> set ks. chunk_line k \<and> ck_data k \<noteq> [] \<Longrightarrow>
   chunked hp \<Longrightarrow> hp_nread hp = 0 \<Longrightarrow> hp_http_errno hp = HPE_OK \<Longrightarrow>
   \<exists>c n s. exec_loop body_settings dat False (exec_at hp s_chunk_size_start p b (\<lambda>_. None)) =
    exec_loop body_settings dat False (exec_at (hp\<lparr>hp_content_length := n, hp_state := s,
      hp_data := hp_data hp @ concat (map ck_data ks)\<rparr>) s_chunk_size_start
      (p + length (concat (map chunk_text ks))) c (\<lambda>_. None))"
proof (induction ks arbitrary: p hp b)
  case Nil
  have "hp = hp\<lparr>hp_content_length := hp_content_length hp, hp_state := hp_state hp, hp_data := hp_data hp @ []\<rparr>" by simp
  then show ?case by (metis append.right_neutral add_0_right concat.simps(1) list.simps(8) list.size(3))
next
  case (Cons k ks)
  let ?hp = "hp\<lparr>hp_content_length := 0, hp_state := s_chunk_data_done, hp_data := hp_data hp @ ck_data k, hp_nread := 0\<rparr>"
  have t: "drop p dat = chunk_text k @ (concat (map chunk_text ks) @ rest)" using Cons.prems(1) by simp
  obtain c where one: "exec_loop body_settings dat False (exec_at hp s_chunk_size_start p b (\<lambda>_. None)) =
      exec_loop body_settings dat False (exec_at ?hp s_chunk_size_start (p + length (chunk_text k)) c (\<lambda>_. None))"
    using one_chunk [OF t _ _ Cons.prems(3-5), of b] Cons.prems(2) by auto
  obtain c' n s where "exec_loop body_settings dat False (exec_at ?hp s_chunk_size_start (p + length (chunk_text k)) c (\<lambda>_. None)) =
      exec_loop body_settings dat False (exec_at (?hp\<lparr>hp_content_length := n, hp_state := s,
        hp_data := hp_data ?hp @ concat (map ck_data ks)\<rparr>) s_chunk_size_start
        (p + length (chunk_text k) + length (concat (map chunk_text ks))) c' (\<lambda>_. None))"
    using Cons.IH [OF drop_past [OF t], of ?hp c] Cons.prems(2-5) by auto
  moreover have "?hp\<lparr>hp_content_length := n, hp_state := s, hp_data := hp_data ?hp @ concat (map ck_data ks)\<rparr> =
      hp\<lparr>hp_content_length := n, hp_state := s, hp_data := hp_data hp @ concat (map ck_data (k # ks))\<rparr>"
    using Cons.prems(4) by (cases hp) simp
  ultimately show ?case unfolding one by (auto simp: add.assoc)
qed

text \<open>The last chunk, which has no data, and the empty line that ends the message.\<close>

lemma last_chunk:
  assumes "drop p dat = chunk_text k" and "chunk_line k" and "ck_data k = []"
    and "chunked hp" and "hp_nread hp = 0" and "hp_http_errno hp = HPE_OK" and "\<not> hp_upgrade hp"
  shows "\<exists>hp'. exec_loop body_settings dat False (exec_at hp s_chunk_size_start p b (\<lambda>_. None)) = Some (Returned (length dat) hp') \<and>
    hp_data hp' = hp_data hp \<and> hp_http_errno hp' = HPE_OK \<and> hp_state hp' = NEW_MESSAGE hp' \<and>
    hp_flags hp' = hp_flags hp OR F_TRAILING"
proof -
  let ?n = "length (ck_size k) + length (ck_ext k) + 2"
  have line: "drop p dat = ck_size k @ ck_ext k @ CR # LF # [CR, LF]" using assms(1,3) by (simp add: chunk_text_def)
  have k: "hex_digits (ck_size k)" "chunk_params (ck_ext k)" "?n \<le> HTTP_MAX_HEADER_SIZE" "hex_value (ck_size k) = 0"
    using assms(2,3) by (simp_all add: chunk_line_def)
  let ?hp = "set_flag F_TRAILING (hp\<lparr>hp_nread := 0, hp_content_length := 0\<rparr>)"
  let ?new = "?hp\<lparr>hp_nread := 2\<rparr>"
  obtain c where first: "exec_loop body_settings dat False (exec_at hp s_chunk_size_start p b (\<lambda>_. None)) =
      exec_loop body_settings dat False (exec_at ?hp s_header_field_start (p + ?n) c (\<lambda>_. None))"
    using size_line [OF line k(1,2) assms(4,5) k(3), of body_settings b "\<lambda>_. None"] k(4) assms(6) by (auto simp: add.assoc)
  have q: "drop (p + ?n) dat = CR # [LF]"
    using drop_past [of p dat "ck_size k @ ck_ext k @ [CR, LF]"] line by (simp add: add.assoc)
  have r: "drop (p + ?n + 1) dat = LF # []" using at_byte [OF q] by simp
  have e: "p + ?n + 2 = length dat" using q r at_byte [OF r] by simp
  have "(f OR F_TRAILING) AND F_TRAILING = F_TRAILING" for f by (rule bit_eqI) (auto simp: bit_simps)
  then have t: "hp_flags ?hp AND F_TRAILING \<noteq> 0" by (simp add: set_flag_def) (simp add: F_TRAILING_def)
  have size: "0 < HTTP_MAX_HEADER_SIZE" "1 < HTTP_MAX_HEADER_SIZE" by (simp_all add: HTTP_MAX_HEADER_SIZE_def)
  have "exec_loop body_settings dat False (exec_at ?hp s_header_field_start (p + ?n) c (\<lambda>_. None)) =
      exec_loop body_settings dat False (exec_at (?hp\<lparr>hp_nread := 1\<rparr>) s_headers_almost_done (p + ?n + 1) CR (\<lambda>_. None))"
    using size by (subst header_byte [OF q]) (simp_all add: header_states exec_switch_def on_header_field_start_def set_flag_def)
  also have "\<dots> = exec_loop body_settings dat True (exec_at ?new s_message_done (p + ?n + 1) LF (\<lambda>_. None))"
    using size t assms(6) by (subst header_byte [OF r]) (simp_all add: header_states exec_switch_def on_headers_almost_done_def
      STRICT_CHECK_def CALLBACK_NOTIFY_NOADVANCE_def CALLBACK_NOTIFY_at_def set_flag_def)
  also have "\<dots> = exec_loop body_settings dat False (exec_at ?new (NEW_MESSAGE ?new) (length dat) LF (\<lambda>_. None))"
    using assms(6,7) e by (subst loop_again) (simp add: exec_switch_def on_message_done_def message_complete_def
      CALLBACK_NOTIFY_def CALLBACK_NOTIFY_at_def set_flag_def)
  also have "\<dots> = Some (Returned (length dat) (?new\<lparr>hp_state := NEW_MESSAGE ?new\<rparr>))"
    using assms(6) by (subst exec_loop.simps) (simp add: exec_end_def marks_set_def CALLBACK_DATA_NOADVANCE_def
      CALLBACK_DATA_at_def RETURN_def set_flag_def)
  finally show ?thesis
    unfolding first using assms(6) by (simp add: set_flag_def NEW_MESSAGE_def start_state_def http_should_keep_alive_def
      http_message_needs_eof_def)
qed


text \<open>A parser at the start of a chunked body.\<close>

definition chunked_parser :: "byte list http_parser" where
  "chunked_parser = (fresh_parser HTTP_RESPONSE)\<lparr>hp_state := s_chunk_size_start, hp_flags := F_CHUNKED\<rparr>"


section \<open>Bodies of known length in pieces\<close>

text \<open>A client that passes on the data as it comes in; \<open>None\<close> when a call does not take all of it.\<close>

fun feed :: "'d http_parser_settings \<Rightarrow> 'd http_parser \<Rightarrow> byte list list \<Rightarrow> 'd http_parser option" where
  "feed st hp [] = Some hp"
| "feed st hp (d # ds) =
     (case http_parser_execute st hp d of
        Some (Returned n hp') \<Rightarrow> if n = length d then feed st hp' ds else None
      | _ \<Rightarrow> None)"

definition in_body :: "nat \<Rightarrow> byte list http_parser \<Rightarrow> bool" where
  "in_body n hp \<longleftrightarrow> hp_state hp = s_body_identity \<and> hp_content_length hp = of_nat n \<and> 0 < n \<and> n < 2 ^ 60 \<and>
     hp_http_errno hp = HPE_OK \<and> \<not> hp_upgrade hp"

lemma body_start:
  assumes "in_body n hp" and "d \<noteq> []" and "length d \<le> n"
  shows "http_parser_execute body_settings hp d = continue_loop body_settings d
    (on_body_identity body_settings d (exec_at hp s_body_identity 0 (hd d) (\<lambda>_. None)))"
    and "read_body d (exec_at hp s_body_identity 0 (hd d) (\<lambda>_. None)) =
      exec_at (hp\<lparr>hp_content_length := of_nat (n - length d)\<rparr>) s_body_identity (length d - 1) (hd d) ((\<lambda>_. None)(M_body \<mapsto> 0))"
    and "hp_content_length hp \<noteq> 0" and "hp_content_length hp \<noteq> ULLONG_MAX"
    and "(of_nat (n - length d) :: u64) = 0 \<longleftrightarrow> length d = n"
proof -
  obtain c cs where d: "d = c # cs" using assms(2) by (cases d) auto
  have "initial_marks s_body_identity = (\<lambda>_. None)" by (rule ext) (simp add: initial_marks_def split: mark.split)
  then have start: "exec_start hp = exec_at hp s_body_identity 0 NUL (\<lambda>_. None)"
    using assms(1) by (simp add: exec_start_def exec_at_def in_body_def)
  have b: "drop 0 d = c # cs" "\<not> PARSING_HEADER s_body_identity" by (simp add: d) code_simp
  show "http_parser_execute body_settings hp d = continue_loop body_settings d
    (on_body_identity body_settings d (exec_at hp s_body_identity 0 (hd d) (\<lambda>_. None)))"
    using assms(1) body_byte [OF b, of body_settings hp NUL "\<lambda>_. None"]
    by (simp add: http_parser_execute_def in_body_def start exec_switch_def d)
  have u: "unat (hp_content_length hp) = n" using assms(1) unat_small [of n] by (simp add: in_body_def)
  then have "body_to_read d (exec_at hp s x y z) = length d - x" if "x \<le> length d" for s x y z
    using assms(3) that by (simp add: body_to_read_def)
  moreover have "(of_nat n :: u64) - of_nat (length d) = of_nat (n - length d)" using assms(3) by (simp add: of_nat_diff)
  ultimately show "read_body d (exec_at hp s_body_identity 0 (hd d) (\<lambda>_. None)) =
      exec_at (hp\<lparr>hp_content_length := of_nat (n - length d)\<rparr>) s_body_identity (length d - 1) (hd d) ((\<lambda>_. None)(M_body \<mapsto> 0))"
    using assms(1) by (simp add: read_body_def Let_def MARK_def in_body_def)
  show "hp_content_length hp \<noteq> 0" "hp_content_length hp \<noteq> ULLONG_MAX"
    using u assms(1) by (auto simp: in_body_def ULLONG_MAX_def unsigned_minus_1_eq_mask mask_eq_exp_minus_1)
  have "unat (of_nat (n - length d) :: u64) = n - length d"
    using assms(1) le_less_trans [of "n - length d" n "2 ^ 60"] by (intro unat_small) (simp add: in_body_def)
  then show "(of_nat (n - length d) :: u64) = 0 \<longleftrightarrow> length d = n"
    using unat_eq_zero [of "of_nat (n - length d) :: u64"] assms(3) by linarith
qed

lemma body_piece:
  assumes "in_body n hp" and "d \<noteq> []" and "length d < n"
  shows "\<exists>hp'. http_parser_execute body_settings hp d = Some (Returned (length d) hp') \<and>
    in_body (n - length d) hp' \<and> hp_data hp' = hp_data hp @ d"
proof -
  have le: "length d \<le> n" using assms(3) by simp
  note st = body_start [OF assms(1,2) le]
  let ?hp = "hp\<lparr>hp_content_length := of_nat (n - length d), hp_state := s_body_identity, hp_data := hp_data hp @ d\<rparr>"
  have "http_parser_execute body_settings hp d = exec_loop body_settings d False
      (exec_at (hp\<lparr>hp_content_length := of_nat (n - length d)\<rparr>) s_body_identity (length d) (hd d) ((\<lambda>_. None)(M_body \<mapsto> 0)))"
    using st(2-5) assms(2,3) unfolding st(1) by (simp add: on_body_identity_def)
  also have "\<dots> = Some (Returned (length d) ?hp)"
    using assms(1) by (subst exec_loop.simps) (simp add: exec_end_def marks_set_def CALLBACK_DATA_NOADVANCE_def
      CALLBACK_DATA_at_def RETURN_def in_body_def after_callback_def collecting_def Let_def subbuf_def)
  finally show ?thesis using assms by (auto simp: in_body_def)
qed

lemma body_last:
  assumes "in_body n hp" and "length d = n"
  shows "\<exists>hp'. http_parser_execute body_settings hp d = Some (Returned (length d) hp') \<and>
    hp_data hp' = hp_data hp @ d \<and> hp_http_errno hp' = HPE_OK \<and> hp_state hp' = NEW_MESSAGE hp'"
proof -
  have d: "d \<noteq> []" "length d \<le> n" using assms by (auto simp: in_body_def)
  note st = body_start [OF assms(1) d]
  let ?hp = "hp\<lparr>hp_content_length := 0, hp_state := s_message_done, hp_data := hp_data hp @ d\<rparr>"
  have "http_parser_execute body_settings hp d = exec_loop body_settings d True
      (exec_at ?hp s_message_done (length d - 1) (hd d) (\<lambda>_. None))"
    using st(2-5) assms d(1) unfolding st(1)
    by (simp add: on_body_identity_def in_body_def CALLBACK_DATA_at_def after_callback_def collecting_def Let_def subbuf_def)
  also have "\<dots> = exec_loop body_settings d False (exec_at ?hp (NEW_MESSAGE ?hp) (length d) (hd d) (\<lambda>_. None))"
    using assms(1) d(1) by (subst loop_again) (simp add: exec_switch_def on_message_done_def message_complete_def
      CALLBACK_NOTIFY_def CALLBACK_NOTIFY_at_def in_body_def)
  also have "\<dots> = Some (Returned (length d) (?hp\<lparr>hp_state := NEW_MESSAGE ?hp\<rparr>))"
    using assms(1) by (subst exec_loop.simps) (simp add: exec_end_def marks_set_def CALLBACK_DATA_NOADVANCE_def
      CALLBACK_DATA_at_def RETURN_def in_body_def)
  finally show ?thesis using assms(1) by (simp add: in_body_def NEW_MESSAGE_def start_state_def http_should_keep_alive_def
      http_message_needs_eof_def)
qed

text \<open>
  A body of known length is handed out exactly, in whatever pieces it comes in: every call
  takes its whole piece, and after the last one the parser is ready for the next message.
\<close>

theorem identity_body_collected:
  assumes "in_body (length (concat ds)) hp" and "[] \<notin> set ds"
  shows "\<exists>hp'. feed body_settings hp ds = Some hp' \<and> hp_data hp' = hp_data hp @ concat ds \<and>
           hp_http_errno hp' = HPE_OK \<and> hp_state hp' = NEW_MESSAGE hp'"
  using assms
proof (induction ds arbitrary: hp)
  case (Cons d ds)
  show ?case
  proof (cases "ds = []")
    case True
    then show ?thesis using body_last [of "length d" hp d] Cons.prems by auto
  next
    case False
    have "d \<noteq> []" "[] \<notin> set ds" "concat ds \<noteq> []" using Cons.prems(2) False by (cases ds; auto)+
    then show ?thesis
      using body_piece [of "length (concat (d # ds))" hp d] Cons.prems(1) Cons.IH by fastforce
  qed
qed (simp add: in_body_def)

theorem identity_body_collected_witness:
  "\<exists>hp'. feed body_settings ((fresh_parser HTTP_RESPONSE)\<lparr>hp_state := s_body_identity, hp_content_length := 5\<rparr>) [''ab'', ''c'', ''de''] = Some hp' \<and>
     hp_data hp' = ''abcde'' \<and> hp_http_errno hp' = HPE_OK \<and> hp_state hp' = NEW_MESSAGE hp'"
  using identity_body_collected [of "[''ab'', ''c'', ''de'']" "(fresh_parser HTTP_RESPONSE)\<lparr>hp_state := s_body_identity, hp_content_length := 5\<rparr>"]
  by (simp add: in_body_def fresh_parser_def http_parser_init_def)

end
