(* ===== verification/Http_Names.thy ===== *)
theory Http_Names
  imports Http_Chunks
begin

text \<open>
  The names of header fields: the letter-by-letter matching of \<open>http_parser_execute\<close> recognises
  the five names the parser interprets, in any case of letters, and no other.
\<close>

section \<open>What the letters read so far can be\<close>

text \<open>The names compared letter by letter, with the state while matching and the state at the end.\<close>

definition matched_names :: "(header_states \<times> string \<times> header_states) list" where
  "matched_names =
     [(h_matching_connection, ''connection'', h_connection),
      (h_matching_proxy_connection, ''proxy-connection'', h_connection),
      (h_matching_content_length, ''content-length'', h_content_length),
      (h_matching_transfer_encoding, ''transfer-encoding'', h_transfer_encoding),
      (h_matching_upgrade, ''upgrade'', h_upgrade)]"

text \<open>The state after the letters \<open>pre\<close> of a name, and the index.\<close>

definition name_seen :: "string \<Rightarrow> 'd http_parser \<Rightarrow> bool" where
  "name_seen pre hp \<longleftrightarrow>
     hp_header_state hp = h_general
     \<or> hp_header_state hp = h_C \<and> pre = ''c'' \<and> hp_index hp = 0
     \<or> hp_header_state hp = h_CO \<and> pre = ''co'' \<and> hp_index hp = 1
     \<or> hp_header_state hp = h_CON \<and> pre = ''con'' \<and> hp_index hp = 2
     \<or> (\<exists>nm complete. (hp_header_state hp, nm, complete) \<in> set matched_names \<and>
          Suc (unat (hp_index hp)) < length nm \<and> pre = take (Suc (unat (hp_index hp))) nm)
     \<or> (\<exists>h nm. (h, nm, hp_header_state hp) \<in> set matched_names \<and> pre = nm)"

lemma name_general: "hp_header_state hp = h_general \<Longrightarrow> name_seen pre hp"
  by (simp add: name_seen_def)

text \<open>One letter more while matching.\<close>

lemma match_field_seen:
  assumes "(h, nm, complete) \<in> set matched_names" "hp_header_state hp = h" "Suc (unat (hp_index hp)) < length nm"
    "pre = take (Suc (unat (hp_index hp))) nm" "c \<noteq> NUL"
  shows "name_seen (pre @ [c]) (match_field nm complete c hp)"
proof -
  have small: "length nm \<le> 17" using assms(1) by (auto simp: matched_names_def)
  then have "unat (hp_index hp) + 1 < 256" using assms(3) by simp
  then have i: "unat (hp_index hp + 1) = Suc (unat (hp_index hp))" by (simp add: unat_word_ariths(1))
  let ?i = "Suc (unat (hp_index hp))"
  have at: "c_string_at nm ?i = Some (nm ! ?i)" using assms(3) by (simp add: c_string_at_def)
  show ?thesis
  proof (cases "nm ! ?i = c")
    case False
    then have "hp_header_state (match_field nm complete c hp) = h_general"
      using at i by (simp add: match_field_def next_index_def match_letter_def Let_def)
    then show ?thesis by (rule name_general)
  next
    case True
    with assms(3,4) have pre: "pre @ [c] = take (Suc ?i) nm" by (simp add: take_Suc_conv_app_nth)
    show ?thesis
    proof (cases "?i = length nm - 1")
      case True
      have "match_field nm complete c hp = (next_index hp)\<lparr>hp_header_state := complete\<rparr>"
        using at i \<open>nm ! ?i = c\<close> True assms(3) by (simp add: match_field_def next_index_def match_letter_def Let_def)
      moreover have "pre @ [c] = nm" using pre True assms(3) by simp
      ultimately show ?thesis using assms(1) by (auto simp: name_seen_def)
    next
      case False
      have m: "match_field nm complete c hp = next_index hp"
        using at i \<open>nm ! ?i = c\<close> False assms(3) by (simp add: match_field_def next_index_def match_letter_def Let_def)
      have "Suc (unat (hp_index (next_index hp))) < length nm" using i False assms(3) by (simp add: next_index_def)
      moreover have "hp_header_state (next_index hp) = h" using assms(2) by (simp add: next_index_def)
      ultimately show ?thesis unfolding m using assms(1) pre i by (auto simp: name_seen_def next_index_def)
    qed
  qed
qed

lemma field_byte_seen:
  assumes "name_seen pre hp" "TOKEN b \<noteq> NUL"
  shows "\<exists>hp'. header_field_byte b hp = Some hp' \<and> name_seen (pre @ [TOKEN b]) hp'"
proof -
  have sp: "b \<noteq> SP" using assms(2) by (auto simp: TOKEN_eq token_of_def)
  from assms(1) consider (general) "hp_header_state hp = h_general"
    | (C) "hp_header_state hp = h_C" "pre = ''c''" "hp_index hp = 0"
    | (CO) "hp_header_state hp = h_CO" "pre = ''co''" "hp_index hp = 1"
    | (CON) "hp_header_state hp = h_CON" "pre = ''con''" "hp_index hp = 2"
    | (matching) nm complete where "(hp_header_state hp, nm, complete) \<in> set matched_names"
        "Suc (unat (hp_index hp)) < length nm" "pre = take (Suc (unat (hp_index hp))) nm"
    | (complete) h nm where "(h, nm, hp_header_state hp) \<in> set matched_names" "pre = nm"
    by (auto simp: name_seen_def)
  then show ?thesis
  proof cases
    case general
    then show ?thesis by (simp add: header_field_byte_def name_seen_def)
  next
    case C
    then show ?thesis by (auto simp: header_field_byte_def name_seen_def next_index_def Let_def)
  next
    case CO
    then show ?thesis by (auto simp: header_field_byte_def name_seen_def next_index_def Let_def)
  next
    case CON
    then show ?thesis by (auto simp: header_field_byte_def name_seen_def next_index_def matched_names_def Let_def)
  next
    case (matching nm complete)
    from match_field_seen [OF matching(1) refl matching(2,3) assms(2)] matching(1)
    show ?thesis by (auto simp: header_field_byte_def matched_names_def Let_def)
  next
    case (complete h nm)
    then show ?thesis using sp by (auto simp: header_field_byte_def name_seen_def matched_names_def Let_def)
  qed
qed

text \<open>A parser with other values of the fields the headers change.\<close>

definition named :: "8 word \<Rightarrow> header_states \<Rightarrow> 'd http_parser \<Rightarrow> 'd http_parser" where
  "named i h hp = hp\<lparr>hp_index := i, hp_header_state := h\<rparr>"

definition name_frame :: "'d http_parser \<Rightarrow> 'd http_parser \<Rightarrow> bool" where
  "name_frame hp hp' \<longleftrightarrow> hp' = named (hp_index hp') (hp_header_state hp') hp"

lemma name_frame_intros:
  "name_frame hp hp" "name_frame hp (hp\<lparr>hp_header_state := s\<rparr>)" "name_frame hp (next_index hp)"
  "name_frame hp ((next_index hp)\<lparr>hp_header_state := s\<rparr>)"
  by (simp_all add: name_frame_def named_def next_index_def)

lemma match_field_frame: "name_frame hp (match_field nm complete c hp)"
  by (simp add: match_field_def Let_def name_frame_intros split: letter.split)

lemma field_byte_frame: "header_field_byte b hp = Some hp' \<Longrightarrow> name_frame hp hp'"
  by (auto simp: header_field_byte_def Let_def match_field_frame name_frame_intros split: if_splits)

lemma named_named [simp]: "named i h (named i' h' hp) = named i h hp"
  by (simp add: named_def)

lemma header_field_loop_name:
  "list_all (\<lambda>c. TOKEN c \<noteq> NUL) cs \<Longrightarrow> name_seen pre hp \<Longrightarrow>
   \<exists>i h. header_field_loop hp q ch (cs @ CHR '':'' # rest) = Some (named i h hp, q + length cs, CHR '':'') \<and>
     name_seen (pre @ map TOKEN cs) (named i h hp)"
proof (induction cs arbitrary: pre hp q ch)
  case Nil
  have "TOKEN (CHR '':'') = NUL" by (simp add: TOKEN_eq token_of_def)
  moreover have "hp = named (hp_index hp) (hp_header_state hp) hp" by (simp add: named_def)
  ultimately show ?case using Nil.prems(2) by (metis append.right_neutral append_Nil header_field_loop.simps(2) list.map_disc_iff list.size(3) add_0_right)
next
  case (Cons b cs)
  then have b: "TOKEN b \<noteq> NUL" "list_all (\<lambda>c. TOKEN c \<noteq> NUL) cs" by simp_all
  from field_byte_seen [OF Cons.prems(2) b(1)] obtain hp' where hp': "header_field_byte b hp = Some hp'" "name_seen (pre @ [TOKEN b]) hp'"
    by blast
  from field_byte_frame [OF hp'(1)] have f: "hp' = named (hp_index hp') (hp_header_state hp') hp" by (simp add: name_frame_def)
  from Cons.IH [OF b(2) hp'(2), of "q + 1" b] obtain i h where
    "header_field_loop hp' (q + 1) b (cs @ CHR '':'' # rest) = Some (named i h hp', q + 1 + length cs, CHR '':'')"
    "name_seen ((pre @ [TOKEN b]) @ map TOKEN cs) (named i h hp')" by blast
  moreover have "named i h hp' = named i h hp" for i h by (subst f) simp
  ultimately show ?case using b(1) hp'(1) by auto
qed

section \<open>Names and what they are taken for\<close>

text \<open>A name is made of tokens; the five names have a meaning in any case of letters.\<close>

definition field_name :: "string \<Rightarrow> bool" where
  "field_name name \<longleftrightarrow> name \<noteq> [] \<and> list_all (\<lambda>c. TOKEN c \<noteq> NUL) name"

definition plain_name :: "string \<Rightarrow> bool" where
  "plain_name name \<longleftrightarrow> field_name name \<and>
     map TOKEN name \<notin> {''connection'', ''proxy-connection'', ''content-length'', ''transfer-encoding'', ''upgrade''}"

definition first_state :: "byte \<Rightarrow> header_states" where
  "first_state c =
     (if TOKEN c = CHR ''c'' then h_C else if TOKEN c = CHR ''p'' then h_matching_proxy_connection
      else if TOKEN c = CHR ''t'' then h_matching_transfer_encoding
      else if TOKEN c = CHR ''u'' then h_matching_upgrade else h_general)"

lemma first_seen: "name_seen [TOKEN c] (named 0 (first_state c) hp)"
  by (auto simp: name_seen_def named_def first_state_def matched_names_def)

text \<open>A value of a plain name is not interpreted.\<close>

definition general_state :: "header_states \<Rightarrow> bool" where
  "general_state h \<longleftrightarrow> h \<notin> {h_upgrade, h_transfer_encoding, h_content_length, h_connection, h_matching_connection_token_start}"

lemma plain_name_general:
  assumes "plain_name name" "name_seen (map TOKEN name) hp"
  shows "general_state (hp_header_state hp)"
  using assms by (auto simp: general_state_def plain_name_def name_seen_def matched_names_def)

text \<open>The letters of \<open>Content-Length\<close> are matched to the end.\<close>

lemma content_length_matched:
  assumes "map TOKEN name = ''content-length''"
  shows "header_field_loop (named 0 (first_state (hd name)) hp) q ch (tl name @ CHR '':'' # rest) =
    Some (named 13 h_content_length hp, q + length (tl name), CHR '':'')"
proof -
  obtain a0 a1 a2 a3 a4 a5 a6 a7 a8 a9 a10 a11 a12 a13 where n: "name = [a0,a1,a2,a3,a4,a5,a6,a7,a8,a9,a10,a11,a12,a13]"
    using assms by (auto simp: map_eq_Cons_conv)
  have t: "TOKEN a0 = CHR ''c''" "TOKEN a1 = CHR ''o''" "TOKEN a2 = CHR ''n''" "TOKEN a3 = CHR ''t''" "TOKEN a4 = CHR ''e''"
    "TOKEN a5 = CHR ''n''" "TOKEN a6 = CHR ''t''" "TOKEN a7 = CHR ''-''" "TOKEN a8 = CHR ''l''" "TOKEN a9 = CHR ''e''"
    "TOKEN a10 = CHR ''n''" "TOKEN a11 = CHR ''g''" "TOKEN a12 = CHR ''t''" "TOKEN a13 = CHR ''h''"
    using assms by (simp_all add: n)
  have colon: "TOKEN (CHR '':'') = NUL" by (simp add: TOKEN_eq token_of_def)
  show ?thesis unfolding n
    by (simp add: t colon first_state_def header_field_byte_def named_def next_index_def match_field_def match_letter_def
      c_string_at_def Let_def)
qed

end
