(* ===== verification/Http_Messages.thy ===== *)
theory Http_Messages
  imports Http_Names
begin

text \<open>
  Whole messages: the header fields, the status line and the body of a response are handed to
  the client exactly as they were written.
\<close>

section \<open>A client that records what it is told\<close>

datatype event = On_begin | On_status "byte list" | On_field "byte list" | On_value "byte list" | On_headers
  | On_body "byte list" | On_complete

definition tell :: "event \<Rightarrow> event list http_cb" where
  "tell e hp = (0, hp\<lparr>hp_data := hp_data hp @ [e]\<rparr>)"

definition recording :: "event list http_parser_settings" where
  "recording =
     \<lparr>on_message_begin = Some (tell On_begin), on_url = None, on_status = Some (\<lambda>hp bs. tell (On_status bs) hp),
      on_header_field = Some (\<lambda>hp bs. tell (On_field bs) hp), on_header_value = Some (\<lambda>hp bs. tell (On_value bs) hp),
      on_headers_complete = Some (tell On_headers), on_body = Some (\<lambda>hp bs. tell (On_body bs) hp),
      on_message_complete = Some (tell On_complete), on_chunk_header = None, on_chunk_complete = None\<rparr>"

lemma recording_simps [simp]:
  "on_message_begin recording = Some (tell On_begin)" "on_status recording = Some (\<lambda>hp bs. tell (On_status bs) hp)"
  "on_header_field recording = Some (\<lambda>hp bs. tell (On_field bs) hp)"
  "on_header_value recording = Some (\<lambda>hp bs. tell (On_value bs) hp)"
  "on_headers_complete recording = Some (tell On_headers)" "on_body recording = Some (\<lambda>hp bs. tell (On_body bs) hp)"
  "on_message_complete recording = Some (tell On_complete)"
  by (simp_all add: recording_def)

text \<open>The fields of the parser that change while the headers are read.\<close>

definition reading :: "nat \<Rightarrow> 8 word \<Rightarrow> header_states \<Rightarrow> u64 \<Rightarrow> state \<Rightarrow> event list \<Rightarrow> event list http_parser \<Rightarrow> event list http_parser" where
  "reading k i h n s es hp =
     hp\<lparr>hp_nread := of_nat k, hp_index := i, hp_header_state := h, hp_content_length := n, hp_state := s, hp_data := es\<rparr>"

lemma reading_simps [simp]:
  "hp_nread (reading r i h n s es hp) = of_nat r" "hp_index (reading r i h n s es hp) = i"
  "hp_header_state (reading r i h n s es hp) = h" "hp_content_length (reading r i h n s es hp) = n"
  "hp_state (reading r i h n s es hp) = s" "hp_data (reading r i h n s es hp) = es"
  "hp_http_errno (reading r i h n s es hp) = hp_http_errno hp" "hp_flags (reading r i h n s es hp) = hp_flags hp"
  "hp_upgrade (reading r i h n s es hp) = hp_upgrade hp" "hp_method (reading r i h n s es hp) = hp_method hp"
  "hp_status_code (reading r i h n s es hp) = hp_status_code hp" "hp_type (reading r i h n s es hp) = hp_type hp"
  "hp_http_major (reading r i h n s es hp) = hp_http_major hp" "hp_http_minor (reading r i h n s es hp) = hp_http_minor hp"
  "(reading r i h n s es hp)\<lparr>hp_index := i'\<rparr> = reading r i' h n s es hp"
  "(reading r i h n s es hp)\<lparr>hp_header_state := h'\<rparr> = reading r i h' n s es hp"
  "(reading r i h n s es hp)\<lparr>hp_content_length := n'\<rparr> = reading r i h n' s es hp"
  "(reading r i h n s es hp)\<lparr>hp_state := s'\<rparr> = reading r i h n s' es hp"
  "(reading r i h n s es hp)\<lparr>hp_data := es'\<rparr> = reading r i h n s es' hp"
  "(reading r i h n s es hp)\<lparr>hp_status_code := c\<rparr> = reading r i h n s es (hp\<lparr>hp_status_code := c\<rparr>)"
  "(reading r i h n s es hp)\<lparr>hp_http_major := c\<rparr> = reading r i h n s es (hp\<lparr>hp_http_major := c\<rparr>)"
  "(reading r i h n s es hp)\<lparr>hp_http_minor := c\<rparr> = reading r i h n s es (hp\<lparr>hp_http_minor := c\<rparr>)"
  "(reading r i h n s es hp)\<lparr>hp_flags := f\<rparr> = reading r i h n s es (hp\<lparr>hp_flags := f\<rparr>)"
  "(reading r i h n s es hp)\<lparr>hp_upgrade := u\<rparr> = reading r i h n s es (hp\<lparr>hp_upgrade := u\<rparr>)"
  by (simp_all add: reading_def)

lemma named_reading [simp]: "named i' h' (reading r i h n s es hp) = reading r i' h' n s es hp"
  by (simp add: reading_def named_def)

lemma tell_reading [simp]: "tell e (reading r i h n s es hp) = (0, reading r i h n s (es @ [e]) hp)"
  by (simp add: tell_def)

lemma head_states: "PARSING_HEADER s_header_field" "PARSING_HEADER s_header_value_discard_ws" "PARSING_HEADER s_header_value"
  "PARSING_HEADER s_header_almost_done" "PARSING_HEADER s_header_value_lws" "PARSING_HEADER s_headers_almost_done"
  "PARSING_HEADER s_header_field_start"
  by code_simp+

text \<open>One byte more, and the count of the bytes of the head.\<close>

lemma nread_fits: "k \<le> HTTP_MAX_HEADER_SIZE \<Longrightarrow> unat (of_nat k :: u32) = k"
  by (simp add: HTTP_MAX_HEADER_SIZE_def unsigned_of_nat take_bit_nat_eq_self_iff)

lemma nread_reading:
  "hp_nread_update (\<lambda>_. of_nat j) (reading k i h n t es hp) = reading j i h n t es hp"
  by (simp add: reading_def)

lemma head_byte:
  assumes "drop p dat = b # rest" "PARSING_HEADER s" "k < HTTP_MAX_HEADER_SIZE"
  shows "exec_loop st dat False (exec_at (reading k i h n t es hp) s p c m) =
    continue_loop st dat (exec_switch st dat (exec_at (reading (k + 1) i h n t es hp) s p b m))"
proof -
  have "unat (hp_nread (reading k i h n t es hp)) < HTTP_MAX_HEADER_SIZE" using assms(3) by (simp add: nread_suc)
  moreover have "(of_nat k + 1 :: u32) = of_nat (k + 1)" by simp
  ultimately show ?thesis using header_byte [OF assms(1,2), of "reading k i h n t es hp" st c m]
    by (simp only: reading_simps(1) nread_reading)
qed

lemma head_bytes:
  assumes "k + v \<le> HTTP_MAX_HEADER_SIZE"
  shows "COUNT_HEADER_SIZE v (exec_at (reading k i h n t es hp) s p c m) f = f (exec_at (reading (k + v) i h n t es hp) s p c m)"
proof -
  have "(of_nat k + of_nat v :: u32) = of_nat (k + v)" by simp
  then show ?thesis using nread_fits [OF assms] assms
    by (simp only: COUNT_HEADER_SIZE_def Let_def exec_at_simps reading_simps(1) nread_reading) simp
qed

abbreviation (input) no_marks :: "mark \<Rightarrow> nat option" where
  "no_marks \<equiv> \<lambda>_. None"

section \<open>The name of a field\<close>

lemma field_name_first:
  assumes "field_name (c # cs)"
  shows "c \<noteq> CR" "c \<noteq> LF" "TOKEN c \<noteq> NUL"
  using assms by (auto simp: field_name_def TOKEN_eq token_of_def)

text \<open>From the first letter to behind the colon.\<close>

lemma name_read:
  assumes "drop p dat = (c # cs) @ CHR '':'' # rest" "field_name (c # cs)" "hp_http_errno hp = HPE_OK"
    "header_field_loop (named 0 (first_state c) (reading (k + 1) i h n s es hp)) (p + 1) (hd (cs @ [CHR '':''])) (cs @ CHR '':'' # rest)
       = Some (named i' h' (reading (k + 1) i h n s es hp), p + 1 + length cs, CHR '':'')"
    "k + length (c # cs) < HTTP_MAX_HEADER_SIZE"
  shows "exec_loop recording dat True (exec_at (reading k i h n s es hp) s_header_field_start p c no_marks) =
    exec_loop recording dat False (exec_at (reading (k + 1 + length cs) i' h' n s_header_value_discard_ws
       (es @ [On_field (c # cs)]) hp) s_header_value_discard_ws (p + length cs + 2) (CHR '':'') no_marks)"
proof -
  note nm = field_name_first [OF assms(2)]
  have p: "drop p dat = c # (cs @ CHR '':'' # rest)" using assms(1) by simp
  have q: "drop (p + 1) dat = cs @ CHR '':'' # rest" using at_byte [OF p] by simp
  obtain b bs where bs: "cs @ CHR '':'' # rest = b # bs" and b: "hd (cs @ [CHR '':'']) = b" by (cases cs) auto
  have e: "p + 1 + length cs < length dat" using at_byte [OF drop_past [OF q]] by (rule conjunct1)
  have sub: "subbuf p (Suc (length cs)) dat = c # cs" using p by (simp add: subbuf_def)
  have k: "k + 1 < HTTP_MAX_HEADER_SIZE" "k + 1 + length cs < HTTP_MAX_HEADER_SIZE" "k < HTTP_MAX_HEADER_SIZE" using assms(5) by simp_all
  let ?hp = "\<lambda>k. reading k i h n s es hp" and ?m = "(\<lambda>_. None)(M_header_field \<mapsto> p)"
  have "exec_loop recording dat True (exec_at (?hp k) s_header_field_start p c no_marks) =
     exec_loop recording dat False (exec_at (named 0 (first_state c) (?hp k)) s_header_field (p + 1) c ?m)"
    using nm by (subst loop_again)
      (simp add: exec_switch_def on_header_field_start_def Let_def MARK_def first_state_def)
  also have "\<dots> = continue_loop recording dat (on_header_field_name recording dat
       (exec_at (named 0 (first_state c) (?hp (k + 1))) s_header_field (p + 1) b ?m))"
    using k by (simp only: named_reading, subst head_byte [OF q [unfolded bs]]) (simp_all add: head_states exec_switch_def)
  also have "on_header_field_name recording dat (exec_at (named 0 (first_state c) (?hp (k + 1))) s_header_field (p + 1) b ?m)
     = Next (exec_at (reading (k + 1 + length cs) i' h' n s_header_value_discard_ws (es @ [On_field (c # cs)]) hp)
        s_header_value_discard_ws (p + length cs + 1) (CHR '':'') no_marks)"
    using assms(3) assms(4) [unfolded b] e q k sub
      by (simp add: on_header_field_name_def Let_def head_bytes CALLBACK_DATA_def CALLBACK_DATA_at_def
        after_callback_def add.commute add.left_commute add.assoc)
  finally show ?thesis by simp
qed

section \<open>The value of a field\<close>

text \<open>A value written behind one space: it is not empty, starts with no blank and has no line break.\<close>

definition field_value :: "string \<Rightarrow> bool" where
  "field_value v \<longleftrightarrow> v \<noteq> [] \<and> hd v \<noteq> SP \<and> hd v \<noteq> TAB \<and> CR \<notin> set v \<and> LF \<notin> set v"

definition no_flag_state :: "header_states \<Rightarrow> bool" where
  "no_flag_state h \<longleftrightarrow> h \<notin> {h_connection_keep_alive, h_connection_close, h_transfer_encoding_chunked, h_connection_upgrade}"

lemma header_flags_reading [simp]: "no_flag_state h \<Longrightarrow> header_flags (reading r i h n s es hp) = reading r i h n s es hp"
  by (simp add: header_flags_def no_flag_state_def Let_def)

text \<open>
  From behind the colon to the first byte of the next line. \<open>n1\<close> and \<open>n2\<close> are the content length
  after the first byte of the value and after the value.
\<close>

lemma value_read:
  assumes "drop q dat = SP # (v # vs) @ CR # LF # b # rest" "field_value (v # vs)" "hp_http_errno hp = HPE_OK"
    "b \<noteq> SP" "b \<noteq> TAB" "no_flag_state h1" "k + 5 + length vs \<le> HTTP_MAX_HEADER_SIZE"
    "\<And>p r s m. m M_header_value = None \<Longrightarrow> on_header_value_start (exec_at (reading r i h n s es hp) s_header_value_discard_ws p v m) =
       Next (exec_at (reading r 0 h1 n1 s es hp) s_header_value p v (m(M_header_value \<mapsto> p)))"
    "\<And>c. header_value_loop recording dat (q + 2) h1
       (exec_at (reading (k + 3) 0 h1 n1 s es hp) s_header_value (q + 2) c ((\<lambda>_. None)(M_header_value \<mapsto> q + 1)))
       (vs @ CR # LF # b # rest) =
     header_value_loop recording dat (q + 2) h1
       (exec_at (reading (k + 3) 0 h1 n2 s es hp) s_header_value (q + 2 + length vs) c ((\<lambda>_. None)(M_header_value \<mapsto> q + 1)))
       (CR # LF # b # rest)"
  shows "exec_loop recording dat False (exec_at (reading k i h n s es hp) s_header_value_discard_ws q ch (\<lambda>_. None)) =
    exec_loop recording dat True (exec_at (reading (k + 5 + length vs) 0 h1 n2 s_header_almost_done
       (es @ [On_value (v # vs)]) hp) s_header_field_start (q + 4 + length vs) b (\<lambda>_. None))"
proof -
  let ?m = "(\<lambda>_. None)(M_header_value \<mapsto> q + 1)"
  have v: "v \<noteq> SP" "v \<noteq> TAB" "v \<noteq> CR" "v \<noteq> LF" using assms(2) by (auto simp: field_value_def)
  have q0: "drop q dat = SP # (v # vs @ CR # LF # b # rest)" using assms(1) by simp
  have q1: "drop (q + 1) dat = v # (vs @ CR # LF # b # rest)" using at_byte [OF q0] by blast
  have q2: "drop (q + 2) dat = vs @ CR # LF # b # rest" using at_byte [OF q1] by simp
  have q3: "drop (q + 2 + length vs) dat = CR # (LF # b # rest)" using drop_past [OF q2] .
  have q4: "drop (q + 3 + length vs) dat = LF # (b # rest)" using at_byte [OF q3] by (simp add: eval_nat_numeral)
  have q5: "drop (q + 4 + length vs) dat = b # rest" using at_byte [OF q4] by (simp add: eval_nat_numeral)
  obtain c1 bs where c1: "vs @ CR # LF # b # rest = c1 # bs" by (cases vs) auto
  have q2c: "drop (q + 2) dat = c1 # bs" using q2 c1 by simp
  have len: "q + 2 + length vs < length dat" using at_byte [OF q3] by (rule conjunct1)
  have sub: "subbuf (q + 1) (Suc (length vs)) dat = v # vs" using q1 by (simp add: subbuf_def)
  have k: "k < HTTP_MAX_HEADER_SIZE" "k + 1 < HTTP_MAX_HEADER_SIZE" "k + 2 < HTTP_MAX_HEADER_SIZE"
    "k + 3 + length vs < HTTP_MAX_HEADER_SIZE" "k + 4 + length vs < HTTP_MAX_HEADER_SIZE" using assms(7) by simp_all
  have "exec_loop recording dat False (exec_at (reading k i h n s es hp) s_header_value_discard_ws q ch (\<lambda>_. None)) =
      exec_loop recording dat False (exec_at (reading (k + 1) i h n s es hp) s_header_value_discard_ws (q + 1) SP (\<lambda>_. None))"
    using k by (subst head_byte [OF q0]) (simp_all add: head_states exec_switch_def on_header_value_discard_ws_def add.commute)
  also have "\<dots> = exec_loop recording dat False (exec_at (reading (k + 2) 0 h1 n1 s es hp) s_header_value (q + 2) v ?m)"
    using k v by (subst head_byte [OF q1])
      (simp_all add: head_states exec_switch_def on_header_value_discard_ws_def assms(8) add.commute add.left_commute)
  also have "\<dots> = continue_loop recording dat (header_value_loop recording dat (q + 2) h1
      (exec_at (reading (k + 3) 0 h1 n1 s es hp) s_header_value (q + 2) c1 ?m) (vs @ CR # LF # b # rest))"
    using k by (subst head_byte [OF q2 [unfolded c1]])
      (simp_all add: head_states exec_switch_def on_header_value_text_def q2c [unfolded eval_nat_numeral, simplified] c1 eval_nat_numeral)
  also have "header_value_loop recording dat (q + 2) h1
      (exec_at (reading (k + 3) 0 h1 n1 s es hp) s_header_value (q + 2) c1 ?m) (vs @ CR # LF # b # rest) =
    Next (exec_at (reading (k + 3 + length vs) 0 h1 n2 s_header_almost_done (es @ [On_value (v # vs)]) hp)
      s_header_almost_done (q + 2 + length vs) CR (\<lambda>_. None))"
    unfolding assms(9) using assms(3) len k(4) sub
      by (subst header_value_loop.simps) (simp add: Let_def CALLBACK_DATA_def CALLBACK_DATA_at_def after_callback_def
        header_value_end_def head_bytes add.commute add.left_commute add.assoc)
  also have "continue_loop recording dat \<dots> = exec_loop recording dat False (exec_at (reading (k + 3 + length vs) 0 h1 n2
      s_header_almost_done (es @ [On_value (v # vs)]) hp) s_header_almost_done (q + 3 + length vs) CR (\<lambda>_. None))"
    by (simp add: eval_nat_numeral)
  also have "\<dots> = exec_loop recording dat False (exec_at (reading (k + 4 + length vs) 0 h1 n2
      s_header_almost_done (es @ [On_value (v # vs)]) hp) s_header_value_lws (q + 4 + length vs) LF (\<lambda>_. None))"
    using k(4) by (subst head_byte [OF q4])
      (simp_all add: head_states exec_switch_def on_constant_def STRICT_CHECK_def add.commute add.left_commute)
  also have "\<dots> = exec_loop recording dat True (exec_at (reading (k + 5 + length vs) 0 h1 n2
      s_header_almost_done (es @ [On_value (v # vs)]) hp) s_header_field_start (q + 4 + length vs) b (\<lambda>_. None))"
    using k(5) assms(4-6) by (subst head_byte [OF q5])
      (simp_all add: head_states exec_switch_def on_header_value_lws_def add.commute add.left_commute)
  finally show ?thesis .
qed

text \<open>A value that is not interpreted: the parser searches the end of its line at once.\<close>

lemma line_end_text: "length vs < n \<Longrightarrow> CR \<notin> set vs \<Longrightarrow> LF \<notin> set vs \<Longrightarrow> line_end n (vs @ CR # rest) = Some (length vs)"
proof (induction vs arbitrary: n)
  case (Cons v vs)
  then have "line_end (n - 1) (vs @ CR # rest) = Some (length vs)" by simp
  with Cons.prems show ?case by auto
qed simp

lemma loop_char: "header_value_loop st dat a h (exec_at hp s p c m) (b # bs) = header_value_loop st dat a h (exec_at hp s p c' m) (b # bs)"
  by (simp add: header_value_loop.simps(2))

lemma general_text:
  assumes "CR \<notin> set vs" "LF \<notin> set vs" "length vs < HTTP_MAX_HEADER_SIZE"
  shows "header_value_loop st dat a h_general (exec_at hp s p c m) (vs @ CR # rest) =
    header_value_loop st dat a h_general (exec_at hp s (p + length vs) c m) (CR # rest)"
proof (cases vs)
  case (Cons v vs')
  then have ne: "v \<noteq> CR" "v \<noteq> LF" using assms(1,2) by auto
  have "general_skip (v # vs' @ CR # rest) = length vs"
    using line_end_text [OF assms(3,1,2), of rest] by (simp add: general_skip_def Cons)
  then have "header_value_loop st dat a h_general (exec_at hp s p c m) (vs @ CR # rest) =
      header_value_loop st dat a h_general (exec_at hp s (p + length vs) v m) (CR # rest)"
    using assms(1,2) ne by (simp add: header_value_loop.simps(2) [of _ _ _ _ _ v] Let_def Cons)
  then show ?thesis by (simp only: loop_char [of _ _ _ _ _ _ _ v _ CR rest c])
qed simp

text \<open>The digits of a length.\<close>

lemma digit_mono: "v \<le> digits_value v ds"
proof (induction ds arbitrary: v)
  case (Cons d ds)
  have "v \<le> v * 10 + (ord d - 48)" by simp
  also have "\<dots> \<le> digits_value (v * 10 + (ord d - 48)) ds" by (rule Cons)
  finally show ?case by simp
qed simp

lemma digit_byte: "is_digit d \<Longrightarrow> IS_NUM d \<and> d \<noteq> CR \<and> d \<noteq> LF \<and> d \<noteq> SP \<and> d \<noteq> TAB"
  by (auto simp: is_digit_def IS_NUM_def)

lemma length_digit:
  assumes "is_digit d" "hp_content_length hp = of_nat v" "v * 10 + digit_of d < 2 ^ 60"
  shows "header_value_byte d h_content_length hp = Inr (hp\<lparr>hp_content_length := of_nat (v * 10 + digit_of d)\<rparr>, h_content_length)"
proof -
  have "v < 2 ^ 60" using assms(3) by simp
  then have u: "unat (of_nat v :: u64) = v" by (rule unat_small)
  have "(ULLONG_MAX - 10) div 10 = (1844674407370955160 :: u64)" by code_simp
  then have "\<not> (ULLONG_MAX - 10) div 10 < (of_nat v :: u64)" using assms(3) u by (simp add: word_less_nat_alt)
  then show ?thesis using digit_byte [OF assms(1)] assms(2)
    by (simp add: header_value_byte_def content_length_digit_def Let_def)
qed

lemma length_text:
  "list_all is_digit ds \<Longrightarrow> digits_value v ds < 2 ^ 60 \<Longrightarrow>
   header_value_loop st dat a h_content_length (exec_at (reading k i h (of_nat v) t es hp) s p c m) (ds @ CR # rest) =
   header_value_loop st dat a h_content_length
     (exec_at (reading k i h (of_nat (digits_value v ds)) t es hp) s (p + length ds) c m) (CR # rest)"
proof (induction ds arbitrary: v p c)
  case (Cons d ds)
  then have d: "is_digit d" by simp
  note b = digit_byte [OF d]
  let ?hp = "reading k i h (of_nat v) t es hp" and ?v = "v * 10 + digit_of d"
  have v: "?v < 2 ^ 60" using digit_mono [of ?v ds] Cons.prems(2) d by (simp add: digit_of_def)
  from length_digit [OF d _ v, of ?hp]
  have "header_value_loop st dat a h_content_length (exec_at ?hp s p c m) ((d # ds) @ CR # rest) =
      header_value_loop st dat a h_content_length (exec_at (reading k i h (of_nat ?v) t es hp) s (p + 1) d m) (ds @ CR # rest)"
    using b by (simp add: header_value_loop.simps(2) [of _ _ _ _ _ d] Let_def)
  also have "\<dots> = header_value_loop st dat a h_content_length
     (exec_at (reading k i h (of_nat (digits_value v (d # ds))) t es hp) s (p + 1 + length ds) d m) (CR # rest)"
    using Cons.IH [of ?v "p + 1" d] Cons.prems by (simp add: digit_of_def)
  finally show ?case by (simp only: loop_char [of _ _ _ _ _ _ _ d _ CR rest c]) simp
qed simp

section \<open>The fields of a head\<close>

text \<open>
  The fields considered here: those whose name is not interpreted, and \<open>Content-Length\<close> in any
  case of letters with a number below \<open>2 ^ 60\<close>.
\<close>

type_synonym field = "byte list \<times> byte list"

definition is_length :: "field \<Rightarrow> bool" where
  "is_length f \<longleftrightarrow> map TOKEN (fst f) = ''content-length''"

definition written_field :: "field \<Rightarrow> bool" where
  "written_field f \<longleftrightarrow> field_value (snd f) \<and>
     (plain_name (fst f) \<or> is_length f \<and> list_all is_digit (snd f) \<and> digits_value 0 (snd f) < 2 ^ 60)"

definition field_text :: "field \<Rightarrow> byte list" where
  "field_text f = fst f @ CHR '':'' # SP # snd f @ [CR, LF]"

definition field_length :: "field \<Rightarrow> u64 \<Rightarrow> u64" where
  "field_length f n = (if is_length f then of_nat (digits_value 0 (snd f)) else n)"

lemma written_name:
  assumes "written_field f" shows "field_name (fst f)"
proof -
  have "field_name nm" if "map TOKEN nm = ''content-length''" for nm
  proof -
    have "NUL \<notin> set (map TOKEN nm)" "nm \<noteq> []" using that by auto
    then show ?thesis by (auto simp: field_name_def list_all_iff image_iff)
  qed
  then show ?thesis using assms by (auto simp: written_field_def is_length_def plain_name_def)
qed

text \<open>A name is read to a state of the header and an index, which decide what the value means.\<close>

lemma written_name_read:
  assumes "written_field f" "fst f = c # cs"
  shows "\<exists>i' h'. header_field_loop (named 0 (first_state c) hp) q ch (cs @ CHR '':'' # rest)
      = Some (named i' h' hp, q + length cs, CHR '':'') \<and>
    (if is_length f then h' = h_content_length else general_state h')"
proof (cases "is_length f")
  case True
  then show ?thesis using content_length_matched [of "fst f" hp q ch rest] assms(2)
    by (intro exI [of _ 13] exI [of _ h_content_length]) (simp add: is_length_def)
next
  case False
  have "list_all (\<lambda>c. TOKEN c \<noteq> NUL) cs" using written_name [OF assms(1)] assms(2) by (simp add: field_name_def)
  from header_field_loop_name [OF this first_seen [of c hp], of q ch rest] obtain i' h' where
    "header_field_loop (named 0 (first_state c) hp) q ch (cs @ CHR '':'' # rest) = Some (named i' h' hp, q + length cs, CHR '':'')"
    "name_seen (map TOKEN (fst f)) (named i' h' hp)" by (auto simp: assms(2))
  moreover have "plain_name (fst f)" using assms(1) False by (simp add: written_field_def)
  ultimately show ?thesis using plain_name_general [of "fst f" "named i' h' hp"] False by (auto simp: named_def)
qed

text \<open>The value is read by what its name was.\<close>

lemma written_value_read:
  assumes "written_field f" "if is_length f then h = h_content_length else general_state h"
    "drop q dat = SP # snd f @ CR # LF # b # rest" "hp_http_errno hp = HPE_OK" "b \<noteq> SP" "b \<noteq> TAB"
    "k + 4 + length (snd f) \<le> HTTP_MAX_HEADER_SIZE"
  shows "\<exists>h'. exec_loop recording dat False (exec_at (reading k i h n s es hp) s_header_value_discard_ws q ch (\<lambda>_. None)) =
    exec_loop recording dat True (exec_at (reading (k + 4 + length (snd f)) 0 h' (field_length f n) s_header_almost_done
       (es @ [On_value (snd f)]) hp) s_header_field_start (q + 3 + length (snd f)) b (\<lambda>_. None))"
proof -
  have v: "field_value (snd f)" using assms(1) by (simp add: written_field_def)
  then obtain v vs where vs: "snd f = v # vs" by (cases "snd f") (auto simp: field_value_def)
  have line: "drop q dat = SP # (v # vs) @ CR # LF # b # rest" using assms(3) by (simp add: vs)
  have size: "k + 5 + length vs \<le> HTTP_MAX_HEADER_SIZE" using assms(7) by (simp add: vs)
  have len: "k + 4 + length (snd f) = k + 5 + length vs" "q + 3 + length (snd f) = q + 4 + length vs" by (simp_all add: vs)
  note read = value_read [OF line v [unfolded vs] assms(4-6) _ size]
  show ?thesis
  proof (cases "is_length f")
    case True
    with assms(1,2) have f: "h = h_content_length" "is_digit v" "list_all is_digit vs"
        "digits_value (digit_of v) vs < 2 ^ 60"
      by (auto simp: written_field_def plain_name_def is_length_def vs digit_of_def)
    have nf: "no_flag_state h_content_length" by (simp add: no_flag_state_def)
    have st: "on_header_value_start (exec_at (reading r i h n s es hp) s_header_value_discard_ws p v m) =
       Next (exec_at (reading r 0 h_content_length (of_nat (digit_of v)) s es hp) s_header_value p v (m(M_header_value \<mapsto> p)))"
      if "m M_header_value = None" for p r s m
      using f(1) digit_byte [OF f(2)] that by (simp add: on_header_value_start_def MARK_def Let_def)
    from read [OF nf st length_text [OF f(3,4)]]
    have "exec_loop recording dat False (exec_at (reading k i h n s es hp) s_header_value_discard_ws q ch (\<lambda>_. None)) =
      exec_loop recording dat True (exec_at (reading (k + 5 + length vs) 0 h_content_length (of_nat (digits_value (digit_of v) vs))
        s_header_almost_done (es @ [On_value (v # vs)]) hp) s_header_field_start (q + 4 + length vs) b (\<lambda>_. None))" .
    moreover have "field_length f n = of_nat (digits_value (digit_of v) vs)"
      using True f(2) by (simp add: field_length_def vs digit_of_def)
    ultimately show ?thesis unfolding len vs [symmetric] by (intro exI) simp
  next
    case False
    have t: "CR \<notin> set vs" "LF \<notin> set vs" "length vs < HTTP_MAX_HEADER_SIZE"
      using v size by (auto simp: vs field_value_def)
    have nf: "no_flag_state h_general" by (simp add: no_flag_state_def)
    have st: "on_header_value_start (exec_at (reading r i h n s es hp) s_header_value_discard_ws p v m) =
       Next (exec_at (reading r 0 h_general n s es hp) s_header_value p v (m(M_header_value \<mapsto> p)))"
      if "m M_header_value = None" for p r s m
      using False assms(2) that by (simp add: on_header_value_start_def MARK_def Let_def general_state_def)
    from read [OF nf st general_text [OF t]]
    have "exec_loop recording dat False (exec_at (reading k i h n s es hp) s_header_value_discard_ws q ch (\<lambda>_. None)) =
      exec_loop recording dat True (exec_at (reading (k + 5 + length vs) 0 h_general n
        s_header_almost_done (es @ [On_value (v # vs)]) hp) s_header_field_start (q + 4 + length vs) b (\<lambda>_. None))" .
    moreover have "field_length f n = n" using False by (simp add: field_length_def)
    ultimately show ?thesis unfolding len vs [symmetric] by (intro exI) simp
  qed
qed

lemma field_read:
  assumes "written_field f" "drop p dat = field_text f @ b # rest" "hp_http_errno hp = HPE_OK" "b \<noteq> SP" "b \<noteq> TAB"
    "k + length (field_text f) \<le> HTTP_MAX_HEADER_SIZE"
  shows "\<exists>i' h' s'. exec_loop recording dat True (exec_at (reading k i h n s es hp) s_header_field_start p (hd (fst f)) no_marks) =
    exec_loop recording dat True (exec_at (reading (k + length (field_text f)) i' h' (field_length f n) s'
      (es @ [On_field (fst f), On_value (snd f)]) hp) s_header_field_start (p + length (field_text f)) b no_marks)"
proof -
  obtain c cs where c: "fst f = c # cs" using written_name [OF assms(1)] by (cases "fst f") (auto simp: field_name_def)
  let ?rest = "SP # snd f @ CR # LF # b # rest"
  have line: "drop p dat = (c # cs) @ CHR '':'' # ?rest" using assms(2) by (simp add: field_text_def c)
  have len: "length (field_text f) = length cs + length (snd f) + 5" by (simp add: field_text_def c)
  from written_name_read [OF assms(1) c, of "reading (k + 1) i h n s es hp" "p + 1" "hd (cs @ [CHR '':''])" ?rest] obtain i' h' where
    n: "header_field_loop (named 0 (first_state c) (reading (k + 1) i h n s es hp)) (p + 1) (hd (cs @ [CHR '':''])) (cs @ CHR '':'' # ?rest)
      = Some (named i' h' (reading (k + 1) i h n s es hp), p + 1 + length cs, CHR '':'')"
    and h': "if is_length f then h' = h_content_length else general_state h'" by blast
  have "k + length (c # cs) < HTTP_MAX_HEADER_SIZE" using assms(6) by (simp add: len)
  from name_read [OF line _ assms(3) n this] written_name [OF assms(1)]
  have first: "exec_loop recording dat True (exec_at (reading k i h n s es hp) s_header_field_start p c no_marks) =
    exec_loop recording dat False (exec_at (reading (k + 1 + length cs) i' h' n s_header_value_discard_ws
       (es @ [On_field (c # cs)]) hp) s_header_value_discard_ws (p + length cs + 2) (CHR '':'') no_marks)"
    by (simp add: c)
  have q: "drop (p + length cs + 2) dat = ?rest"
    using drop_past [of p dat "c # cs @ [CHR '':'']" ?rest] line by simp
  have "k + 1 + length cs + 4 + length (snd f) \<le> HTTP_MAX_HEADER_SIZE" using assms(6) by (simp add: len)
  from written_value_read [OF assms(1) h' q assms(3-5) this, of i' n s_header_value_discard_ws "es @ [On_field (c # cs)]" "CHR '':''"]
  obtain h2 where "exec_loop recording dat True (exec_at (reading k i h n s es hp) s_header_field_start p c no_marks) =
      exec_loop recording dat True (exec_at (reading (k + 1 + length cs + 4 + length (snd f)) 0 h2 (field_length f n) s_header_almost_done
       ((es @ [On_field (c # cs)]) @ [On_value (snd f)]) hp) s_header_field_start (p + length cs + 2 + 3 + length (snd f)) b no_marks)"
    unfolding first by blast
  then show ?thesis unfolding len c
    by (intro exI [of _ 0] exI [of _ h2] exI [of _ s_header_almost_done]) (simp add: eval_nat_numeral add.assoc)
qed

end
