(* ===== verification/Http_Responses.thy ===== *)
theory Http_Responses
  imports Http_Messages
begin

text \<open>
  A response read from its first byte to its last: the status line, the fields, the end of the
  head, and a body of the announced length.
\<close>

section \<open>The fields, one after the other\<close>

definition fields_text :: "field list \<Rightarrow> byte list" where
  "fields_text fs = concat (map field_text fs)"

definition fields_told :: "field list \<Rightarrow> event list" where
  "fields_told fs = concat (map (\<lambda>f. [On_field (fst f), On_value (snd f)]) fs)"

lemma fields_read:
  "\<forall>f \<in> set fs. written_field f \<Longrightarrow> drop p dat = fields_text fs @ b # rest \<Longrightarrow> hp_http_errno hp = HPE_OK \<Longrightarrow>
   b \<noteq> SP \<Longrightarrow> b \<noteq> TAB \<Longrightarrow> k + length (fields_text fs) \<le> HTTP_MAX_HEADER_SIZE \<Longrightarrow>
   \<exists>i' h' s'. exec_loop recording dat True (exec_at (reading k i h n s es hp) s_header_field_start p (hd (fields_text fs @ [b])) (\<lambda>_. None)) =
    exec_loop recording dat True (exec_at (reading (k + length (fields_text fs)) i' h' (fold field_length fs n) s'
      (es @ fields_told fs) hp) s_header_field_start (p + length (fields_text fs)) b (\<lambda>_. None))"
proof (induction fs arbitrary: p k i h n s es)
  case Nil
  show ?case by (intro exI [of _ i] exI [of _ h] exI [of _ s]) (simp add: fields_text_def fields_told_def)
next
  case (Cons f fs)
  define b' rest' where "b' = hd (fields_text fs @ [b])" and "rest' = tl (fields_text fs @ [b]) @ rest"
  have next_line: "fields_text fs @ b # rest = b' # rest'" by (cases "fields_text fs") (simp_all add: b'_def rest'_def)
  have f: "written_field f" "field_name (fst f)" using Cons.prems(1) written_name [of f] by simp_all
  have text1: "drop p dat = field_text f @ b' # rest'" using Cons.prems(2) by (simp add: fields_text_def flip: next_line)
  have b': "b' \<noteq> SP \<and> b' \<noteq> TAB"
  proof (cases fs)
    case Nil
    then show ?thesis using Cons.prems(4,5) by (simp add: b'_def fields_text_def)
  next
    case (Cons g gs)
    then have "field_name (fst g)" using \<open>\<forall>f \<in> set (f # fs). written_field f\<close> written_name [of g] by simp
    then show ?thesis by (cases "fst g") (auto simp: b'_def fields_text_def Cons field_text_def field_name_def TOKEN_eq token_of_def)
  qed
  have hd: "hd (fields_text (f # fs) @ [b]) = hd (fst f)"
    using f(2) by (cases "fst f") (simp_all add: fields_text_def field_text_def field_name_def)
  have "k + length (field_text f) \<le> HTTP_MAX_HEADER_SIZE" using Cons.prems(6) by (simp add: fields_text_def)
  from field_read [OF f(1) text1 Cons.prems(3) b' [THEN conjunct1] b' [THEN conjunct2] this, of i h n s es] obtain i1 h1 s1 where
    one: "exec_loop recording dat True (exec_at (reading k i h n s es hp) s_header_field_start p (hd (fst f)) (\<lambda>_. None)) =
      exec_loop recording dat True (exec_at (reading (k + length (field_text f)) i1 h1 (field_length f n) s1
        (es @ [On_field (fst f), On_value (snd f)]) hp) s_header_field_start (p + length (field_text f)) b' (\<lambda>_. None))"
    by blast
  have text2: "drop (p + length (field_text f)) dat = fields_text fs @ b # rest" unfolding next_line by (rule drop_past [OF text1])
  have "\<forall>f \<in> set fs. written_field f" "k + length (field_text f) + length (fields_text fs) \<le> HTTP_MAX_HEADER_SIZE"
    using Cons.prems(1,6) by (simp_all add: fields_text_def)
  from Cons.IH [OF this(1) text2 Cons.prems(3-5) this(2), of i1 h1 "field_length f n" s1 "es @ [On_field (fst f), On_value (snd f)]"]
  show ?case unfolding hd one b'_def by (simp add: fields_text_def fields_told_def add.assoc)
qed

section \<open>The end of the head\<close>

text \<open>A response that announces neither chunks nor an upgrade.\<close>

definition plain_response :: "'d http_parser \<Rightarrow> bool" where
  "plain_response hp \<longleftrightarrow> hp_http_errno hp = HPE_OK \<and> hp_flags hp = 0 \<and> \<not> hp_upgrade hp \<and> hp_method hp \<noteq> HTTP_CONNECT"

lemma head_end:
  assumes "drop p dat = CR # LF # rest" "plain_response hp" "k < HTTP_MAX_HEADER_SIZE"
  shows "exec_loop recording dat True (exec_at (reading k i h n s es hp) s_header_field_start p CR (\<lambda>_. None)) =
    exec_loop recording dat True (exec_at (reading (k + 1) i h n s (es @ [On_headers]) hp) s_headers_done (p + 1) LF (\<lambda>_. None))"
proof -
  have q: "drop (p + 1) dat = LF # rest" using at_byte [OF assms(1)] by simp
  have up: "hp\<lparr>hp_upgrade := False\<rparr> = hp" using assms(2) by (simp add: plain_response_def)
  have "F_UPGRADE OR F_CONNECTION_UPGRADE \<noteq> 0" by (simp add: F_UPGRADE_def F_CONNECTION_UPGRADE_def)
  then have "\<not> wants_upgrade (reading (k + 1) i h n s es hp)"
    using assms(2) by (simp add: wants_upgrade_def plain_response_def)
  then have up: "(\<lambda>hp. hp\<lparr>hp_upgrade := wants_upgrade hp\<rparr>) (reading (k + 1) i h n s es hp) = reading (k + 1) i h n s es hp"
    using up by simp
  have "exec_loop recording dat True (exec_at (reading k i h n s es hp) s_header_field_start p CR (\<lambda>_. None)) =
      exec_loop recording dat False (exec_at (reading k i h n s es hp) s_headers_almost_done (p + 1) CR (\<lambda>_. None))"
    by (subst loop_again) (simp add: exec_switch_def on_header_field_start_def)
  also have "\<dots> = continue_loop recording dat (headers_complete recording
      (exec_at (reading (k + 1) i h n s es hp) s_headers_done (p + 1) LF (\<lambda>_. None)))"
    using assms(2) by (subst head_byte [OF q head_states(6) assms(3)])
      (simp only: exec_switch_def exec_at_simps state.case on_headers_almost_done_def STRICT_CHECK_def up, simp add: plain_response_def)
  also have "headers_complete recording (exec_at (reading (k + 1) i h n s es hp) s_headers_done (p + 1) LF (\<lambda>_. None)) =
      Reexec (exec_at (reading (k + 1) i h n s (es @ [On_headers]) hp) s_headers_done (p + 1) LF (\<lambda>_. None))"
    using assms(2) by (simp add: headers_complete_def plain_response_def)
  finally show ?thesis by simp
qed

section \<open>The body and the end of the message\<close>

definition body_told :: "byte list \<Rightarrow> event list" where
  "body_told body = (if body = [] then [] else [On_body body])"

lemma new_message_reading: "NEW_MESSAGE (reading k i h n s es hp) = NEW_MESSAGE (reading k' i' h' n s' es' hp)"
  by (simp add: NEW_MESSAGE_def http_should_keep_alive_def http_message_needs_eof_def start_state_def)

text \<open>The last byte of the message is at the end of the data.\<close>

lemma message_told:
  assumes "plain_response hp" "p + 1 = length dat"
  shows "continue_loop recording dat (message_complete recording (exec_at (reading 0 i h n t es hp) s p c (\<lambda>_. None)) Next) =
    Some (Returned (length dat) (reading 0 i h n (NEW_MESSAGE (reading 0 i h n t es hp)) (es @ [On_complete]) hp))"
proof -
  let ?s = "NEW_MESSAGE (reading 0 i h n t es hp)"
  have "continue_loop recording dat (message_complete recording (exec_at (reading 0 i h n t es hp) s p c (\<lambda>_. None)) Next) =
    exec_loop recording dat False (exec_at (reading 0 i h n ?s (es @ [On_complete]) hp) ?s (p + 1) c (\<lambda>_. None))"
    using assms(1) by (simp add: message_complete_def CALLBACK_NOTIFY_def CALLBACK_NOTIFY_at_def after_callback_def
      plain_response_def)
  also have "\<dots> = Some (Returned (length dat) (reading 0 i h n ?s (es @ [On_complete]) hp))"
    using assms by (subst exec_loop.simps) (simp add: exec_end_def marks_set_def CALLBACK_DATA_NOADVANCE_def
      CALLBACK_DATA_at_def RETURN_def plain_response_def)
  finally show ?thesis .
qed

lemma message_end:
  assumes "plain_response hp" "drop p dat = LF # body" "length body < 2 ^ 60"
  shows "\<exists>s'. exec_loop recording dat True (exec_at (reading k i h (of_nat (length body)) s es hp) s_headers_done p LF (\<lambda>_. None)) =
      Some (Returned (length dat) (reading 0 i h 0 s' (es @ body_told body @ [On_complete]) hp)) \<and>
    s' = NEW_MESSAGE (reading 0 i h 0 s' (es @ body_told body @ [On_complete]) hp)"
proof -
  have q: "drop (p + 1) dat = body" using at_byte [OF assms(2)] by simp
  have e: "p + 1 + length body = length dat" using q at_byte [OF assms(2)] by auto
  have zero: "(reading k i h n s es hp)\<lparr>hp_nread := 0\<rparr> = reading 0 i h n s es hp" for n by (simp add: reading_def)
  have first: "exec_loop recording dat True (exec_at (reading k i h n s es hp) s_headers_done p LF (\<lambda>_. None)) =
      continue_loop recording dat
       (if n = 0 then message_complete recording (exec_at (reading 0 i h n s es hp) s_headers_done p LF (\<lambda>_. None)) Next
        else if n \<noteq> ULLONG_MAX then Next (exec_at (reading 0 i h n s es hp) s_body_identity p LF (\<lambda>_. None))
        else on_headers_done recording (exec_at (reading k i h n s es hp) s_headers_done p LF (\<lambda>_. None)))" for n
    using assms(1) by (subst loop_again)
      (simp add: exec_switch_def on_headers_done_def STRICT_CHECK_def zero plain_response_def Let_def)
  show ?thesis
  proof (cases body)
    case Nil
    then show ?thesis using message_told [OF assms(1), of p dat] e
      by (intro exI conjI) (simp add: first body_told_def, rule new_message_reading)
  next
    case (Cons b bs)
    let ?n = "of_nat (length body) :: u64" and ?m = "(\<lambda>_. None)(M_body \<mapsto> p + 1)"
    have ne_body: "body \<noteq> []" using Cons by simp
    have u: "unat ?n = length body" using assms(3) by (rule unat_small)
    have ne: "?n \<noteq> 0" "?n \<noteq> ULLONG_MAX"
      using u assms(3) ne_body by (auto simp: ULLONG_MAX_def unsigned_minus_1_eq_mask mask_eq_exp_minus_1)
    have nb: "\<not> PARSING_HEADER s_body_identity" by code_simp
    have r: "drop (p + 1) dat = b # bs" using q Cons by simp
    have sub: "subbuf (p + 1) (length dat - (p + 1)) dat = body" unfolding subbuf_def q by (simp add: q [symmetric])
    have size: "body_to_read dat (exec_at (reading 0 i h ?n s es hp) t (p + 1) c m) = length body" for t c m
      using u e by (simp add: body_to_read_def)
    have last: "p + 1 + length body - 1 = p + length body" "p + length body + 1 = length dat" using e by simp_all
    have "exec_loop recording dat True (exec_at (reading k i h ?n s es hp) s_headers_done p LF (\<lambda>_. None)) =
      exec_loop recording dat False (exec_at (reading 0 i h ?n s es hp) s_body_identity (p + 1) LF (\<lambda>_. None))"
      using ne by (simp add: first)
    also have "\<dots> = continue_loop recording dat (on_body_identity recording dat
        (exec_at (reading 0 i h ?n s es hp) s_body_identity (p + 1) b (\<lambda>_. None)))"
      by (subst body_byte [OF r nb]) (simp add: exec_switch_def)
    also have "read_body dat (exec_at (reading 0 i h ?n s es hp) s_body_identity (p + 1) b (\<lambda>_. None)) =
        exec_at (reading 0 i h 0 s es hp) s_body_identity (p + length body) b ?m"
      using size last by (simp add: read_body_def Let_def MARK_def)
    then have "on_body_identity recording dat (exec_at (reading 0 i h ?n s es hp) s_body_identity (p + 1) b (\<lambda>_. None)) =
        Reexec (exec_at (reading 0 i h 0 s_message_done (es @ [On_body body]) hp) s_message_done (p + length body) b (\<lambda>_. None))"
      using ne assms(1) last sub by (simp add: on_body_identity_def CALLBACK_DATA_at_def after_callback_def plain_response_def Let_def)
    also have "continue_loop recording dat \<dots> = continue_loop recording dat (message_complete recording
        (exec_at (reading 0 i h 0 s_message_done (es @ [On_body body]) hp) s_message_done (p + length body) b (\<lambda>_. None)) Next)"
      using assms(1) by (simp, subst loop_again) (simp add: exec_switch_def on_message_done_def message_complete_def
        CALLBACK_NOTIFY_def CALLBACK_NOTIFY_at_def after_callback_def plain_response_def)
    also have "\<dots> = Some (Returned (length dat) (reading 0 i h 0 (NEW_MESSAGE (reading 0 i h 0 s_message_done (es @ [On_body body]) hp))
        ((es @ [On_body body]) @ [On_complete]) hp))"
      by (rule message_told [OF assms(1) last(2)])
    finally show ?thesis using Cons by (intro exI conjI) (simp add: body_told_def, rule new_message_reading)
  qed
qed

section \<open>The status line\<close>

definition status_text :: "byte \<Rightarrow> byte \<Rightarrow> byte list \<Rightarrow> byte list \<Rightarrow> byte list" where
  "status_text major minor code reason = ''HTTP/'' @ [major, CHR ''.'', minor, SP] @ code @ [SP] @ reason @ [CR, LF]"

definition status_told :: "byte list \<Rightarrow> event list" where
  "status_told reason = (if reason = [] then [] else [On_status reason])"

text \<open>A step that stays in the head.\<close>

lemma head_next:
  assumes "PARSING_HEADER s" "k < HTTP_MAX_HEADER_SIZE" "p < length dat" "k' = k + 1" "p' = p + 1"
    "exec_switch st dat (exec_at (reading k' i h n t es hp) s p (dat ! p) m) =
       Next (exec_at (reading k' i' h' n' t' es' hp') s' p (dat ! p) m')"
  shows "exec_loop st dat False (exec_at (reading k i h n t es hp) s p c m) =
    exec_loop st dat False (exec_at (reading k' i' h' n' t' es' hp') s' p' (dat ! p) m')"
  using head_byte [OF Cons_nth_drop_Suc [OF assms(3), symmetric] assms(1,2), of st i h n t es hp c m] assms(4-6)
  by simp

lemma line_states: "PARSING_HEADER s_start_res" "PARSING_HEADER s_res_H" "PARSING_HEADER s_res_HT" "PARSING_HEADER s_res_HTT"
  "PARSING_HEADER s_res_HTTP" "PARSING_HEADER s_res_first_http_major" "PARSING_HEADER s_res_http_major"
  "PARSING_HEADER s_res_first_http_minor" "PARSING_HEADER s_res_http_minor" "PARSING_HEADER s_res_first_status_code"
  "PARSING_HEADER s_res_status_code" "PARSING_HEADER s_res_status_start" "PARSING_HEADER s_res_status"
  "PARSING_HEADER s_res_line_almost_done"
  by code_simp+

lemma small_head: "k < 81920 \<Longrightarrow> k < HTTP_MAX_HEADER_SIZE"
  by (simp add: HTTP_MAX_HEADER_SIZE_def)

definition response_parser :: "byte \<Rightarrow> byte \<Rightarrow> nat \<Rightarrow> 'd http_parser \<Rightarrow> 'd http_parser" where
  "response_parser major minor code hp = hp\<lparr>hp_flags := 0, hp_http_major := of_nat (digit_of major),
     hp_http_minor := of_nat (digit_of minor), hp_status_code := of_nat code\<rparr>"

lemma version_read:
  assumes "take 9 dat = ''HTTP/'' @ [major, CHR ''.'', minor, SP]" "is_digit major" "is_digit minor" "hp_http_errno hp = HPE_OK"
  shows "\<exists>c. exec_loop recording dat False (exec_at (reading 0 i h n s_start_res es hp) s_start_res 0 NUL (\<lambda>_. None)) =
    exec_loop recording dat False (exec_at (reading 9 i h ULLONG_MAX s_res_H (es @ [On_begin])
      (hp\<lparr>hp_flags := 0, hp_http_major := of_nat (digit_of major), hp_http_minor := of_nat (digit_of minor)\<rparr>))
      s_res_first_status_code 9 c (\<lambda>_. None))"
proof -
  obtain rest where dat: "dat = ''HTTP/'' @ [major, CHR ''.'', minor, SP] @ rest"
    using assms(1) append_take_drop_id [of 9 dat] by (metis append.assoc)
  let ?m = "\<lambda>_. None :: nat option" and ?f = "hp\<lparr>hp_flags := 0\<rparr>"
  let ?g = "?f\<lparr>hp_http_major := of_nat (digit_of major)\<rparr>"
  let ?at = "\<lambda>k hp s c. exec_loop recording dat False (exec_at (reading k i h ULLONG_MAX s_res_H (es @ [On_begin]) hp) s k c ?m)"
  have d: "major \<noteq> CHR ''.''" "IS_NUM major" "IS_NUM minor" using assms(2,3) by (auto simp: is_digit_def IS_NUM_def)
  have "exec_loop recording dat False (exec_at (reading 0 i h n s_start_res es hp) s_start_res 0 NUL ?m) = ?at 1 ?f s_res_H (dat ! 0)"
    by (rule head_next [OF line_states(1) small_head]) (simp_all add: assms(4) dat exec_switch_def on_start_res_def
      fresh_message_def CALLBACK_NOTIFY_def CALLBACK_NOTIFY_at_def after_callback_def)
  also have "\<dots> = ?at 2 ?f s_res_HT (dat ! 1)"
    by (rule head_next [OF line_states(2) small_head]) (simp_all add: dat exec_switch_def on_constant_def STRICT_CHECK_def)
  also have "\<dots> = ?at 3 ?f s_res_HTT (dat ! 2)"
    by (rule head_next [OF line_states(3) small_head]) (simp_all add: dat exec_switch_def on_constant_def STRICT_CHECK_def)
  also have "\<dots> = ?at 4 ?f s_res_HTTP (dat ! 3)"
    by (rule head_next [OF line_states(4) small_head]) (simp_all add: dat exec_switch_def on_constant_def STRICT_CHECK_def)
  also have "\<dots> = ?at 5 ?f s_res_first_http_major (dat ! 4)"
    by (rule head_next [OF line_states(5) small_head]) (simp_all add: dat exec_switch_def on_constant_def STRICT_CHECK_def)
  also have "\<dots> = ?at 6 ?g s_res_http_major (dat ! 5)"
    by (rule head_next [OF line_states(6) small_head]) (simp_all add: d dat exec_switch_def on_res_first_http_major_def)
  also have "\<dots> = ?at 7 ?g s_res_first_http_minor (dat ! 6)"
    by (rule head_next [OF line_states(7) small_head]) (simp_all add: dat exec_switch_def on_http_major_def)
  also have "\<dots> = ?at 8 (?g\<lparr>hp_http_minor := of_nat (digit_of minor)\<rparr>) s_res_http_minor (dat ! 7)"
    by (rule head_next [OF line_states(8) small_head]) (simp_all add: d dat exec_switch_def on_first_http_minor_def)
  also have "\<dots> = ?at 9 (?g\<lparr>hp_http_minor := of_nat (digit_of minor)\<rparr>) s_res_first_status_code (dat ! 8)"
    by (rule head_next [OF line_states(9) small_head]) (simp_all add: dat exec_switch_def on_res_http_minor_def)
  finally show ?thesis by auto
qed

text \<open>One digit more of the status.\<close>

lemma code_digit:
  assumes "is_digit d" "hp_status_code hp = of_nat v" "v * 10 + digit_of d \<le> 999" "hp' = hp\<lparr>hp_status_code := of_nat (v * 10 + digit_of d)\<rparr>"
  shows "on_res_status_code (exec_at (reading k i h n t es hp) s p d m) = Next (exec_at (reading k i h n t es hp') s p d m)"
proof -
  have "unat (of_nat (v * 10 + digit_of d) :: 16 word) = v * 10 + digit_of d"
    using assms(3) by (simp only: unat_of_nat) simp
  then have "\<not> 999 < (of_nat (v * 10 + digit_of d) :: 16 word)" using assms(3) by (simp add: word_less_nat_alt)
  then show ?thesis using digit_byte [OF assms(1)] assms(2,4) by (simp add: on_res_status_code_def Let_def)
qed

lemma code_read:
  assumes "drop p dat = [d1, d2, d3, SP] @ rest" "list_all is_digit [d1, d2, d3]" "k + 3 < HTTP_MAX_HEADER_SIZE"
  shows "\<exists>c. exec_loop recording dat False (exec_at (reading k i h n t es hp) s_res_first_status_code p b (\<lambda>_. None)) =
    exec_loop recording dat False (exec_at (reading (k + 4) i h n t es
      (hp\<lparr>hp_status_code := of_nat (digits_value 0 [d1, d2, d3])\<rparr>)) s_res_status_start (p + 4) c (\<lambda>_. None))"
proof -
  let ?m = "\<lambda>_. None :: nat option" and ?hp = "\<lambda>v. hp\<lparr>hp_status_code := of_nat v\<rparr>"
  define v1 v2 v3 where "v1 = digit_of d1" and "v2 = v1 * 10 + digit_of d2" and "v3 = v2 * 10 + digit_of d3"
  have d: "is_digit d1" "is_digit d2" "is_digit d3" using assms(2) by simp_all
  have p: "p + 4 \<le> length dat" "dat ! p = d1" "dat ! (p + 1) = d2" "dat ! (p + 2) = d3" "dat ! (p + 3) = SP"
    using arg_cong [OF assms(1), of "length"] arg_cong [OF assms(1), of "\<lambda>l. l ! 0"] arg_cong [OF assms(1), of "\<lambda>l. l ! 1"]
      arg_cong [OF assms(1), of "\<lambda>l. l ! 2"] arg_cong [OF assms(1), of "\<lambda>l. l ! 3"] by auto
  have "digit_of d1 \<le> 9" "digit_of d2 \<le> 9" "digit_of d3 \<le> 9" using d by (auto simp: digit_of_def is_digit_def)
  then have small: "v1 * 10 + digit_of d2 \<le> 999" "v2 * 10 + digit_of d3 \<le> 999" by (simp_all add: v1_def v2_def)
  have c2: "on_res_status_code (exec_at (reading k i h n t es (?hp v1)) s p d2 ?m) = Next (exec_at (reading k i h n t es (?hp v2)) s p d2 ?m)" for k s p
    by (rule code_digit [OF d(2) _ small(1)]) (simp_all add: v2_def)
  have c3: "on_res_status_code (exec_at (reading k i h n t es (?hp v2)) s p d3 ?m) = Next (exec_at (reading k i h n t es (?hp v3)) s p d3 ?m)" for k s p
    by (rule code_digit [OF d(3) _ small(2)]) (simp_all add: v3_def)
  have "exec_loop recording dat False (exec_at (reading k i h n t es hp) s_res_first_status_code p b ?m) =
      exec_loop recording dat False (exec_at (reading (k + 1) i h n t es (?hp v1)) s_res_status_code (p + 1) d1 ?m)"
    unfolding p(2) [symmetric] by (rule head_next [OF line_states(10)])
      (use assms(3) p digit_byte [OF d(1)] in \<open>simp_all add: exec_switch_def on_res_first_status_code_def v1_def\<close>)
  also have "\<dots> = exec_loop recording dat False (exec_at (reading (k + 2) i h n t es (?hp v2)) s_res_status_code (p + 2) (dat ! (p + 1)) ?m)"
    by (rule head_next [OF line_states(11)])
      (use assms(3) p in \<open>simp_all add: exec_switch_def c2\<close>)
  also have "\<dots> = exec_loop recording dat False (exec_at (reading (k + 3) i h n t es (?hp v3)) s_res_status_code (p + 3) (dat ! (p + 2)) ?m)"
    by (rule head_next [OF line_states(11)])
      (use assms(3) p in \<open>simp_all add: exec_switch_def c3\<close>)
  also have "\<dots> = exec_loop recording dat False (exec_at (reading (k + 4) i h n t es (?hp v3)) s_res_status_start (p + 4) (dat ! (p + 3)) ?m)"
    by (rule head_next [OF line_states(11)])
      (use assms(3) p in \<open>simp_all add: exec_switch_def on_res_status_code_def IS_NUM_def\<close>)
  also have "v3 = digits_value 0 [d1, d2, d3]" using d by (simp add: digit_of_def v1_def v2_def v3_def)
  finally show ?thesis by blast
qed

text \<open>The reason, up to the first byte of the next line.\<close>

lemma reason_text:
  "drop p dat = vs @ CR # rest \<Longrightarrow> CR \<notin> set vs \<Longrightarrow> LF \<notin> set vs \<Longrightarrow> k + length vs < HTTP_MAX_HEADER_SIZE \<Longrightarrow>
   \<exists>c'. exec_loop recording dat False (exec_at (reading k i h n t es hp) s_res_status p c m) =
     exec_loop recording dat False (exec_at (reading (k + length vs) i h n t es hp) s_res_status (p + length vs) c' m)"
proof (induction vs arbitrary: p k c)
  case (Cons v vs)
  then have p: "drop p dat = v # (vs @ CR # rest)" and v: "v \<noteq> CR" "v \<noteq> LF" by auto
  have "k < HTTP_MAX_HEADER_SIZE" using Cons.prems(4) by simp
  then have "exec_loop recording dat False (exec_at (reading k i h n t es hp) s_res_status p c m) =
      exec_loop recording dat False (exec_at (reading (k + 1) i h n t es hp) s_res_status (p + 1) v m)"
    using v by (subst head_byte [OF p line_states(13)]) (simp_all add: exec_switch_def on_res_status_def)
  moreover have "drop (p + 1) dat = vs @ CR # rest" using at_byte [OF p] by simp
  ultimately show ?case using Cons.IH [of "p + 1" "k + 1" v] Cons.prems by simp
qed auto

lemma line_end_read:
  assumes "drop p dat = LF # b # rest" "k + 1 < HTTP_MAX_HEADER_SIZE"
  shows "exec_loop recording dat False (exec_at (reading k i h n t es hp) s_res_line_almost_done p c m) =
    exec_loop recording dat True (exec_at (reading (k + 2) i h n t es hp) s_header_field_start (p + 1) b m)"
proof -
  have q: "drop (p + 1) dat = b # rest" using at_byte [OF assms(1)] by simp
  have "exec_loop recording dat False (exec_at (reading k i h n t es hp) s_res_line_almost_done p c m) =
      exec_loop recording dat False (exec_at (reading (k + 1) i h n t es hp) s_header_field_start (p + 1) LF m)"
    using assms(2) by (subst head_byte [OF assms(1) line_states(14)]) (simp_all add: exec_switch_def on_constant_def STRICT_CHECK_def)
  also have "\<dots> = exec_loop recording dat True (exec_at (reading (k + 2) i h n t es hp) s_header_field_start (p + 1) b m)"
    using assms(2) by (subst head_byte [OF q head_states(7)]) (simp_all add: loop_again)
  finally show ?thesis .
qed

lemma reason_read:
  assumes "drop p dat = reason @ CR # LF # b # rest" "CR \<notin> set reason" "LF \<notin> set reason" "hp_http_errno hp = HPE_OK"
    "k + length reason + 2 < HTTP_MAX_HEADER_SIZE"
  shows "\<exists>i' t'. exec_loop recording dat False (exec_at (reading k i h n t es hp) s_res_status_start p c (\<lambda>_. None)) =
    exec_loop recording dat True (exec_at (reading (k + length reason + 3) i' h n t' (es @ status_told reason) hp)
      s_header_field_start (p + length reason + 2) b (\<lambda>_. None))"
proof (cases reason)
  case Nil
  then have p: "drop p dat = CR # (LF # b # rest)" using assms(1) by simp
  have q: "drop (p + 1) dat = LF # b # rest" using at_byte [OF p] by simp
  have "exec_loop recording dat False (exec_at (reading k i h n t es hp) s_res_status_start p c (\<lambda>_. None)) =
      exec_loop recording dat False (exec_at (reading (k + 1) i h n t es hp) s_res_line_almost_done (p + 1) CR (\<lambda>_. None))"
    using assms(5) by (subst head_byte [OF p line_states(12)]) (simp_all add: exec_switch_def on_res_status_start_def)
  also have "\<dots> = exec_loop recording dat True (exec_at (reading (k + 1 + 2) i h n t es hp) s_header_field_start (p + 1 + 1) b (\<lambda>_. None))"
    by (rule line_end_read [OF q]) (use assms(5) in simp)
  finally show ?thesis using Nil by (intro exI [of _ i] exI [of _ t]) (simp add: status_told_def eval_nat_numeral)
next
  case (Cons v vs)
  let ?m = "(\<lambda>_. None)(M_status \<mapsto> p)"
  have v: "v \<noteq> CR" "v \<noteq> LF" "CR \<notin> set vs" "LF \<notin> set vs" using assms(2,3) Cons by auto
  have p: "drop p dat = v # (vs @ CR # LF # b # rest)" using assms(1) Cons by simp
  have q: "drop (p + 1) dat = vs @ CR # LF # b # rest" using at_byte [OF p] by simp
  have r: "drop (p + 1 + length vs) dat = CR # (LF # b # rest)" using drop_past [OF q] .
  have e: "drop (p + 1 + length vs + 1) dat = LF # b # rest" using at_byte [OF r] by simp
  have len: "p + 1 + length vs < length dat" using at_byte [OF r] by simp
  have sub: "subbuf p (Suc (length vs)) dat = v # vs" using p by (simp add: subbuf_def)
  have k: "k < HTTP_MAX_HEADER_SIZE" "k + 1 + length vs < HTTP_MAX_HEADER_SIZE" "k + 1 + length vs + 1 + 1 < HTTP_MAX_HEADER_SIZE"
    using assms(5) Cons by simp_all
  have "exec_loop recording dat False (exec_at (reading k i h n t es hp) s_res_status_start p c (\<lambda>_. None)) =
      exec_loop recording dat False (exec_at (reading (k + 1) 0 h n t es hp) s_res_status (p + 1) v ?m)"
    using v k(1) by (subst head_byte [OF p line_states(12)]) (simp_all add: exec_switch_def on_res_status_start_def MARK_def)
  also obtain c' where "\<dots> =
      exec_loop recording dat False (exec_at (reading (k + 1 + length vs) 0 h n t es hp) s_res_status (p + 1 + length vs) c' ?m)"
    using reason_text [OF q v(3,4) k(2), of 0 h n t es hp v ?m] by blast
  also have "\<dots> = exec_loop recording dat False (exec_at (reading (k + 1 + length vs + 1) 0 h n s_res_line_almost_done
      (es @ [On_status (v # vs)]) hp) s_res_line_almost_done (p + 1 + length vs + 1) CR (\<lambda>_. None))"
    using assms(4) k(2) len sub by (subst head_byte [OF r line_states(13)]) (simp_all add: exec_switch_def on_res_status_def
      CALLBACK_DATA_def CALLBACK_DATA_at_def after_callback_def Let_def)
  also have "\<dots> = exec_loop recording dat True (exec_at (reading (k + 1 + length vs + 1 + 2) 0 h n s_res_line_almost_done
      (es @ [On_status (v # vs)]) hp) s_header_field_start (p + 1 + length vs + 1 + 1) b (\<lambda>_. None))"
    by (rule line_end_read [OF e k(3)])
  finally show ?thesis unfolding Cons
    by (intro exI [of _ 0] exI [of _ s_res_line_almost_done]) (simp add: status_told_def eval_nat_numeral)
qed

section \<open>A whole response\<close>

record response =
  rs_major :: byte
  rs_minor :: byte
  rs_code :: "byte list"
  rs_reason :: "byte list"
  rs_fields :: "field list"
  rs_body :: "byte list"

text \<open>The length that counts is the one of the last \<open>Content-Length\<close>.\<close>

definition announce :: "field \<Rightarrow> nat option \<Rightarrow> nat option" where
  "announce f n = (if is_length f then Some (digits_value 0 (snd f)) else n)"

definition announced :: "field list \<Rightarrow> nat option" where
  "announced fs = fold announce fs None"

definition head_text :: "response \<Rightarrow> byte list" where
  "head_text r = status_text (rs_major r) (rs_minor r) (rs_code r) (rs_reason r) @ fields_text (rs_fields r) @ [CR, LF]"

definition response_text :: "response \<Rightarrow> byte list" where
  "response_text r = head_text r @ rs_body r"

definition written_response :: "response \<Rightarrow> bool" where
  "written_response r \<longleftrightarrow>
     is_digit (rs_major r) \<and> is_digit (rs_minor r) \<and> length (rs_code r) = 3 \<and> list_all is_digit (rs_code r) \<and>
     CR \<notin> set (rs_reason r) \<and> LF \<notin> set (rs_reason r) \<and> (\<forall>f \<in> set (rs_fields r). written_field f) \<and>
     announced (rs_fields r) = Some (length (rs_body r)) \<and> length (head_text r) \<le> HTTP_MAX_HEADER_SIZE"

definition response_told :: "response \<Rightarrow> event list" where
  "response_told r = [On_begin] @ status_told (rs_reason r) @ fields_told (rs_fields r) @ [On_headers] @
     body_told (rs_body r) @ [On_complete]"

definition agrees :: "nat option \<Rightarrow> u64 \<Rightarrow> bool" where
  "agrees o' n \<longleftrightarrow> (case o' of None \<Rightarrow> True | Some m \<Rightarrow> n = of_nat m \<and> m < 2 ^ 60)"

lemma announced_step: "written_field f \<Longrightarrow> agrees o' n \<Longrightarrow> agrees (announce f o') (field_length f n)"
  by (auto simp: agrees_def announce_def field_length_def written_field_def is_length_def plain_name_def)

lemma announced_agrees:
  "\<forall>f \<in> set fs. written_field f \<Longrightarrow> agrees o' n \<Longrightarrow> agrees (fold announce fs o') (fold field_length fs n)"
  by (induction fs arbitrary: o' n) (simp_all add: announced_step)

lemma announced_fold:
  assumes "\<forall>f \<in> set fs. written_field f" "announced fs = Some m"
  shows "fold field_length fs n = of_nat m" and "m < 2 ^ 60"
  using announced_agrees [OF assms(1), of None n] assms(2) by (simp_all add: agrees_def announced_def)

lemma response_loop:
  assumes "written_response r" "dat = response_text r" "hp_http_errno hp = HPE_OK" "\<not> hp_upgrade hp" "hp_method hp \<noteq> HTTP_CONNECT"
  shows "\<exists>i' h' s' hp'. exec_loop recording dat False (exec_at (reading 0 i h n s_start_res es hp) s_start_res 0 NUL (\<lambda>_. None)) =
      Some (Returned (length dat) (reading 0 i' h' 0 s' (es @ response_told r) hp')) \<and>
    s' = NEW_MESSAGE (reading 0 i' h' 0 s' (es @ response_told r) hp') \<and>
    hp' = hp\<lparr>hp_flags := 0, hp_http_major := of_nat (digit_of (rs_major r)), hp_http_minor := of_nat (digit_of (rs_minor r)),
      hp_status_code := of_nat (digits_value 0 (rs_code r))\<rparr>"
proof -
  obtain d1 d2 d3 where code: "rs_code r = [d1, d2, d3]"
    using assms(1) by (auto simp: written_response_def length_Suc_conv eval_nat_numeral)
  note w = assms(1) [unfolded written_response_def]
  have dig: "is_digit (rs_major r)" "is_digit (rs_minor r)" "list_all is_digit [d1, d2, d3]" using w code by simp_all
  have fs: "\<forall>f \<in> set (rs_fields r). written_field f" and n: "announced (rs_fields r) = Some (length (rs_body r))"
    and reason: "CR \<notin> set (rs_reason r)" "LF \<notin> set (rs_reason r)" using w by simp_all
  let ?k = "16 + length (rs_reason r)" and ?F = "length (fields_text (rs_fields r))"
  have len: "?k + ?F + 1 \<le> HTTP_MAX_HEADER_SIZE" using w by (simp add: head_text_def status_text_def code)
  let ?fl = "fields_text (rs_fields r)"
  define b rest where "b = hd (?fl @ [CR])" and "rest = tl (?fl @ [CR]) @ LF # rs_body r"
  have after: "?fl @ CR # LF # rs_body r = b # rest" by (cases ?fl) (simp_all add: b_def rest_def)
  have dat: "dat = ''HTTP/'' @ [rs_major r, CHR ''.'', rs_minor r, SP] @ [d1, d2, d3, SP] @ rs_reason r @ CR # LF # b # rest"
    using assms(2) by (simp add: response_text_def head_text_def status_text_def code flip: after)
  let ?v = "hp\<lparr>hp_flags := 0, hp_http_major := of_nat (digit_of (rs_major r)), hp_http_minor := of_nat (digit_of (rs_minor r))\<rparr>"
  let ?hp = "?v\<lparr>hp_status_code := of_nat (digits_value 0 [d1, d2, d3])\<rparr>"
  have plain: "plain_response ?hp" and ok: "hp_http_errno ?hp = HPE_OK" using assms(3-5) by (simp_all add: plain_response_def)
  obtain c1 where s1: "exec_loop recording dat False (exec_at (reading 0 i h n s_start_res es hp) s_start_res 0 NUL (\<lambda>_. None)) =
      exec_loop recording dat False (exec_at (reading 9 i h ULLONG_MAX s_res_H (es @ [On_begin]) ?v) s_res_first_status_code 9 c1 (\<lambda>_. None))"
    using version_read [OF _ dig(1,2) assms(3), of dat i h n es] by (auto simp: dat)
  have d9: "drop 9 dat = [d1, d2, d3, SP] @ (rs_reason r @ CR # LF # b # rest)" by (simp add: dat)
  have d13: "drop (9 + 4) dat = rs_reason r @ CR # LF # b # rest" by (simp add: dat)
  obtain c2 where s2: "exec_loop recording dat False (exec_at (reading 9 i h ULLONG_MAX s_res_H (es @ [On_begin]) ?v) s_res_first_status_code 9 c1 (\<lambda>_. None)) =
      exec_loop recording dat False (exec_at (reading (9 + 4) i h ULLONG_MAX s_res_H (es @ [On_begin]) ?hp) s_res_status_start (9 + 4) c2 (\<lambda>_. None))"
    using code_read [OF d9 dig(3), of 9 i h ULLONG_MAX s_res_H "es @ [On_begin]" ?v c1] by (auto simp: HTTP_MAX_HEADER_SIZE_def)
  have "9 + 4 + length (rs_reason r) + 2 < HTTP_MAX_HEADER_SIZE" using len by simp
  from reason_read [OF d13 reason ok this, of i h ULLONG_MAX s_res_H "es @ [On_begin]" c2] obtain i3 t3 where
    s3: "exec_loop recording dat False (exec_at (reading (9 + 4) i h ULLONG_MAX s_res_H (es @ [On_begin]) ?hp) s_res_status_start (9 + 4) c2 (\<lambda>_. None)) =
      exec_loop recording dat True (exec_at (reading (9 + 4 + length (rs_reason r) + 3) i3 h ULLONG_MAX t3
        ((es @ [On_begin]) @ status_told (rs_reason r)) ?hp) s_header_field_start (9 + 4 + length (rs_reason r) + 2) b (\<lambda>_. None))"
    by blast
  let ?p = "9 + 4 + length (rs_reason r) + 2" and ?k = "9 + 4 + length (rs_reason r) + 3"
  have dp: "drop ?p dat = ?fl @ CR # (LF # rs_body r)"
    using drop_past [of 13 dat "rs_reason r @ [CR, LF]" "b # rest"] d13 unfolding after by simp
  have "?k + ?F \<le> HTTP_MAX_HEADER_SIZE" using len by simp
  from fields_read [OF fs dp ok _ _ this, of i3 h ULLONG_MAX t3 "(es @ [On_begin]) @ status_told (rs_reason r)"] obtain i4 h4 t4 where
    s4: "exec_loop recording dat True (exec_at (reading ?k i3 h ULLONG_MAX t3
        ((es @ [On_begin]) @ status_told (rs_reason r)) ?hp) s_header_field_start ?p b (\<lambda>_. None)) =
      exec_loop recording dat True (exec_at (reading (?k + ?F) i4 h4 (of_nat (length (rs_body r))) t4
        (((es @ [On_begin]) @ status_told (rs_reason r)) @ fields_told (rs_fields r)) ?hp) s_header_field_start (?p + ?F) CR (\<lambda>_. None))"
    unfolding b_def announced_fold(1) [OF fs n] by auto
  have de: "drop (?p + ?F) dat = CR # LF # rs_body r" using drop_past [OF dp] .
  have dl: "drop (?p + ?F + 1) dat = LF # rs_body r" using at_byte [OF de] by simp
  have "?k + ?F < HTTP_MAX_HEADER_SIZE" using len by simp
  note s5 = head_end [OF de plain this, of i4 h4 "of_nat (length (rs_body r))" t4
      "((es @ [On_begin]) @ status_told (rs_reason r)) @ fields_told (rs_fields r)"]
  have told: "((((es @ [On_begin]) @ status_told (rs_reason r)) @ fields_told (rs_fields r)) @ [On_headers]) @
      body_told (rs_body r) @ [On_complete] = es @ response_told r"
    by (simp add: response_told_def)
  from message_end [OF plain dl announced_fold(2) [OF fs n], of "?k + ?F + 1" i4 h4 t4
      "(((es @ [On_begin]) @ status_told (rs_reason r)) @ fields_told (rs_fields r)) @ [On_headers]"]
  obtain s' where "exec_loop recording dat False (exec_at (reading 0 i h n s_start_res es hp) s_start_res 0 NUL (\<lambda>_. None)) =
      Some (Returned (length dat) (reading 0 i4 h4 0 s' (es @ response_told r) ?hp))"
      "s' = NEW_MESSAGE (reading 0 i4 h4 0 s' (es @ response_told r) ?hp)"
    unfolding s1 s2 s3 s4 s5 told by blast
  then show ?thesis unfolding code by blast
qed


text \<open>A response that gives its length twice: the second is the one that counts.\<close>

definition sample_response :: response where
  "sample_response = \<lparr>rs_major = CHR ''1'', rs_minor = CHR ''1'', rs_code = ''206'', rs_reason = ''Partial Content'',
     rs_fields = [(''Server'', ''QingStor''), (''Content-Length'', ''7''), (''content-Type'', ''text/plain; a=b''), (''CONTENT-LENGTH'', ''05'')],
     rs_body = ''hello''\<rparr>"

definition empty_recorder :: "event list http_parser" where
  "empty_recorder = \<lparr>hp_type = HTTP_BOTH, hp_flags = 0, hp_state = s_dead, hp_header_state = h_general, hp_index = 0, hp_nread = 0,
     hp_content_length = 0, hp_http_major = 0, hp_http_minor = 0, hp_status_code = 0, hp_method = HTTP_DELETE,
     hp_http_errno = HPE_OK, hp_upgrade = False, hp_data = []\<rparr>"

lemma sample_written: "written_response sample_response"
proof -
  have tokens: "map TOKEN ''Server'' = ''server''" "map TOKEN ''content-Type'' = ''content-type''"
      "map TOKEN ''Content-Length'' = ''content-length''" "map TOKEN ''CONTENT-LENGTH'' = ''content-length''"
    by (simp_all add: TOKEN_eq token_of_def char_of_def bit_0)
  have "field_name ''Server''" "field_name ''content-Type''"
    by (simp_all add: field_name_def TOKEN_eq token_of_def char_of_def bit_0)
  then have names: "plain_name ''Server''" "plain_name ''content-Type''"
      "\<not> is_length (''Server'', v)" "\<not> is_length (''content-Type'', v)" "is_length (''Content-Length'', v)" "is_length (''CONTENT-LENGTH'', v)" for v
    by (simp_all only: plain_name_def is_length_def fst_conv tokens, simp_all)
  have vals: "field_value ''QingStor''" "field_value ''text/plain; a=b''" "field_value ''7''" "field_value ''05''" by code_simp+
  have digits: "digits_value 0 ''7'' = 7" "digits_value 0 ''05'' = 5" by (simp_all add: is_digit_def)
  have "\<forall>f \<in> set (rs_fields sample_response). written_field f"
    using names vals digits by (simp add: sample_response_def written_field_def is_digit_def)
  moreover have "length (head_text sample_response) \<le> HTTP_MAX_HEADER_SIZE"
    by (simp add: sample_response_def head_text_def status_text_def fields_text_def field_text_def HTTP_MAX_HEADER_SIZE_def)
  moreover have "announced (rs_fields sample_response) = Some (length (rs_body sample_response))"
    using names digits by (simp add: announced_def announce_def sample_response_def)
  ultimately show ?thesis by (simp add: written_response_def sample_response_def is_digit_def)
qed


end
