(* ===== verification/QS_Api.thy ===== *)
theory QS_Api
  imports QS_Writer QS_Reader
begin

text \<open>
  \<open>src/QingStor.cpp\<close>: the C interface. A null pointer is \<open>None\<close>; a handle of an object is its
  wrapper, given and returned; \<open>Undefined\<close> is undefined behaviour of the call, and \<open>None\<close> of
  the calls that contain a loop a call that never returns.
\<close>

section \<open>State\<close>

text \<open>
  The thread's \<open>ErrorMessage\<close> and \<open>errno\<close>, the world of the requests and that of the
  downloads, and the answers of the next allocations (\<open>new\<close> and \<open>malloc\<close>; all that follow
  succeed).
\<close>

record ('w, 'v) api =
  ap_message :: string
  ap_errno :: int
  ap_world :: 'w
  ap_multi :: 'v
  ap_alloc :: "bool list"

text \<open>The libraries: those of the requests, of the downloads, \<open>strerror\<close>, \<open>curl_multi_init\<close>.\<close>

record ('j, 'w, 'v) libs =
  lb_http :: "('j, 'w) http_env"
  lb_multi :: "'v multi_env"
  lb_strerror :: "int \<Rightarrow> string"
  lb_multi_init :: bool

definition QINGSTOR_ERROR_MESSAGE_BUFFER_SIZE :: nat where
  "QINGSTOR_ERROR_MESSAGE_BUFFER_SIZE = 4096"

definition SetErrorMessage :: "string \<Rightarrow> ('w, 'v) api \<Rightarrow> ('w, 'v) api" where
  "SetErrorMessage msg s =
     s\<lparr>ap_message := take (QINGSTOR_ERROR_MESSAGE_BUFFER_SIZE - 1) (takeWhile (\<lambda>c. c \<noteq> NUL) msg)\<rparr>"

definition SetLastException :: "exn \<Rightarrow> ('w, 'v) api \<Rightarrow> ('w, 'v) api" where
  "SetLastException e = SetErrorMessage (GetExceptionMessage e)"

definition qingstorGetLastError :: "('w, 'v) api \<Rightarrow> string" where
  "qingstorGetLastError s = ap_message s"

section \<open>Parameters and handlers\<close>

text \<open>What \<open>PARAMETER_ASSERT\<close> does to the state when its condition fails.\<close>

definition reject :: "('j, 'w, 'v) libs \<Rightarrow> int \<Rightarrow> ('w, 'v) api \<Rightarrow> ('w, 'v) api" where
  "reject E eno s = (SetErrorMessage (GetSystemErrorInfo (lb_strerror E) eno) s)\<lparr>ap_errno := eno\<rparr>"

definition PARAMETER_ASSERT :: "('j, 'w, 'v) libs \<Rightarrow> bool \<Rightarrow> 'r \<Rightarrow> ('r, ('w, 'v) api) call \<Rightarrow> ('r, ('w, 'v) api) call" where
  "PARAMETER_ASSERT E ok retval k s = (if ok then k s else (Ret retval, reject E EINVAL s))"

text \<open>\<open>para != NULL && strlen(para) > 0\<close>.\<close>

definition non_empty :: "string option \<Rightarrow> bool" where
  "non_empty p = (case p of None \<Rightarrow> False | Some t \<Rightarrow> length t > 0)"

text \<open>The two handlers at the end of every function.\<close>

definition handlers :: "exn \<Rightarrow> ('w, 'v) api \<Rightarrow> ('w, 'v) api" where
  "handlers e s =
     (if is_a (exn_class e) std_bad_alloc then (SetErrorMessage ''Out of memory'' s)\<lparr>ap_errno := ENOMEM\<rparr>
      else (SetLastException e s)\<lparr>ap_errno := handleException e\<rparr>)"

definition try_catch :: "'r \<Rightarrow> ('r, ('w, 'v) api) call \<Rightarrow> ('r, ('w, 'v) api) call" where
  "try_catch retval m s = (case m s of (Throw e, s') \<Rightarrow> (Ret retval, handlers e s') | (r, s') \<Rightarrow> (r, s'))"

section \<open>Allocation and the parts of the world\<close>

definition malloc_block :: "(bool, ('w, 'v) api) call" where
  "malloc_block s = (case ap_alloc s of [] \<Rightarrow> (Ret True, s) | b # bs \<Rightarrow> (Ret b, s\<lparr>ap_alloc := bs\<rparr>))"

definition new_block :: "(unit, ('w, 'v) api) call" where
  "new_block = then_call malloc_block (\<lambda>ok.
     if ok then return () else lift_outcome (Throw (Exn std_bad_alloc ''std::bad_alloc'' None)))"

definition in_http :: "('a, 'w) call \<Rightarrow> ('a, ('w, 'v) api) call" where
  "in_http m s = (case m (ap_world s) of (r, w) \<Rightarrow> (r, s\<lparr>ap_world := w\<rparr>))"

section \<open>Contexts\<close>

text \<open>
  \<open>context = new Context(...); return new QingStorContextInternalWrapper(context)\<close>: when the
  first of these throws, the handlers delete the uninitialised \<open>context\<close>.
\<close>

definition new_context :: "Configuration outcome \<Rightarrow> (Configuration option, ('w, 'v) api) call" where
  "new_context configuration s =
     (case then_call new_block (\<lambda>_. lift_outcome configuration) s of
        (Ret cfg, s') \<Rightarrow> try_catch None (then_call new_block (\<lambda>_. return (Some cfg))) s'
      | (Throw e, s') \<Rightarrow> (Undefined, s')
      | (Undefined, s') \<Rightarrow> (Undefined, s'))"

text \<open>A null \<open>location\<close> goes into the constructor of \<open>std::string\<close>.\<close>

definition qingstorInitContext :: "('j, 'w, 'v) libs \<Rightarrow> string option \<Rightarrow> string option \<Rightarrow> string option \<Rightarrow> int \<Rightarrow>
    (Configuration option, ('w, 'v) api) call" where
  "qingstorInitContext E location access_key_id secret_access_key chunk_size =
     PARAMETER_ASSERT E (non_empty access_key_id) None (
     PARAMETER_ASSERT E (non_empty secret_access_key) None (
       case location of None \<Rightarrow> lift_outcome Undefined
       | Some loc \<Rightarrow> new_context (Ret (Configuration_direct loc (the access_key_id) (the secret_access_key) chunk_size))))"

definition qingstorInitContextFromFile :: "('j, 'w, 'v) libs \<Rightarrow> bool \<Rightarrow> yaml_token list option \<Rightarrow> string option \<Rightarrow>
    (Configuration option, ('w, 'v) api) call" where
  "qingstorInitContextFromFile E parser_ok file config_file =
     PARAMETER_ASSERT E (non_empty config_file) None (new_context (Configuration_file parser_ok (the config_file) file))"

definition qingstorDestroyContext :: "Configuration option \<Rightarrow> (unit, ('w, 'v) api) call" where
  "qingstorDestroyContext context = return ()"

section \<open>Buckets\<close>

definition text_of :: "string option \<Rightarrow> string" where
  "text_of p = (case p of None \<Rightarrow> [] | Some t \<Rightarrow> t)"

text \<open>The array returned and \<open>*count\<close>, which stays as it was (\<open>None\<close>) when a parameter is rejected.\<close>

definition qingstorListBuckets :: "('j, 'w, 'v) libs \<Rightarrow> Configuration option \<Rightarrow> string option \<Rightarrow> bool \<Rightarrow>
    (BucketInfo list option \<times> int option, ('w, 'v) api) call" where
  "qingstorListBuckets E context location count =
     PARAMETER_ASSERT E (context \<noteq> None) (None, None) (
     PARAMETER_ASSERT E count (None, None) (
       try_catch (None, Some 0)
         (then_call (in_http (listBuckets (lb_http E) (the context) (text_of location))) (\<lambda>buckets.
            let n = to_int32 (int (length buckets)) in
            if length buckets > 0
            then then_call malloc_block (\<lambda>ok.
                   if ok then return (Some (take (nat n) buckets), Some n) else lift_outcome Undefined)
            else return (None, Some 0)))))"

text \<open>The functions that send one request and return 0 or -1.\<close>

definition simple_request :: "(unit, 'w) call \<Rightarrow> (int, ('w, 'v) api) call" where
  "simple_request m = try_catch (-1) (then_call (in_http m) (\<lambda>_. return 0))"

definition qingstorCreateBucket :: "('j, 'w, 'v) libs \<Rightarrow> Configuration option \<Rightarrow> string option \<Rightarrow> string option \<Rightarrow>
    (int, ('w, 'v) api) call" where
  "qingstorCreateBucket E context location bucket =
     PARAMETER_ASSERT E (context \<noteq> None) (-1) (
     PARAMETER_ASSERT E (non_empty bucket) (-1) (
       simple_request (createBucket (lb_http E) (the context) (text_of location) (the bucket))))"

definition qingstorDeleteBucket :: "('j, 'w, 'v) libs \<Rightarrow> Configuration option \<Rightarrow> string option \<Rightarrow> string option \<Rightarrow>
    (int, ('w, 'v) api) call" where
  "qingstorDeleteBucket E context location bucket =
     PARAMETER_ASSERT E (context \<noteq> None) (-1) (
     PARAMETER_ASSERT E (non_empty bucket) (-1) (
       simple_request (deleteBucket (lb_http E) (the context) (text_of location) (the bucket))))"

definition qingstorDeleteObject :: "('j, 'w, 'v) libs \<Rightarrow> Configuration option \<Rightarrow> string option \<Rightarrow> string option \<Rightarrow>
    (int, ('w, 'v) api) call" where
  "qingstorDeleteObject E context bucket key =
     PARAMETER_ASSERT E (context \<noteq> None) (-1) (
     PARAMETER_ASSERT E (non_empty bucket) (-1) (
     PARAMETER_ASSERT E (non_empty key) (-1) (
       simple_request (deleteObject (lb_http E) (the context) (the bucket) (the key)))))"

section \<open>Listings and attributes\<close>

record listing_result =
  lr_name :: string
  lr_prefix :: string
  lr_limit :: u32
  lr_objects :: "(string \<times> int) list option"
  lr_nObjects :: int

text \<open>
  The conversion of a listing: a failure of the second allocation is thrown after \<open>result\<close> has
  been set, and \<open>result\<close> is what the function returns after its handlers.
\<close>

definition convert_listing :: "ListObjectResult \<Rightarrow> (listing_result option, ('w, 'v) api) call" where
  "convert_listing res =
     (let n = to_int32 (int (length (lor_objects res)));
          head = \<lparr>lr_name = lor_name res, lr_prefix = lor_prefix res, lr_limit = lor_limit res,
                  lr_objects = None, lr_nObjects = n\<rparr> in
      try_catch None (then_call malloc_block (\<lambda>ok.
        if \<not> ok then raise OutOfMemoryException ''could not malloc for qingstorListObjectResult''
        else try_catch (Some head) (then_call malloc_block (\<lambda>ok.
          if \<not> ok then raise OutOfMemoryException ''could not malloc for qingstorObjectInfo array''
          else return (Some (head\<lparr>lr_objects :=
            Some (map (\<lambda>ob. (obj_key ob, obj_size ob)) (take (nat n) (lor_objects res)))\<rparr>)))))))"

definition qingstorListObjects :: "('j, 'w, 'v) libs \<Rightarrow> Configuration option \<Rightarrow> string option \<Rightarrow> string option \<Rightarrow>
    ('w, 'v) api \<Rightarrow> (listing_result option outcome \<times> ('w, 'v) api) option" where
  "qingstorListObjects E context bucket path s =
     (if context = None \<or> \<not> non_empty bucket then Some (Ret None, reject E EINVAL s)
      else map_option (\<lambda>(r, w). try_catch None (then_call (lift_outcome r) convert_listing) (s\<lparr>ap_world := w\<rparr>))
             (listObjects (lb_http E) (the context) (the bucket) (text_of path) (ap_world s)))"

definition qingstorHeadObject :: "('j, 'w, 'v) libs \<Rightarrow> Configuration option \<Rightarrow> string option \<Rightarrow> string option \<Rightarrow>
    (HeadObjectResult option, ('w, 'v) api) call" where
  "qingstorHeadObject E context bucket key =
     PARAMETER_ASSERT E (context \<noteq> None) None (
     PARAMETER_ASSERT E (non_empty bucket) None (
     PARAMETER_ASSERT E (non_empty key) None (
       try_catch None
         (then_call (in_http (headObject (lb_http E) (the context) (the bucket) (the key))) (\<lambda>res.
          then_call malloc_block (\<lambda>ok. if ok then return (Some res) else lift_outcome Undefined))))))"

section \<open>Objects\<close>

text \<open>The untyped pointer \<open>rw\<close> and the flag that says what it points to.\<close>

datatype rw_ptr = NoRW | ReaderRW reader | WriterRW writer

record object_wrapper =
  ow_reader :: bool
  ow_rw :: rw_ptr

definition new_wrapper :: object_wrapper where
  "new_wrapper = \<lparr>ow_reader = True, ow_rw = NoRW\<rparr>"

text \<open>A pointer cast to the wrong class is undefined behaviour.\<close>

definition getReader :: "object_wrapper \<Rightarrow> reader outcome" where
  "getReader ob =
     (if \<not> ow_reader ob then THROW QingStorException ''Internal error: object was not opened for read.''
      else case ow_rw ob of NoRW \<Rightarrow> THROW QingStorIOException ''Object is not opened.''
           | ReaderRW rd \<Rightarrow> Ret rd | WriterRW wr \<Rightarrow> Undefined)"

definition getWriter :: "object_wrapper \<Rightarrow> writer outcome" where
  "getWriter ob =
     (if ow_reader ob then THROW QingStorException ''Internal error: object was not opened for write.''
      else case ow_rw ob of NoRW \<Rightarrow> THROW QingStorIOException ''Object is not opened.''
           | WriterRW wr \<Rightarrow> Ret wr | ReaderRW rd \<Rightarrow> Undefined)"

text \<open>The destructor of the wrapper; that of a writer only frees its buffer.\<close>

definition destroy_wrapper :: "('j, 'w, 'v) libs \<Rightarrow> object_wrapper \<Rightarrow> (unit, ('w, 'v) api) call" where
  "destroy_wrapper E ob s =
     (case ow_rw ob of
        NoRW \<Rightarrow> (Ret (), s)
      | ReaderRW rd \<Rightarrow> if ow_reader ob
          then (case destroy_reader (lb_multi E) rd (ap_multi s) of (r, v) \<Rightarrow> (r, s\<lparr>ap_multi := v\<rparr>))
          else (Undefined, s)
      | WriterRW wr \<Rightarrow> if ow_reader ob then (Undefined, s) else (Ret (), s))"

text \<open>The range of a request: a negative start is the first byte, a negative end the last.\<close>

definition requested :: "int \<Rightarrow> int \<Rightarrow> HeadObjectResult \<Rightarrow> RangeInfo" where
  "requested rs re h =
     \<lparr>range_start = (if rs < 0 then 0 else rs), range_end = (if re < 0 then hor_content_length h - 1 else re)\<rparr>"

definition qingstorGetObject :: "('j, 'w, 'v) libs \<Rightarrow> Configuration option \<Rightarrow> string option \<Rightarrow> string option \<Rightarrow> int \<Rightarrow> int \<Rightarrow>
    ('w, 'v) api \<Rightarrow> (object_wrapper option outcome \<times> ('w, 'v) api) option" where
  "qingstorGetObject E context bucket key rs re s =
     (if context = None \<or> \<not> non_empty bucket \<or> \<not> non_empty key \<or> \<not> re \<ge> rs then Some (Ret None, reject E EINVAL s)
      else case then_call new_block (\<lambda>_. in_http (headObject (lb_http E) (the context) (the bucket) (the key))) s of
             (Throw e, s') \<Rightarrow> Some (Ret None, handlers e s')
           | (Undefined, s') \<Rightarrow> Some (Undefined, s')
           | (Ret h, s') \<Rightarrow>
               (case new_block s' of
                  (Ret _, s') \<Rightarrow>
                    map_option (\<lambda>r. try_catch None (then_call (lift_outcome r) (\<lambda>rd.
                        return (Some (new_wrapper\<lparr>ow_reader := True, ow_rw := ReaderRW rd\<rparr>)))) s')
                      (QingStorReader (the context) (the bucket)
                         \<lparr>obj_key = the key, obj_size = hor_content_length h, obj_range = requested rs re h\<rparr> (lb_multi_init E))
                | (Throw e, s') \<Rightarrow> Some (Ret None, handlers e s')
                | (Undefined, s') \<Rightarrow> Some (Undefined, s')))"

definition qingstorPutObject :: "('j, 'w, 'v) libs \<Rightarrow> Configuration option \<Rightarrow> string option \<Rightarrow> string option \<Rightarrow> bool \<Rightarrow>
    (object_wrapper option, ('w, 'v) api) call" where
  "qingstorPutObject E context bucket key cache =
     PARAMETER_ASSERT E (context \<noteq> None) None (
     PARAMETER_ASSERT E (non_empty bucket) None (
     PARAMETER_ASSERT E (non_empty key) None (
       try_catch None (then_call new_block (\<lambda>_. then_call new_block (\<lambda>_.
         then_call (in_http (QingStorWriter (lb_http E) (the context) (the bucket) (the key) cache)) (\<lambda>wr.
         return (Some (new_wrapper\<lparr>ow_reader := False, ow_rw := WriterRW wr\<rparr>)))))))))"

text \<open>An operation of the writer of an object: the result, the object and the state after it.\<close>

definition with_writer :: "'r \<Rightarrow> (unit, writer \<times> 'w) call \<Rightarrow> 'r \<Rightarrow> object_wrapper \<Rightarrow> ('w, 'v) api \<Rightarrow>
    'r outcome \<times> object_wrapper \<times> ('w, 'v) api" where
  "with_writer retval m good ob s =
     (case getWriter ob of
        Ret wr \<Rightarrow> (case m (wr, ap_world s) of
            (r, wr', w') \<Rightarrow> (case r of
                Ret _ \<Rightarrow> (Ret good, ob\<lparr>ow_rw := WriterRW wr'\<rparr>, s\<lparr>ap_world := w'\<rparr>)
              | Throw e \<Rightarrow> (Ret retval, ob\<lparr>ow_rw := WriterRW wr'\<rparr>, handlers e (s\<lparr>ap_world := w'\<rparr>))
              | Undefined \<Rightarrow> (Undefined, ob\<lparr>ow_rw := WriterRW wr'\<rparr>, s\<lparr>ap_world := w'\<rparr>)))
      | Throw e \<Rightarrow> (Ret retval, ob, handlers e s)
      | Undefined \<Rightarrow> (Undefined, ob, s))"

text \<open>Cancelling a reader returns -1 without touching \<open>errno\<close> or the message.\<close>

definition qingstorCancelObject :: "('j, 'w, 'v) libs \<Rightarrow> Configuration option \<Rightarrow> object_wrapper option \<Rightarrow> ('w, 'v) api \<Rightarrow>
    int outcome \<times> object_wrapper option \<times> ('w, 'v) api" where
  "qingstorCancelObject E context obj s =
     (if context = None then (Ret (-1), obj, reject E EINVAL s)
      else case obj of
             None \<Rightarrow> (Ret (-1), obj, reject E EINVAL s)
           | Some ob \<Rightarrow>
               if ow_reader ob then (Ret (-1), obj, s)
               else (case with_writer (-1) (writer_cancel (lb_http E)) 0 ob s of (r, ob', s') \<Rightarrow> (r, Some ob', s')))"

text \<open>
  Closing and deleting. The handlers delete the object too; that a reader's destructor runs into
  undefined behaviour makes the call undefined.
\<close>

definition close_object :: "('j, 'w, 'v) libs \<Rightarrow> object_wrapper \<Rightarrow> ('w, 'v) api \<Rightarrow> int outcome \<times> object_wrapper \<times> ('w, 'v) api" where
  "close_object E ob s =
     (if ow_reader ob
      then (case then_call (lift_outcome (getReader ob)) (\<lambda>_. return ()) s of
              (Ret _, s') \<Rightarrow> (Ret 0, ob, s')
            | (Throw e, s') \<Rightarrow> (Ret (-1), ob, handlers e s')
            | (Undefined, s') \<Rightarrow> (Undefined, ob, s'))
      else with_writer (-1) (writer_close (lb_http E)) 0 ob s)"

definition qingstorCloseObject :: "('j, 'w, 'v) libs \<Rightarrow> object_wrapper option \<Rightarrow> (int, ('w, 'v) api) call" where
  "qingstorCloseObject E obj s =
     (case obj of
        None \<Rightarrow> (Ret (-1), reject E EINVAL s)
      | Some ob \<Rightarrow>
          (case close_object E ob s of
             (Ret v, ob', s') \<Rightarrow> then_call (destroy_wrapper E ob') (\<lambda>_. return v) s'
           | (r, ob', s') \<Rightarrow> (r, s')))"

section \<open>Reading and writing\<close>

text \<open>The value returned and the bytes stored in \<open>buffer\<close>, of which \<open>buffer\<close> says that it is not null.\<close>

definition qingstorRead :: "('j, 'w, 'v) libs \<Rightarrow> Configuration option \<Rightarrow> object_wrapper option \<Rightarrow> bool \<Rightarrow> int \<Rightarrow>
    ('w, 'v) api \<Rightarrow> ((int \<times> byte list) outcome \<times> object_wrapper option \<times> ('w, 'v) api) option" where
  "qingstorRead E context obj buffer n s =
     (case obj of
        None \<Rightarrow> Some (Ret (-1, []), obj, reject E EINVAL s)
      | Some ob \<Rightarrow>
          if context = None \<or> \<not> buffer \<or> \<not> n > 0 \<or> \<not> ow_reader ob then Some (Ret (-1, []), obj, reject E EINVAL s)
          else (case getReader ob of
                  Ret rd \<Rightarrow>
                    map_option (\<lambda>(r, rd', v).
                      (let obj = Some (ob\<lparr>ow_rw := ReaderRW rd'\<rparr>); s = s\<lparr>ap_multi := v\<rparr> in
                       case r of
                         Ret d \<Rightarrow> (Ret (int (length d), d), obj, s)
                       | Throw e \<Rightarrow> if is_a (exn_class e) QingStorEndOfStream then (Ret (0, []), obj, s)
                                    else (Ret (-1, []), obj, handlers e s)
                       | Undefined \<Rightarrow> (Undefined, obj, s)))
                      (reader_transferData (lb_multi E) (nat n) (rd, ap_multi s))
                | Throw e \<Rightarrow> Some (Ret (-1, []), obj, handlers e s)
                | Undefined \<Rightarrow> Some (Undefined, obj, s)))"

text \<open>A length beyond the caller's buffer is undefined behaviour.\<close>

definition qingstorWrite :: "('j, 'w, 'v) libs \<Rightarrow> Configuration option \<Rightarrow> object_wrapper option \<Rightarrow> byte list option \<Rightarrow> int \<Rightarrow>
    ('w, 'v) api \<Rightarrow> (int outcome \<times> object_wrapper option \<times> ('w, 'v) api) option" where
  "qingstorWrite E context obj buffer n s =
     (case obj of
        None \<Rightarrow> Some (Ret (-1), obj, reject E EINVAL s)
      | Some ob \<Rightarrow>
          if context = None \<or> buffer = None \<or> \<not> n > 0 \<or> ow_reader ob then Some (Ret (-1), obj, reject E EINVAL s)
          else if length (the buffer) < nat n then Some (Undefined, obj, s)
          else (case getWriter ob of
                  Ret wr \<Rightarrow>
                    map_option (\<lambda>y. case with_writer (-1) (\<lambda>_. y) n ob s of (r, ob', s') \<Rightarrow> (r, Some ob', s'))
                      (transferData (lb_http E) (take (nat n) (the buffer)) (wr, ap_world s))
                | Throw e \<Rightarrow> Some (Ret (-1), obj, handlers e s)
                | Undefined \<Rightarrow> Some (Undefined, obj, s)))"

end
