(* ===== verification/QS_Api_Facts.thy ===== *)
theory QS_Api_Facts
  imports QS_Api QS_Reader_Facts QS_Context_Facts
begin

text \<open>
  Properties of the C interface: what a client may rely on in every state it can reach, the
  error codes, and the composition of the calls with the reader and the writer.
\<close>

section \<open>What the calls keep\<close>

definition keeps :: "('s \<Rightarrow> bool) \<Rightarrow> ('a, 's) call \<Rightarrow> bool" where
  "keeps P m \<longleftrightarrow> (\<forall>s. P s \<longrightarrow> P (snd (m s)))"

lemma keepsD: "keeps P m \<Longrightarrow> m s = (r, s') \<Longrightarrow> P s \<Longrightarrow> P s'"
  unfolding keeps_def by (metis snd_conv)

lemma keeps_snd: "keeps P m \<Longrightarrow> P s \<Longrightarrow> P (snd (m s))"
  by (simp add: keeps_def)

lemma keeps_return [intro]: "keeps P (return x)" and keeps_raise [intro]: "keeps P (raise c t)"
  and keeps_lift [intro]: "keeps P (lift_outcome r)"
  by (simp_all add: keeps_def)

lemma keeps_then [intro]:
  assumes "keeps P m" and "\<And>x. keeps P (k x)" shows "keeps P (then_call m k)"
  unfolding keeps_def
proof (intro allI impI)
  fix s assume "P s"
  obtain r s' where m: "m s = (r, s')" by fastforce
  then have "P s'" using keepsD [OF assms(1)] \<open>P s\<close> by blast
  then show "P (snd (then_call m k s))"
    using assms(2) m by (cases r) (auto simp: then_call_def keeps_def)
qed

lemma keeps_branch [intro]:
  "keeps P m \<Longrightarrow> keeps P n \<Longrightarrow> keeps P (if b then m else n)"
  "keeps P m \<Longrightarrow> (\<And>x. keeps P (k x)) \<Longrightarrow> keeps P (case ob of None \<Rightarrow> m | Some x \<Rightarrow> k x)"
  by (auto split: option.split)

section \<open>Messages and handles\<close>

text \<open>The message is a C string in its buffer.\<close>

definition message_ok :: "('w, 'v) api \<Rightarrow> bool" where
  "message_ok s \<longleftrightarrow> length (ap_message s) < QINGSTOR_ERROR_MESSAGE_BUFFER_SIZE \<and> NUL \<notin> set (ap_message s)"

lemma SetErrorMessage_ok: "message_ok (SetErrorMessage msg s)"
proof -
  have "NUL \<notin> set (takeWhile (\<lambda>c. c \<noteq> NUL) msg)" by (auto dest: set_takeWhileD)
  then show ?thesis
    by (auto simp: message_ok_def SetErrorMessage_def QINGSTOR_ERROR_MESSAGE_BUFFER_SIZE_def dest: in_set_takeD)
qed

lemma message_ok_update [simp]:
  "message_ok (s\<lparr>ap_errno := e\<rparr>) = message_ok s" "message_ok (s\<lparr>ap_world := w\<rparr>) = message_ok s"
  "message_ok (s\<lparr>ap_multi := v\<rparr>) = message_ok s" "message_ok (s\<lparr>ap_alloc := bs\<rparr>) = message_ok s"
  by (simp_all add: message_ok_def)

lemma reject_ok [simp]: "message_ok (reject E eno s)" and handlers_ok [simp]: "message_ok (handlers e s)"
  by (simp_all add: reject_def handlers_def SetLastException_def SetErrorMessage_ok)

lemma keeps_malloc [intro]: "keeps message_ok malloc_block"
  by (auto simp: keeps_def malloc_block_def split: list.split)

lemma keeps_http [intro]: "keeps message_ok (in_http n)"
  by (simp add: keeps_def in_http_def split: prod.split)

lemma keeps_try [intro]:
  fixes m :: "('c, ('a, 'b) api) call"
  assumes "keeps message_ok m" shows "keeps message_ok (try_catch x m)"
  unfolding keeps_def
proof (intro allI impI)
  fix s :: "('a, 'b) api" assume "message_ok s"
  obtain r s' where m: "m s = (r, s')" by fastforce
  then have "message_ok s'" using keepsD [OF assms] \<open>message_ok s\<close> by blast
  then show "message_ok (snd (try_catch x m s))" using m by (cases r) (simp_all add: try_catch_def)
qed

lemma keeps_assert [intro]: "keeps message_ok m \<Longrightarrow> keeps message_ok (PARAMETER_ASSERT E ok x m)"
  by (simp add: keeps_def PARAMETER_ASSERT_def)

lemmas keeps_api = keeps_malloc keeps_http keeps_try keeps_assert

lemma keeps_new [intro]: "keeps message_ok new_block"
  unfolding new_block_def by (rule keeps_then) (auto split: if_splits)

text \<open>The flag of a wrapper says what its pointer points to.\<close>

definition wrapper_ok :: "object_wrapper \<Rightarrow> bool" where
  "wrapper_ok ob \<longleftrightarrow> (if ow_reader ob then \<exists>rd. ow_rw ob = ReaderRW rd else \<exists>wr. ow_rw ob = WriterRW wr)"

lemma wrapper_access:
  "wrapper_ok ob \<Longrightarrow> ow_reader ob \<Longrightarrow> \<exists>rd. getReader ob = Ret rd"
  "wrapper_ok ob \<Longrightarrow> \<not> ow_reader ob \<Longrightarrow> \<exists>wr. getWriter ob = Ret wr"
  by (auto simp: wrapper_ok_def getReader_def getWriter_def)

section \<open>The states of a client\<close>

text \<open>
  A client that keeps its open objects in a list and calls the interface in any order, with any
  arguments, as long as no call is undefined or blocks.
\<close>

inductive client_step :: "('j, 'w, 'v) libs \<Rightarrow> object_wrapper list \<times> ('w, 'v) api \<Rightarrow> object_wrapper list \<times> ('w, 'v) api \<Rightarrow> bool"
  for E where
  call_init: "qingstorInitContext E loc key sec chunk s = (Ret c, s') \<Longrightarrow> client_step E (obs, s) (obs, s')"
| call_init_file: "qingstorInitContextFromFile E ok file name s = (Ret c, s') \<Longrightarrow> client_step E (obs, s) (obs, s')"
| call_list_buckets: "qingstorListBuckets E c loc counted s = (Ret r, s') \<Longrightarrow> client_step E (obs, s) (obs, s')"
| call_create_bucket: "qingstorCreateBucket E c loc b s = (Ret r, s') \<Longrightarrow> client_step E (obs, s) (obs, s')"
| call_delete_bucket: "qingstorDeleteBucket E c loc b s = (Ret r, s') \<Longrightarrow> client_step E (obs, s) (obs, s')"
| call_delete_object: "qingstorDeleteObject E c b k s = (Ret r, s') \<Longrightarrow> client_step E (obs, s) (obs, s')"
| call_list_objects: "qingstorListObjects E c b path s = Some (Ret l, s') \<Longrightarrow> client_step E (obs, s) (obs, s')"
| call_head_object: "qingstorHeadObject E c b k s = (Ret h, s') \<Longrightarrow> client_step E (obs, s) (obs, s')"
| call_get: "qingstorGetObject E c b k rs re s = Some (Ret ob, s') \<Longrightarrow> client_step E (obs, s) (obs @ (case ob of None \<Rightarrow> [] | Some x \<Rightarrow> [x]), s')"
| call_put: "qingstorPutObject E c b k cache s = (Ret ob, s') \<Longrightarrow> client_step E (obs, s) (obs @ (case ob of None \<Rightarrow> [] | Some x \<Rightarrow> [x]), s')"
| call_cancel: "i < length obs \<Longrightarrow> qingstorCancelObject E c (Some (obs ! i)) s = (Ret r, Some ob, s') \<Longrightarrow>
    client_step E (obs, s) (obs[i := ob], s')"
| call_read: "i < length obs \<Longrightarrow> qingstorRead E c (Some (obs ! i)) buf n s = Some (Ret r, Some ob, s') \<Longrightarrow>
    client_step E (obs, s) (obs[i := ob], s')"
| call_write: "i < length obs \<Longrightarrow> qingstorWrite E c (Some (obs ! i)) buf n s = Some (Ret r, Some ob, s') \<Longrightarrow>
    client_step E (obs, s) (obs[i := ob], s')"
| call_close: "i < length obs \<Longrightarrow> qingstorCloseObject E (Some (obs ! i)) s = (Ret r, s') \<Longrightarrow>
    client_step E (obs, s) (take i obs @ drop (Suc i) obs, s')"

inductive client_reach :: "('j, 'w, 'v) libs \<Rightarrow> ('w, 'v) api \<Rightarrow> object_wrapper list \<times> ('w, 'v) api \<Rightarrow> bool"
  for E s0 where
  reach_start: "client_reach E s0 ([], s0)"
| reach_step: "client_reach E s0 c \<Longrightarrow> client_step E c c' \<Longrightarrow> client_reach E s0 c'"

definition client_ok :: "object_wrapper list \<times> ('w, 'v) api \<Rightarrow> bool" where
  "client_ok c \<longleftrightarrow> (\<forall>ob \<in> set (fst c). wrapper_ok ob) \<and> message_ok (snd c)"

lemma simple_keeps [intro]: "keeps message_ok (simple_request m)"
  unfolding simple_request_def by (intro keeps_api keeps_then keeps_return)

lemmas api_defs = qingstorInitContext_def qingstorInitContextFromFile_def qingstorListBuckets_def
  qingstorCreateBucket_def qingstorDeleteBucket_def qingstorDeleteObject_def qingstorHeadObject_def
  qingstorPutObject_def

lemma keeps_new_context [intro]: "keeps message_ok (new_context cfg)"
proof -
  have *: "keeps message_ok (try_catch None (then_call new_block (\<lambda>_. return (Some x))))" for x :: Configuration
    by (intro keeps_api keeps_then keeps_new keeps_return)
  have "keeps message_ok (then_call new_block (\<lambda>_. lift_outcome cfg))" by (intro keeps_then keeps_new keeps_lift)
  from keepsD [OF this] show ?thesis
    unfolding keeps_def new_context_def by (auto split: prod.split outcome.split intro!: keeps_snd [OF *])
qed

lemma plain_calls_keep:
  "keeps message_ok (qingstorInitContext E loc key sec chunk)" "keeps message_ok (qingstorInitContextFromFile E ok file name)"
  "keeps message_ok (qingstorListBuckets E c loc counted)" "keeps message_ok (qingstorCreateBucket E c loc b)"
  "keeps message_ok (qingstorDeleteBucket E c loc b)" "keeps message_ok (qingstorDeleteObject E c b k)"
  "keeps message_ok (qingstorHeadObject E c b k)" "keeps message_ok (qingstorPutObject E c b k cache)"
  unfolding api_defs Let_def
  by (intro keeps_api keeps_then keeps_branch keeps_return keeps_lift keeps_new keeps_new_context simple_keeps)+

lemma keeps_listing: "keeps message_ok (try_catch None (then_call (lift_outcome r) convert_listing))"
  unfolding convert_listing_def Let_def
  by (intro keeps_api keeps_then keeps_lift keeps_branch keeps_raise keeps_return)

lemma listObjects_keeps:
  "qingstorListObjects E c b path s = Some (r, s') \<Longrightarrow> message_ok s \<Longrightarrow> message_ok s'"
  unfolding qingstorListObjects_def
  by (auto split: if_splits dest!: arg_cong [of _ _ snd] intro!: keeps_snd [OF keeps_listing])

lemma getObject_keeps:
  assumes "qingstorGetObject E c b k rs re s = Some (r, s')" "message_ok s"
  shows "message_ok s'" and "r = Ret (Some ob) \<Longrightarrow> wrapper_ok ob"
proof -
  have head: "keeps message_ok (then_call new_block (\<lambda>_. in_http m))" for m :: "(HeadObjectResult, 'a) call"
    by (intro keeps_then keeps_new keeps_http)
  have open_reader: "keeps message_ok (try_catch None (then_call (lift_outcome r) (\<lambda>rd. return (f rd))))"
    for r :: "reader outcome" and f :: "reader \<Rightarrow> object_wrapper option"
    by (intro keeps_api keeps_then keeps_lift keeps_return)
  show "message_ok s'"
    using assms unfolding qingstorGetObject_def
    by (auto split: if_splits prod.splits outcome.splits dest!: keepsD [OF head] keepsD [OF keeps_new] keepsD [OF open_reader])
  show "wrapper_ok ob" if "r = Ret (Some ob)"
    using assms that unfolding qingstorGetObject_def
    by (auto simp: try_catch_def then_call_def lift_outcome_def return_def wrapper_ok_def new_wrapper_def
        split: if_splits prod.splits outcome.splits)
qed

lemma putObject_wrapper:
  assumes "qingstorPutObject E c b k cache s = (Ret (Some ob), s')" shows "wrapper_ok ob"
  using assms unfolding qingstorPutObject_def PARAMETER_ASSERT_def
  by (auto simp: try_catch_def then_call_def lift_outcome_def return_def wrapper_ok_def new_wrapper_def
        split: if_splits prod.splits outcome.splits)

lemma with_writer_keeps:
  assumes "with_writer x m good ob s = (r, ob', s')" "message_ok s" "wrapper_ok ob"
  shows "message_ok s' \<and> wrapper_ok ob'"
  using assms by (auto simp: with_writer_def wrapper_ok_def getWriter_def
      split: if_splits prod.splits outcome.splits rw_ptr.splits)

lemma cancel_keeps:
  assumes "qingstorCancelObject E c (Some ob) s = (r, Some ob', s')" "message_ok s" "wrapper_ok ob"
  shows "message_ok s' \<and> wrapper_ok ob'"
  using assms by (auto simp: qingstorCancelObject_def split: if_splits prod.splits dest: with_writer_keeps)

lemma write_keeps:
  assumes "qingstorWrite E c (Some ob) buf n s = Some (r, Some ob', s')" "message_ok s" "wrapper_ok ob"
  shows "message_ok s' \<and> wrapper_ok ob'"
proof -
  have *: "message_ok (snd (snd (with_writer (-1) m n ob s))) \<and> wrapper_ok (fst (snd (with_writer (-1) m n ob s)))" for m
    using with_writer_keeps [OF _ assms(2,3)] by (metis prod.collapse)
  show ?thesis
    using assms by (auto simp: qingstorWrite_def case_prod_unfold * split: if_splits outcome.splits)
qed

lemma read_keeps:
  assumes "qingstorRead E c (Some ob) buf n s = Some (r, Some ob', s')" "message_ok s" "wrapper_ok ob"
  shows "message_ok s' \<and> wrapper_ok ob'"
proof (cases "c = None \<or> \<not> buf \<or> \<not> n > 0 \<or> \<not> ow_reader ob")
  case True then show ?thesis using assms by (auto simp: qingstorRead_def)
next
  case False
  then obtain rd where rd: "getReader ob = Ret rd" "ow_reader ob" using assms(3) wrapper_access(1) by blast
  obtain q rd' v where "reader_transferData (lb_multi E) (nat n) (rd, ap_multi s) = Some (q, rd', v)"
    using assms(1) False rd by (auto simp: qingstorRead_def)
  then show ?thesis
    using assms(1,2) False rd by (cases q) (auto simp: qingstorRead_def wrapper_ok_def Let_def split: if_splits)
qed

lemma close_keeps:
  assumes "qingstorCloseObject E (Some ob) s = (r, s')" "message_ok s" "wrapper_ok ob"
  shows "message_ok s'"
proof -
  obtain q ob' s1 where close: "close_object E ob s = (q, ob', s1)" by (rule prod_cases3)
  have "message_ok s1"
    using close assms(2,3) unfolding close_object_def
    by (auto simp: then_call_def lift_outcome_def return_def split: if_splits outcome.splits dest: with_writer_keeps)
  moreover have "message_ok (snd (destroy_wrapper E ob' s1))"
    using calculation by (auto simp: destroy_wrapper_def split: rw_ptr.split prod.split)
  ultimately show ?thesis
    using assms(1) close by (cases q) (auto simp: qingstorCloseObject_def then_call_def return_def split: prod.splits outcome.splits)
qed

text \<open>The result of a call that may open an object, and what it adds to the client's list.\<close>

lemma opened_ok:
  "client_ok (obs, s) \<Longrightarrow> message_ok s' \<Longrightarrow> (\<And>x. ob = Some x \<Longrightarrow> wrapper_ok x) \<Longrightarrow>
    client_ok (obs @ (case ob of None \<Rightarrow> [] | Some x \<Rightarrow> [x]), s')"
  by (auto simp: client_ok_def split: option.split)

lemma updated_ok:
  assumes "client_ok (obs, s)" "i < length obs" "wrapper_ok (obs ! i) \<Longrightarrow> message_ok s \<Longrightarrow> message_ok s' \<and> wrapper_ok ob"
  shows "client_ok (obs[i := ob], s')"
proof -
  have "wrapper_ok (obs ! i)" "message_ok s" using assms(1,2) by (auto simp: client_ok_def)
  then show ?thesis using assms set_update_subset_insert [of obs i ob] by (auto simp: client_ok_def)
qed

lemma client_ok_state: "client_ok (obs, s) \<Longrightarrow> message_ok s' \<Longrightarrow> client_ok (obs, s')"
  by (simp add: client_ok_def)

lemma client_step_ok:
  assumes "client_step E c c'" "client_ok c" shows "client_ok c'"
  using assms
proof cases
  case (call_close i obs s r s')
  then have "message_ok s'" using assms(2) close_keeps [OF call_close(4)] by (auto simp: client_ok_def)
  then show ?thesis using assms(2) call_close by (auto simp: client_ok_def dest: in_set_takeD in_set_dropD)
next
  case (call_cancel i obs ca s r ob s')
  then show ?thesis using assms(2) updated_ok cancel_keeps [OF call_cancel(4)] by metis
next
  case (call_read i obs ca buf n s r ob s')
  then show ?thesis using assms(2) updated_ok read_keeps [OF call_read(4)] by metis
next
  case (call_write i obs ca buf n s r ob s')
  then show ?thesis using assms(2) updated_ok write_keeps [OF call_write(4)] by metis
qed (auto intro!: opened_ok intro: client_ok_state plain_calls_keep [THEN keepsD] listObjects_keeps getObject_keeps putObject_wrapper
      simp: client_ok_def)

lemma client_reach_ok: "client_reach E s0 c \<Longrightarrow> message_ok s0 \<Longrightarrow> client_ok c"
proof (induction rule: client_reach.induct)
  case (reach_step c c')
  then show ?case using client_step_ok by blast
qed (simp add: client_ok_def)

section \<open>Opening, writing and closing\<close>

text \<open>A client that writes its buffers one after the other; the values returned.\<close>

fun write_calls :: "('j, 'w, 'v) libs \<Rightarrow> Configuration \<Rightarrow> byte list list \<Rightarrow> object_wrapper \<times> ('w, 'v) api \<Rightarrow>
    (int list \<times> object_wrapper \<times> ('w, 'v) api) option" where
  "write_calls E c [] (ob, s) = Some ([], ob, s)"
| "write_calls E c (b # bs) (ob, s) =
     (case qingstorWrite E (Some c) (Some ob) (Some b) (int (length b)) s of
        Some (Ret v, Some ob', s') \<Rightarrow> map_option (\<lambda>(vs, y). (v # vs, y)) (write_calls E c bs (ob', s'))
      | _ \<Rightarrow> None)"

definition write_object :: "writer \<Rightarrow> object_wrapper" where
  "write_object wr = \<lparr>ow_reader = False, ow_rw = WriterRW wr\<rparr>"

lemma getWriter_object [simp]: "getWriter (write_object wr) = Ret wr" "\<not> ow_reader (write_object wr)"
  "(write_object wr)\<lparr>ow_rw := WriterRW wr2\<rparr> = write_object wr2"
  by (simp_all add: getWriter_def write_object_def)

lemma putObject_opens:
  assumes "QingStorWriter (lb_http E) cfg bucket key cache (ap_world s) = (Ret wr, w)"
    and "ap_alloc s = []" and "bucket \<noteq> []" and "key \<noteq> []"
  shows "qingstorPutObject E (Some cfg) (Some bucket) (Some key) cache s = (Ret (Some (write_object wr)), s\<lparr>ap_world := w\<rparr>)"
  using assms
  by (simp add: qingstorPutObject_def PARAMETER_ASSERT_def non_empty_def try_catch_def then_call_def new_block_def
      malloc_block_def in_http_def write_object_def new_wrapper_def)

lemma write_calls_all:
  "write_all (lb_http E) bs (wr, ap_world s) = Some (Ret (), wr', w') \<Longrightarrow> [] \<notin> set bs \<Longrightarrow>
    write_calls E c bs (write_object wr, s) = Some (map (int \<circ> length) bs, write_object wr', s\<lparr>ap_world := w'\<rparr>)"
proof (induction bs arbitrary: wr s)
  case (Cons b bs)
  have nonempty: "b \<noteq> []" "[] \<notin> set bs" using Cons.prems(2) by auto
  obtain u wr1 w1 where t: "transferData (lb_http E) b (wr, ap_world s) = Some (Ret u, wr1, w1)"
    and rest: "write_all (lb_http E) bs (wr1, w1) = Some (Ret (), wr', w')"
    using Cons.prems(1) by (auto split: option.splits prod.splits outcome.splits)
  have "qingstorWrite E (Some c) (Some (write_object wr)) (Some b) (int (length b)) s =
      Some (Ret (int (length b)), Some (write_object wr1), s\<lparr>ap_world := w1\<rparr>)"
    using nonempty t by (simp add: qingstorWrite_def with_writer_def)
  with nonempty Cons.IH [of wr1 "s\<lparr>ap_world := w1\<rparr>"] rest Cons.prems(2) show ?case by simp
qed simp

lemma closeObject_writer:
  assumes "writer_close (lb_http E) (wr, ap_world s) = (Ret u, wr', w')"
  shows "qingstorCloseObject E (Some (write_object wr)) s = (Ret 0, s\<lparr>ap_world := w'\<rparr>)"
  using assms
  by (simp add: qingstorCloseObject_def close_object_def with_writer_def then_call_def destroy_wrapper_def) (simp add: write_object_def)

lemma careful_opening: "script i = json_response t \<Longrightarrow> careful script i = json_response t"
  by (simp add: careful_def json_response_def)

text \<open>The handles and states of an upload that the server accepts.\<close>

lemma upload_handles:
  assumes "addressable cfg bucket key" and "addressable cfg bucket key2" and "json_tokener_parse J t = Some j"
    and "json_get_ex J j ''upload_id'' = Some ju" and "json_get_string J ju = Some uid"
    and "json_get_ex J j ''key'' = Some jk" and "json_get_string J jk = Some key2"
    and "list_all IS_URL_CHAR uid" and "length uid < 30000"
    and "script (length (ap_world s)) = json_response t" and "NUL \<notin> set t"
    and "\<And>i. length (ap_world s) < i \<Longrightarrow> accepted_response (script i)"
    and "0 < mChunkSize cfg" and "mChunkSize cfg < 2 ^ 31"
    and "lb_http E = scripted J (careful script)" and "ap_alloc s = []" and "bucket \<noteq> []" and "key \<noteq> []" and "[] \<notin> set inputs"
  shows "\<exists>wr w1 wr2 w2 w3 parts rest.
           qingstorPutObject E (Some cfg) (Some bucket) (Some key) True s = (Ret (Some (write_object wr)), s\<lparr>ap_world := w1\<rparr>) \<and>
           write_calls E cfg inputs (write_object wr, s\<lparr>ap_world := w1\<rparr>) =
             Some (map (int \<circ> length) inputs, write_object wr2, s\<lparr>ap_world := w2\<rparr>) \<and>
           qingstorCloseObject E (Some (write_object wr2)) (s\<lparr>ap_world := w2\<rparr>) = (Ret 0, s\<lparr>ap_world := w3\<rparr>) \<and>
           stored_parts script w3 = stored_parts script (ap_world s) @ parts @ [rest] \<and> concat parts @ rest = concat inputs \<and>
           (\<forall>p \<in> set parts. int (length p) = mChunkSize cfg) \<and> int (length rest) < mChunkSize cfg"
proof -
  have "\<And>i. length (ap_world s) < i \<Longrightarrow> accepted_response (careful script i)" using assms(12) by simp
  with upload_total [where script = "careful script" and w = "ap_world s" and inputs = inputs,
      OF assms(1-9) careful_opening [of script, OF assms(10)] assms(11) _ assms(13,14)]
  obtain wr w1 wr2 w2 wr3 w3 where run: "QingStorWriter (lb_http E) cfg bucket key True (ap_world s) = (Ret wr, w1)"
    "write_all (lb_http E) inputs (wr, w1) = Some (Ret (), wr2, w2)" "writer_close (lb_http E) (wr2, w2) = (Ret (), wr3, w3)"
    unfolding assms(15) by blast
  have put: "qingstorPutObject E (Some cfg) (Some bucket) (Some key) True s = (Ret (Some (write_object wr)), s\<lparr>ap_world := w1\<rparr>)"
    using putObject_opens [OF run(1) assms(16-18)] .
  have wrt: "write_calls E cfg inputs (write_object wr, s\<lparr>ap_world := w1\<rparr>) =
      Some (map (int \<circ> length) inputs, write_object wr2, s\<lparr>ap_world := w2\<rparr>)"
    using write_calls_all [of E inputs wr "s\<lparr>ap_world := w1\<rparr>"] run(2) assms(19) by simp
  have cls: "qingstorCloseObject E (Some (write_object wr2)) (s\<lparr>ap_world := w2\<rparr>) = (Ret 0, s\<lparr>ap_world := w3\<rparr>)"
    using closeObject_writer [of E wr2 "s\<lparr>ap_world := w2\<rparr>"] run(3) by simp
  obtain parts rest where "stored_parts script w3 = stored_parts script (ap_world s) @ parts @ [rest]"
    "concat parts @ rest = concat inputs" "\<forall>p \<in> set parts. int (length p) = mChunkSize cfg" "int (length rest) < mChunkSize cfg"
    using net.whole_upload [OF assms(13,14) run [unfolded assms(15)]] by blast
  with put wrt cls show ?thesis by blast
qed

text \<open>
  C7. Upload through the C interface: if the server answers the opening request and accepts the
  rest, creating a cached object, writing buffers and closing it return a handle, the length
  of every buffer and 0, and the server has stored the concatenation of the buffers in parts
  of the chunk size and one last shorter part.
\<close>

theorem api_upload:
  assumes "addressable cfg bucket key" and "addressable cfg bucket key2" and "json_tokener_parse J t = Some j"
    and "json_get_ex J j ''upload_id'' = Some ju" and "json_get_string J ju = Some uid"
    and "json_get_ex J j ''key'' = Some jk" and "json_get_string J jk = Some key2"
    and "list_all IS_URL_CHAR uid" and "length uid < 30000"
    and "script (length (ap_world s)) = json_response t" and "NUL \<notin> set t"
    and "\<And>i. length (ap_world s) < i \<Longrightarrow> accepted_response (script i)"
    and "0 < mChunkSize cfg" and "mChunkSize cfg < 2 ^ 31"
    and "lb_http E = scripted J (careful script)" and "ap_alloc s = []" and "bucket \<noteq> []" and "key \<noteq> []" and "[] \<notin> set inputs"
  shows "\<exists>ob s1 ob2 s2 s3 parts rest.
           qingstorPutObject E (Some cfg) (Some bucket) (Some key) True s = (Ret (Some ob), s1) \<and>
           write_calls E cfg inputs (ob, s1) = Some (map (int \<circ> length) inputs, ob2, s2) \<and>
           qingstorCloseObject E (Some ob2) s2 = (Ret 0, s3) \<and>
           stored_parts script (ap_world s3) = stored_parts script (ap_world s) @ parts @ [rest] \<and>
           concat parts @ rest = concat inputs \<and>
           (\<forall>p \<in> set parts. int (length p) = mChunkSize cfg) \<and> int (length rest) < mChunkSize cfg"
  using upload_handles [OF assms] by fastforce

text \<open>Libraries and a first state for the examples.\<close>

definition example_libs :: "byte list \<Rightarrow> (json, net, file_world) libs" where
  "example_libs obj =
     \<lparr>lb_http = scripted example_json (careful example_script), lb_multi = file_server obj,
      lb_strerror = (\<lambda>_. ''error''), lb_multi_init = True\<rparr>"

definition example_state :: "(net, file_world) api" where
  "example_state =
     \<lparr>ap_message = ''Success'', ap_errno = 0, ap_world = [],
      ap_multi = \<lparr>fw_conns = [], fw_held = [], fw_sched = [[(2, 1)]]\<rparr>, ap_alloc = []\<rparr>"

theorem api_upload_witness:
  "\<exists>ob s1 ob2 s2 s3 parts rest.
     qingstorPutObject (example_libs []) (Some (example_config 2)) (Some ''b'') (Some ''k'') True example_state = (Ret (Some ob), s1) \<and>
     write_calls (example_libs []) (example_config 2) [''abc'', ''de''] (ob, s1) = Some ([3, 2], ob2, s2) \<and>
     qingstorCloseObject (example_libs []) (Some ob2) s2 = (Ret 0, s3) \<and>
     stored_parts example_script (ap_world s3) = parts @ [rest] \<and> concat parts @ rest = ''abcde''"
proof -
  have st: "length (ap_world example_state) = 0" "stored_parts example_script (ap_world example_state) = []"
    "ap_alloc example_state = []" "lb_http (example_libs []) = scripted example_json (careful example_script)"
    by (simp_all add: example_state_def example_libs_def)
  have open1: "example_script (length (ap_world example_state)) = json_response ''opened''" by (simp add: st example_script_def)
  have rest: "\<And>i. length (ap_world example_state) < i \<Longrightarrow> accepted_response (example_script i)"
    by (simp add: st example_script_def accepted_response_def ok_response_def)
  have size: "0 < mChunkSize (example_config 2)" "mChunkSize (example_config 2) < 2 ^ 31" by (simp_all add: example_chunk)
  show ?thesis
    using api_upload [OF example_addressable example_addressable example_json_facts(1,2,4,3,4) _ _ open1 example_opening(2)
        rest size st(4,3), of "[''abc'', ''de'']"]
    by (simp add: st IS_URL_CHAR_iff) metis
qed

section \<open>Opening, reading and closing\<close>

text \<open>
  A client that reads with buffers of the given sizes until a call returns 0 or less: the
  pieces, and that last value if there was one.
\<close>

fun read_calls :: "('j, 'w, 'v) libs \<Rightarrow> Configuration \<Rightarrow> nat list \<Rightarrow> object_wrapper \<times> ('w, 'v) api \<Rightarrow>
    (byte list list \<times> int option \<times> object_wrapper \<times> ('w, 'v) api) option" where
  "read_calls E c [] (ob, s) = Some ([], None, ob, s)"
| "read_calls E c (n # ns) (ob, s) =
     (case qingstorRead E (Some c) (Some ob) True (int n) s of
        Some (Ret (v, d), Some ob', s') \<Rightarrow>
          if v > 0 then map_option (\<lambda>(ds, y). (d # ds, y)) (read_calls E c ns (ob', s')) else Some ([], Some v, ob', s')
      | _ \<Rightarrow> None)"

definition read_object :: "reader \<Rightarrow> object_wrapper" where
  "read_object rd = \<lparr>ow_reader = True, ow_rw = ReaderRW rd\<rparr>"

lemma getReader_object [simp]: "getReader (read_object rd) = Ret rd" "ow_reader (read_object rd)"
  "(read_object rd)\<lparr>ow_rw := ReaderRW rd2\<rparr> = read_object rd2"
  by (simp_all add: getReader_def read_object_def)

lemma getObject_opens:
  assumes "headObject (lb_http E) cfg bucket key (ap_world s) = (Ret h, w)"
    and "QingStorReader cfg bucket \<lparr>obj_key = key, obj_size = hor_content_length h, obj_range = requested rs re h\<rparr> (lb_multi_init E) =
      Some (Ret rd)"
    and "ap_alloc s = []" and "bucket \<noteq> []" and "key \<noteq> []" and "rs \<le> re"
  shows "qingstorGetObject E (Some cfg) (Some bucket) (Some key) rs re s = Some (Ret (Some (read_object rd)), s\<lparr>ap_world := w\<rparr>)"
  using assms
  by (simp add: qingstorGetObject_def non_empty_def try_catch_def then_call_def new_block_def
      malloc_block_def in_http_def read_object_def new_wrapper_def)

lemma read_calls_pieces:
  "read_pieces (lb_multi E) ns (rd, ap_multi s) = Some (ds, THROW QingStorEndOfStream ''transferData'', rd', v) \<Longrightarrow>
    [] \<notin> set ds \<Longrightarrow> \<forall>n \<in> set ns. 0 < n \<Longrightarrow>
    read_calls E c ns (read_object rd, s) = Some (ds, Some 0, read_object rd', s\<lparr>ap_multi := v\<rparr>)"
proof (induction ns arbitrary: rd s ds)
  case (Cons n ns)
  obtain r rd1 v1 where t: "reader_transferData (lb_multi E) n (rd, ap_multi s) = Some (r, rd1, v1)"
    using Cons.prems(1) by (auto split: option.splits)
  show ?case
  proof (cases r)
    case (Ret d)
    then obtain es where es: "ds = d # es" and rest: "read_pieces (lb_multi E) ns (rd1, v1) =
        Some (es, THROW QingStorEndOfStream ''transferData'', rd', v)"
      using Cons.prems(1) t by auto
    with Cons.IH [of rd1 "s\<lparr>ap_multi := v1\<rparr>" es] Cons.prems(2,3) t Ret show ?thesis
      by (auto simp: qingstorRead_def Let_def)
  next
    case (Throw e)
    then have "ds = []" "e = mk_exn QingStorEndOfStream ''transferData''" "rd' = rd1" "v = v1"
      using Cons.prems(1) t by (auto simp: THROW_def)
    with t Throw Cons.prems(3) show ?thesis by (simp add: qingstorRead_def Let_def mk_exn_def)
  next
    case Undefined
    then show ?thesis using Cons.prems(1) t by (simp add: THROW_def)
  qed
qed (simp add: THROW_def)

lemma closeObject_reader:
  assumes "pl_active (rd_pipeline rd) = []" and "pl_pending (rd_pipeline rd) = []"
  shows "qingstorCloseObject E (Some (read_object rd)) s = (Ret 0, s)"
  using assms
  by (simp add: qingstorCloseObject_def close_object_def then_call_def destroy_wrapper_def)
    (simp add: read_object_def destroy_reader_def destroy_pipeline_def)

text \<open>
  C8. Download through the C interface: opening an object whose attributes can be fetched,
  reading it with positive buffer sizes until a call returns 0 and closing it hand out exactly
  the bytes of the range asked for, a negative start being the first byte and a negative end
  the last, and return 0, leaving \<open>errno\<close> alone.
\<close>

theorem api_download:
  assumes "headObject (lb_http E) cfg bucket key (ap_world s) = (Ret h, w)" and "lb_multi E = file_server obj" and "lb_multi_init E"
    and "ob = \<lparr>obj_key = key, obj_size = hor_content_length h, obj_range = requested rs re h\<rparr>" and "readable cfg bucket ob obj"
    and "fw_conns (ap_multi s) = []" and "ap_alloc s = []" and "bucket \<noteq> []" and "key \<noteq> []" and "rs \<le> re"
    and "\<forall>n \<in> set ns. 0 < n" and "length (range_bytes ob obj) < length ns"
  shows "\<exists>h1 s1 ds h2 s2 s3.
           qingstorGetObject E (Some cfg) (Some bucket) (Some key) rs re s = Some (Ret (Some h1), s1) \<and>
           read_calls E cfg ns (h1, s1) = Some (ds, Some 0, h2, s2) \<and> concat ds = range_bytes ob obj \<and>
           qingstorCloseObject E (Some h2) s2 = (Ret 0, s3) \<and> ap_errno s3 = ap_errno s"
proof -
  obtain rd where rd: "QingStorReader cfg bucket ob True = Some (Ret rd)" "file_transport.pipe_inv obj (rd_pipeline rd, ap_multi s)"
    "file_transport.owed_pipe obj (rd_pipeline rd) = range_bytes ob obj" using reader_opens [OF assms(5,6)] by blast
  obtain ds r rd' v where run: "read_pieces (file_server obj) ns (rd, ap_multi s) = Some (ds, r, rd', v)"
    "range_bytes ob obj = concat ds @ file_transport.owed_pipe obj (rd_pipeline rd')" "[] \<notin> set ds"
    "if length ds = length ns then r = Ret ()
      else r = THROW QingStorEndOfStream ''transferData'' \<and> file_transport.owed_pipe obj (rd_pipeline rd') = [] \<and>
        pl_active (rd_pipeline rd') = [] \<and> pl_pending (rd_pipeline rd') = []"
    using read_pieces_total [OF rd(2) assms(11)] rd(3) by auto
  have "length ds \<noteq> length ns" using concat_length [OF run(3)] assms(12) unfolding run(2) by simp
  then have e: "r = THROW QingStorEndOfStream ''transferData''" "concat ds = range_bytes ob obj"
    "pl_active (rd_pipeline rd') = []" "pl_pending (rd_pipeline rd') = []" using run(2,4) by simp_all
  have "qingstorGetObject E (Some cfg) (Some bucket) (Some key) rs re s = Some (Ret (Some (read_object rd)), s\<lparr>ap_world := w\<rparr>)"
    by (rule getObject_opens [OF assms(1) _ assms(7-10)]) (use rd(1) assms(3,4) in simp)
  moreover have "read_calls E cfg ns (read_object rd, s\<lparr>ap_world := w\<rparr>) =
      Some (ds, Some 0, read_object rd', s\<lparr>ap_world := w, ap_multi := v\<rparr>)"
    using read_calls_pieces [of E ns rd "s\<lparr>ap_world := w\<rparr>" ds rd' v cfg] run(1,3) assms(2,11) e(1) by simp
  ultimately show ?thesis using closeObject_reader [OF e(3,4), of E] e(2) by fastforce
qed

text \<open>A server whose every answer is a header.\<close>

definition head_text :: string where
  "head_text = ''HTTP/1.1 200 OK'' @ [CR, LF] @ ''Content-Length: 5'' @ [CR, LF] @ [CR, LF]"

definition head_script :: "nat \<Rightarrow> response" where
  "head_script n = \<lparr>rs_code = CURLE_OK, rs_body = [], rs_header = [head_text], rs_reads = []\<rparr>"

definition head_json :: "int \<Rightarrow> json" where
  "head_json n = JObj [(''Content-Type'', JStr ''t''), (''Content-Length'', JInt n), (''Last-Modified'', JStr ''d'')]"

definition download_libs :: "byte list \<Rightarrow> (json, net, file_world) libs" where
  "download_libs obj = (example_libs obj)\<lparr>lb_http := scripted (json_values (\<lambda>_. Some (head_json (int (length obj))))) head_script\<rparr>"

lemma empty_text: "buffer_text (run_writes [] empty_buffer) = None"
  by (simp add: buffer_text_def run_writes_def empty_buffer_def)

lemma served_head:
  assumes "addressable cfg bucket key"
  shows "\<exists>h w. headObject (lb_http (download_libs obj)) cfg bucket key w0 = (Ret h, w) \<and> hor_content_length h = int (length obj)"
proof -
  let ?j = "head_json (int (length obj))" let ?J = "json_values (\<lambda>_. Some ?j)" and ?host = "bucket_host cfg bucket"
  obtain pq where url: "qs_parse_url blank_url (object_url cfg ?host key) = Ret pq"
    using object_url_plain [OF assms] by blast
  have "header_json head_text \<noteq> None" by code_simp
  then have "ParseHttpHeader ?J head_text = Some ?j" by (auto simp: ParseHttpHeader_def json_values_def)
  moreover have "NUL \<notin> set head_text" by (simp add: head_text_def)
  ultimately have "handle_response (scripted ?J head_script) QSRT_HEAD_OBJECT (head_script (length w0)) = Ret (Some ?j)"
    using collected_text [of head_text] empty_text by (simp add: handle_response_def head_script_def)
  from request_succeeds [OF url this] have "\<exists>rq up md'. DoGetJSON (scripted ?J head_script) ?host
      (object_url cfg ?host key) (Some bucket) None (config_cred cfg) QSRT_HEAD_OBJECT None
      (mConnectionRetries cfg) w0 = (Ret (Some ?j), md', w0 @ [(rq, up)])"
    by (simp add: is_upload_def)
  then show ?thesis
    by (auto simp: headObject_def download_libs_def Let_def get_json_def then_call_def rethrowing_def
        extractHeadObjectContent_def field_or_def head_json_def json_values_def json_std_string_def empty_head_def)
qed

lemmas example_head = served_head [OF example_addressable]

theorem api_download_witness:
  "\<exists>h1 s1 ds h2 s2 s3.
     qingstorGetObject (download_libs ''abcde'') (Some (example_config 2)) (Some ''b'') (Some ''k'') (-1) (-1) example_state =
       Some (Ret (Some h1), s1) \<and>
     read_calls (download_libs ''abcde'') (example_config 2) [3, 1, 3, 3, 3, 3] (h1, s1) = Some (ds, Some 0, h2, s2) \<and>
     concat ds = ''abcde'' \<and> qingstorCloseObject (download_libs ''abcde'') (Some h2) s2 = (Ret 0, s3)"
proof -
  let ?E = "download_libs ''abcde''"
  obtain h w where h: "headObject (lb_http ?E) (example_config 2) ''b'' ''k'' (ap_world example_state) = (Ret h, w)" "hor_content_length h = 5"
    using example_head [of "''abcde''"] by (force simp: example_state_def)
  let ?ob = "\<lparr>obj_key = ''k'', obj_size = hor_content_length h, obj_range = requested (-1) (-1) h\<rparr>"
  have E: "lb_multi ?E = file_server ''abcde''" "lb_multi_init ?E" by (simp_all add: download_libs_def example_libs_def)
  have r: "readable (example_config 2) ''b'' ?ob ''abcde''"
    using example_addressable [of 2]
    by (simp add: readable_def requested_def h(2)) (simp add: example_config_def Configuration_direct_def)
  have bytes: "range_bytes ?ob ''abcde'' = ''abcde''" by (simp add: range_bytes_def requested_def h(2) subbuf_def)
  have st: "fw_conns (ap_multi example_state) = []" "ap_alloc example_state = []" by (simp_all add: example_state_def)
  show ?thesis
    using api_download [OF h(1) E refl r st _ _ _ _, of "[3, 1, 3, 3, 3, 3]"] unfolding bytes by auto
qed

text \<open>
  C17. An empty object: its range, from the first byte to the last, becomes one fetcher of no
  bytes, whose request asks for the malformed range \<open>0--1\<close>.
\<close>

theorem empty_object_range:
  assumes "hor_content_length h = 0" and "ob = \<lparr>obj_key = key, obj_size = 0, obj_range = requested (-1) (-1) h\<rparr>"
    and "1 < mNConnections cfg \<longrightarrow> 0 < mChunkSize cfg \<and> mChunkSize cfg \<le> INT64_MAX"
  shows "\<exists>rd f. QingStorReader cfg bucket ob True = Some (Ret rd) \<and> pl_pending (rd_pipeline rd) = [f] \<and> ft_len f = 0 \<and>
    filter is_range_line (range_headers f) = [''Range: bytes=0--1'']"
proof -
  have r: "range_start (obj_range ob) = 0" "range_end (obj_range ob) = -1" using assms(1) by (simp_all add: assms(2) requested_def)
  have "chunk_loop (fst (chunk_sizes cfg)) (-1) 0 [] = Some (Ret [(0, 0)])"
    using assms(3) by (subst chunk_loop.simps) (auto simp: chunk_sizes_def chunk_len_def Let_def INT64_MIN_def INT64_MAX_def)
  then have "QingStorReader cfg bucket ob True = Some (Ret (reader_of cfg bucket ob [(0, 0)]))"
    by (simp add: reader_Ret_iff r)
  moreover have "header_line RANGE (range_text 0 0) = ''Range: bytes=0--1''" by code_simp
  then have "filter is_range_line (range_headers (new_fetcher cfg bucket ob (0, 0))) = [''Range: bytes=0--1'']"
    by (simp add: range_headers_def new_fetcher_def HTTPFetcher_def Let_def resume_offset_def resume_len_def unread_def filter_header_add
        range_text_def [of 0 0])
  ultimately show ?thesis by (simp add: reader_of_def) (simp add: new_fetcher_def HTTPFetcher_def Let_def)
qed

theorem empty_object_range_witness:
  "\<exists>rd f. QingStorReader (example_config 2) ''b'' \<lparr>obj_key = ''k'', obj_size = 0, obj_range = requested (-1) (-1) empty_head\<rparr> True = Some (Ret rd) \<and>
    pl_pending (rd_pipeline rd) = [f] \<and> filter is_range_line (range_headers f) = [''Range: bytes=0--1'']"
proof -
  have "1 < mNConnections (example_config 2) \<longrightarrow> 0 < mChunkSize (example_config 2) \<and> mChunkSize (example_config 2) \<le> INT64_MAX"
    by (simp add: example_chunk INT64_MAX_def)
  from empty_object_range [OF _ refl this, of empty_head "''b''" "''k''"] show ?thesis by (auto simp: empty_head_def)
qed

section \<open>Errors\<close>

text \<open>An outcome of a request: what a caller of the functions that return 0 or -1 sees.\<close>

definition request_reported :: "bool \<Rightarrow> ('w, 'v) api \<Rightarrow> int outcome \<times> ('w, 'v) api \<Rightarrow> bool" where
  "request_reported ok s y \<longleftrightarrow>
     (case y of
        (Ret v, s') \<Rightarrow> if ok then v = 0 \<and> ap_errno s' = ap_errno s \<and> ap_message s' = ap_message s \<or> v = -1 \<and> ap_errno s' = EINTERNAL
                       else v = -1 \<and> ap_errno s' = EINVAL
      | (Throw e, s') \<Rightarrow> False
      | (Undefined, s') \<Rightarrow> True)"

definition plain_failures :: "('a, 'w) call \<Rightarrow> bool" where
  "plain_failures m \<longleftrightarrow> (\<forall>w e. fst (m w) = Throw e \<longrightarrow> (\<exists>t. e = Exn QingStorException t None))"

lemma get_json_failures: "plain_failures (get_json E cfg host url bucket location cred qsrt md)"
  unfolding plain_failures_def get_json_def by (auto split: prod.splits) (metis DoGetJSON_plain fst_conv)

lemma rethrown_request_failures:
  "plain_failures (rethrowing (then_call (get_json E cfg host url bucket location cred qsrt md) (\<lambda>_. return ())))"
  unfolding plain_failures_def
proof (intro allI impI)
  fix w e
  let ?m = "get_json E cfg host url bucket location cred qsrt md"
  assume "fst (rethrowing (then_call ?m (\<lambda>_. return ())) w) = Throw e"
  moreover obtain r w' where m: "?m w = (r, w')" by fastforce
  moreover have "r = Throw x \<Longrightarrow> \<exists>t. x = Exn QingStorException t None" for x
    using get_json_failures [of E cfg host url bucket location cred qsrt md] m
    unfolding plain_failures_def by (metis fst_conv)
  ultimately show "\<exists>t. e = Exn QingStorException t None"
    by (cases r) (auto simp: rethrowing_def then_call_def slice_exn_def)
qed

lemma simple_failures:
  "plain_failures (createBucket H cfg loc b)" "plain_failures (deleteBucket H cfg loc b)" "plain_failures (deleteObject H cfg b k)"
  by (simp_all add: createBucket_def deleteBucket_def deleteObject_def Let_def rethrown_request_failures)

lemma simple_reported: "plain_failures m \<Longrightarrow> request_reported True s (simple_request m s)"
proof -
  assume plain: "plain_failures m"
  obtain r w where m: "m (ap_world s) = (r, w)" by fastforce
  show ?thesis
  proof (cases r)
    case (Throw e)
    then obtain t where "e = Exn QingStorException t None" using plain m unfolding plain_failures_def by (metis fst_conv)
    with m Throw show ?thesis
      by (auto simp: request_reported_def simple_request_def try_catch_def then_call_def in_http_def handlers_def is_a.simps)
  qed (use m in \<open>auto simp: request_reported_def simple_request_def try_catch_def then_call_def in_http_def\<close>)
qed

lemma rejected_reported: "request_reported False s (PARAMETER_ASSERT E False (-1) k s)"
  by (simp add: request_reported_def PARAMETER_ASSERT_def reject_def)

text \<open>
  C19. Creating and deleting buckets and objects: 0 with \<open>errno\<close> and the message as they were,
  or -1 with \<open>EINVAL\<close> for a rejected parameter and \<open>EINTERNAL\<close>, and never another code, for
  every failure of the request; no exception reaches the caller.
\<close>

theorem requests_reported:
  "request_reported (c \<noteq> None \<and> non_empty bucket) s (qingstorCreateBucket E c location bucket s) \<and>
   request_reported (c \<noteq> None \<and> non_empty bucket) s (qingstorDeleteBucket E c location bucket s) \<and>
   request_reported (c \<noteq> None \<and> non_empty bucket \<and> non_empty key) s (qingstorDeleteObject E c bucket key s)"
proof -
  have param: "request_reported ok s (PARAMETER_ASSERT E p (-1) k s)"
    if "ok \<Longrightarrow> p" "p \<Longrightarrow> request_reported ok s (k s)" "\<not> p \<Longrightarrow> \<not> ok" for ok p k
    using that rejected_reported [of s E k] by (cases p) (auto simp: PARAMETER_ASSERT_def)
  show ?thesis
    unfolding qingstorCreateBucket_def qingstorDeleteBucket_def qingstorDeleteObject_def
    by (intro conjI param) (auto intro!: simple_reported simple_failures)
qed

text \<open>
  C40. No configuration file can be used: with a non-empty path \<open>qingstorInitContextFromFile\<close>
  is undefined behaviour, since its handlers delete a pointer that was never set.
\<close>

theorem context_from_file_undefined:
  assumes "non_empty path"
  shows "fst (qingstorInitContextFromFile E parser_ok file path s) = Undefined"
proof -
  obtain e where e: "Configuration_file parser_ok (the path) file = Throw e" using Configuration_file_throws by blast
  obtain r s' where "new_block s = (r, s')" by fastforce
  then show ?thesis
    using assms by (cases r) (simp_all add: qingstorInitContextFromFile_def PARAMETER_ASSERT_def new_context_def then_call_def e)
qed

theorem context_from_file_undefined_witness:
  "fst (qingstorInitContextFromFile (example_libs []) True None (Some ''qingstor.yaml'') example_state) = Undefined"
  by (rule context_from_file_undefined) (simp add: non_empty_def)

text \<open>
  A listing that was fetched is returned with all its objects if both allocations succeed;
  if the first fails, a null pointer and \<open>EINTERNAL\<close>; but if the second fails, \<open>errno\<close> is
  \<open>EINTERNAL\<close> too and the caller gets a result that counts objects it does not hold.
\<close>

theorem listing_allocations:
  assumes "listObjects (lb_http E) cfg bucket (text_of path) (ap_world s) = Some (Ret res, w)" and "bucket \<noteq> []"
    and "length (lor_objects res) < 2 ^ 31" and "ap_alloc s = [first, second]"
  shows "\<exists>l s'. qingstorListObjects E (Some cfg) (Some bucket) path s = Some (Ret l, s') \<and>
           ap_errno s' = (if first \<and> second then ap_errno s else EINTERNAL) \<and>
           (if first then \<exists>x. l = Some x \<and> lr_nObjects x = int (length (lor_objects res)) \<and>
                 lr_objects x = (if second then Some (map (\<lambda>ob. (obj_key ob, obj_size ob)) (lor_objects res)) else None)
            else l = None)"
proof -
  have "to_int32 (int (length (lor_objects res))) = int (length (lor_objects res))" using assms(3) by simp
  then show ?thesis
    using assms(1,2,4)
    by (cases first; cases second)
      (simp_all add: qingstorListObjects_def non_empty_def convert_listing_def Let_def try_catch_def then_call_def malloc_block_def
        handlers_def SetLastException_def SetErrorMessage_def raise_def THROW_def mk_exn_def handleException_def is_a.simps)
qed

text \<open>The libraries of the paging server.\<close>

definition paging_libs :: "(json, unit, file_world) libs" where
  "paging_libs = \<lparr>lb_http = paging_env two_pages, lb_multi = file_server [], lb_strerror = (\<lambda>_. ''error''), lb_multi_init = True\<rparr>"

definition paging_state :: "bool list \<Rightarrow> (unit, file_world) api" where
  "paging_state bs =
     \<lparr>ap_message = ''Success'', ap_errno = 0, ap_world = (),
      ap_multi = \<lparr>fw_conns = [], fw_held = [], fw_sched = []\<rparr>, ap_alloc = bs\<rparr>"

theorem listing_allocations_witness:
  "\<exists>x s'. qingstorListObjects paging_libs (Some (example_config 1)) (Some ''b'') (Some ''p'') (paging_state [True, False]) =
     Some (Ret (Some x), s') \<and> lr_nObjects x = 2 \<and> lr_objects x = None \<and> ap_errno s' = EINTERNAL"
proof -
  have J: "env_json (paging_env two_pages) = json_values (map_of two_pages)" by simp
  from listObjects_all [OF this _ _ _ _ two_pages_served, of "()"] obtain res w where
    l: "listObjects (paging_env two_pages) (example_config 1) ''b'' ''p'' () = Some (Ret res, w)"
      "mset (lor_objects res) = mset (map unranged two_objects)" by (auto simp: two_objects_def)
  then have n: "length (lor_objects res) = 2" using mset_eq_length by (fastforce simp: two_objects_def)
  show ?thesis
    using listing_allocations [of paging_libs "example_config 1" "''b''" "Some ''p''" "paging_state [True, False]" res w True False] l(1) n
    by (auto simp: paging_libs_def paging_state_def text_of_def)
qed

text \<open>
  C18. In every state a client reaches, whatever calls it makes in whatever order, the message
  is a C string that fits its buffer, and the untyped pointer of every open object points to
  what its flag says: the reader or the writer is found, never an exception or a wrong cast.
\<close>

theorem client_invariant:
  assumes "client_reach E s0 (obs, s)" and "ap_message s0 = ''Success''" and "ob \<in> set obs"
  shows "length (qingstorGetLastError s) < QINGSTOR_ERROR_MESSAGE_BUFFER_SIZE \<and> NUL \<notin> set (qingstorGetLastError s) \<and>
         (if ow_reader ob then \<exists>rd. getReader ob = Ret rd else \<exists>wr. getWriter ob = Ret wr)"
proof -
  have "message_ok s0" using assms(2) by (simp add: message_ok_def QINGSTOR_ERROR_MESSAGE_BUFFER_SIZE_def)
  then have "message_ok s" "wrapper_ok ob" using client_reach_ok [OF assms(1)] assms(3) by (auto simp: client_ok_def)
  then show ?thesis using wrapper_access [of ob] by (auto simp: message_ok_def qingstorGetLastError_def)
qed

theorem client_invariant_witness:
  "\<exists>ob s. client_reach (example_libs []) example_state ([ob], s) \<and>
     length (qingstorGetLastError s) < QINGSTOR_ERROR_MESSAGE_BUFFER_SIZE \<and> NUL \<notin> set (qingstorGetLastError s) \<and>
     (if ow_reader ob then \<exists>rd. getReader ob = Ret rd else \<exists>wr. getWriter ob = Ret wr)"
proof -
  have st: "ap_world example_state = []" "ap_alloc example_state = []" "ap_message example_state = ''Success''"
    "lb_http (example_libs []) = scripted example_json example_script"
    by (simp_all add: example_state_def example_libs_def careful_example)
  obtain wr rq up where "QingStorWriter (scripted example_json example_script) (example_config 2) ''b'' ''k'' True [] = (Ret wr, [] @ [(rq, up)])"
    using open_succeeds [where script = example_script and w = "[]", OF example_addressable [of 2] example_json_facts(1,2,4,3,4) example_opening]
    by (auto simp: example_chunk)
  then have "qingstorPutObject (example_libs []) (Some (example_config 2)) (Some ''b'') (Some ''k'') True example_state =
      (Ret (Some (write_object wr)), example_state\<lparr>ap_world := [(rq, up)]\<rparr>)"
    using putObject_opens [of "example_libs []" "example_config 2" "''b''" "''k''" True example_state] st by simp
  from call_put [OF this, of "[]"] have "client_step (example_libs []) ([], example_state) ([write_object wr], example_state\<lparr>ap_world := [(rq, up)]\<rparr>)"
    by simp
  from reach_step [OF reach_start this] have r: "client_reach (example_libs []) example_state ([write_object wr], example_state\<lparr>ap_world := [(rq, up)]\<rparr>)" .
  have "write_object wr \<in> set [write_object wr]" by simp
  from r client_invariant [OF r st(3) this] show ?thesis by (intro exI) (rule conjI)
qed

end
