(* ===== verification/QS_Stack.thy ===== *)
theory QS_Stack
  imports QS_Calls
begin

text \<open>
  \<open>src/StackPrinter.cpp\<close>, the build for ELF: the object file of an address from
  \<open>/proc/self/maps\<close>, the symbol of the address from its symbol tables, the lines of a stack.
  \<open>None\<close> is a loop that never ends, \<open>Undefined\<close> a failed assertion or undefined behaviour.
\<close>

section \<open>The system\<close>

text \<open>
  The system calls, over a world that holds the open files; a file descriptor is a number.
  \<open>sys_lseek\<close> says whether it succeeded, \<open>sys_close\<close> whether it was interrupted.
\<close>

datatype read_result = Read_bytes "byte list" | Read_eintr | Read_error
datatype open_result = Opened nat | Open_eintr | Open_error

record 'w sys =
  sys_open :: "string \<Rightarrow> 'w \<Rightarrow> open_result \<times> 'w"
  sys_read :: "nat \<Rightarrow> nat \<Rightarrow> 'w \<Rightarrow> read_result \<times> 'w"
  sys_lseek :: "nat \<Rightarrow> int \<Rightarrow> 'w \<Rightarrow> bool \<times> 'w"
  sys_close :: "nat \<Rightarrow> 'w \<Rightarrow> bool \<times> 'w"

text \<open>\<open>NO_INTR\<close> around \<open>open\<close> and \<open>close\<close>.\<close>

partial_function (option) open_fd :: "'w sys \<Rightarrow> string \<Rightarrow> 'w \<Rightarrow> (nat option \<times> 'w) option" where
  "open_fd S name w =
     (case sys_open S name w of
        (Open_eintr, w') \<Rightarrow> open_fd S name w'
      | (Open_error, w') \<Rightarrow> Some (None, w')
      | (Opened fd, w') \<Rightarrow> Some (Some fd, w'))"

partial_function (option) close_fd :: "'w sys \<Rightarrow> nat \<Rightarrow> 'w \<Rightarrow> 'w option" where
  "close_fd S fd w = (case sys_close S fd w of (interrupted, w') \<Rightarrow> if interrupted then close_fd S fd w' else Some w')"

text \<open>
  \<open>ReadPersistent\<close>, with the bytes stored so far as an argument: whether the result is not
  \<open>-1\<close>, and all the bytes that have been stored in the buffer.
\<close>

partial_function (option) ReadPersistent :: "'w sys \<Rightarrow> nat \<Rightarrow> nat \<Rightarrow> byte list \<Rightarrow> 'w \<Rightarrow> (bool \<times> byte list \<times> 'w) option" where
  "ReadPersistent S fd n got w =
     (if length got < n
      then case sys_read S fd (n - length got) w of
             (Read_eintr, w') \<Rightarrow> ReadPersistent S fd n got w'
           | (Read_error, w') \<Rightarrow> Some (False, got, w')
           | (Read_bytes bs, w') \<Rightarrow>
               if bs = [] then Some (True, got, w') else ReadPersistent S fd n (got @ bs) w'
      else Some (True, got, w))"

declare open_fd.simps [code] close_fd.simps [code] ReadPersistent.simps [code]

definition ReadFromOffset :: "'w sys \<Rightarrow> nat \<Rightarrow> nat \<Rightarrow> int \<Rightarrow> 'w \<Rightarrow> (bool \<times> byte list \<times> 'w) option" where
  "ReadFromOffset S fd n pos w =
     (case sys_lseek S fd pos w of (ok, w') \<Rightarrow> if ok then ReadPersistent S fd n [] w' else Some (False, [], w'))"

definition ReadFromOffsetExact :: "'w sys \<Rightarrow> nat \<Rightarrow> nat \<Rightarrow> int \<Rightarrow> 'w \<Rightarrow> (byte list option \<times> 'w) option" where
  "ReadFromOffsetExact S fd n pos w =
     map_option (\<lambda>(ok, bs, w'). (if ok \<and> length bs = n then Some bs else None, w')) (ReadFromOffset S fd n pos w)"

section \<open>ELF files\<close>

text \<open>The fields of the system's ELF structures the code reads, and their layout on the platform.\<close>

record Ehdr =
  e_ident :: "byte list"
  e_type :: u16
  e_shoff :: u64
  e_shentsize :: u16
  e_shnum :: u16
  e_shstrndx :: u16

record Shdr =
  sh_name :: u32
  sh_type :: u32
  sh_offset :: u64
  sh_size :: u64
  sh_link :: u32
  sh_entsize :: u64

record Sym =
  st_name :: u32
  st_shndx :: u16
  st_value :: u64
  st_size :: u64

record elf_abi =
  sizeof_Ehdr :: nat
  sizeof_Shdr :: nat
  sizeof_Sym :: nat
  get_Ehdr :: "byte list \<Rightarrow> Ehdr"
  get_Shdr :: "byte list \<Rightarrow> Shdr"
  get_Sym :: "byte list \<Rightarrow> Sym"

definition ELFMAG :: string where "ELFMAG = [CHR 0x7F] @ ''ELF''"
definition ET_DYN :: u16 where "ET_DYN = 3"
definition SHT_SYMTAB :: u32 where "SHT_SYMTAB = 2"
definition SHT_DYNSYM :: u32 where "SHT_DYNSYM = 11"

text \<open>The elements of an array of structures of \<open>sz\<close> bytes.\<close>

definition structs_of :: "nat \<Rightarrow> (byte list \<Rightarrow> 'a) \<Rightarrow> byte list \<Rightarrow> 'a list" where
  "structs_of sz get bs = map (\<lambda>j. get (subbuf (j * sz) sz bs)) [0..<length bs div sz]"

text \<open>The type of an ELF file; \<open>None\<close> is \<open>-1\<close>.\<close>

definition FileGetElfType :: "'w sys \<Rightarrow> elf_abi \<Rightarrow> nat \<Rightarrow> 'w \<Rightarrow> (u16 option \<times> 'w) option" where
  "FileGetElfType S A fd w =
     map_option (\<lambda>(r, w'). (case r of None \<Rightarrow> None
         | Some bs \<Rightarrow> if take 4 (e_ident (get_Ehdr A bs)) \<noteq> ELFMAG then None else Some (e_type (get_Ehdr A bs)), w'))
       (ReadFromOffsetExact S fd (sizeof_Ehdr A) 0 w)"

text \<open>
  The loop of \<open>GetSectionHeaderByType\<close>. A failed read has the length \<open>-1\<close>, which as a
  \<open>size_t\<close> is odd and so no multiple of the size of a structure: the assertion fails.
\<close>

partial_function (option) section_by_type :: "'w sys \<Rightarrow> elf_abi \<Rightarrow> nat \<Rightarrow> nat \<Rightarrow> u64 \<Rightarrow> u32 \<Rightarrow> nat \<Rightarrow> 'w \<Rightarrow>
    (Shdr option outcome \<times> 'w) option" where
  "section_by_type S A fd sh_num table ty i w =
     (if i < sh_num
      then Option.bind
             (ReadFromOffset S fd (min ((sh_num - i) * sizeof_Shdr A) (16 * sizeof_Shdr A))
                (sint (table + of_nat (i * sizeof_Shdr A))) w)
             (\<lambda>(ok, bs, w').
               if \<not> ok \<or> length bs mod sizeof_Shdr A \<noteq> 0 then Some (Undefined, w')
               else case find (\<lambda>h. sh_type h = ty) (structs_of (sizeof_Shdr A) (get_Shdr A) bs) of
                      Some h \<Rightarrow> Some (Ret (Some h), w')
                    | None \<Rightarrow> section_by_type S A fd sh_num table ty (i + length bs div sizeof_Shdr A) w')
      else Some (Ret None, w))"

declare section_by_type.simps [code]

definition GetSectionHeaderByType :: "'w sys \<Rightarrow> elf_abi \<Rightarrow> nat \<Rightarrow> u16 \<Rightarrow> u64 \<Rightarrow> u32 \<Rightarrow> 'w \<Rightarrow>
    (Shdr option outcome \<times> 'w) option" where
  "GetSectionHeaderByType S A fd sh_num table ty w = section_by_type S A fd (unat sh_num) table ty 0 w"


definition kMaxSectionNameLen :: nat where "kMaxSectionNameLen = 64"

text \<open>
  \<open>e_shentsize * i\<close> in \<open>int\<close>, added to \<open>e_shoff\<close>; \<open>None\<close> is the overflow of the product.
\<close>

definition header_offset :: "Ehdr \<Rightarrow> nat \<Rightarrow> int option" where
  "header_offset eh i =
     (let prod = uint (e_shentsize eh) * int i
      in if prod < 2 ^ 31 then Some (sint (e_shoff eh + word_of_int prod)) else None)"

text \<open>
  The loop of \<open>GetSectionHeaderByName\<close> over the indices still to come; \<open>name\<close> are the
  \<open>name_len\<close> bytes compared, its terminator included.
\<close>

fun section_by_name :: "'w sys \<Rightarrow> elf_abi \<Rightarrow> nat \<Rightarrow> string \<Rightarrow> Ehdr \<Rightarrow> Shdr \<Rightarrow> nat list \<Rightarrow> 'w \<Rightarrow>
    (Shdr option outcome \<times> 'w) option" where
  "section_by_name S A fd name eh shstrtab [] w = Some (Ret None, w)"
| "section_by_name S A fd name eh shstrtab (i # is) w =
     (case header_offset eh i of None \<Rightarrow> Some (Undefined, w)
      | Some pos \<Rightarrow> Option.bind (ReadFromOffsetExact S fd (sizeof_Shdr A) pos w) (\<lambda>(r, w1).
          case r of None \<Rightarrow> Some (Ret None, w1)
          | Some bs \<Rightarrow>
              if kMaxSectionNameLen < length name then Some (Ret None, w1)
              else Option.bind (ReadFromOffset S fd (length name)
                     (sint (sh_offset shstrtab + ucast (sh_name (get_Shdr A bs)))) w1) (\<lambda>(ok, got, w2).
                   if \<not> ok then Some (Ret None, w2)
                   else if got \<noteq> name then section_by_name S A fd name eh shstrtab is w2
                   else Some (Ret (Some (get_Shdr A bs)), w2))))"

definition GetSectionHeaderByName :: "'w sys \<Rightarrow> elf_abi \<Rightarrow> nat \<Rightarrow> string \<Rightarrow> 'w \<Rightarrow>
    (Shdr option outcome \<times> 'w) option" where
  "GetSectionHeaderByName S A fd name w =
     Option.bind (ReadFromOffsetExact S fd (sizeof_Ehdr A) 0 w) (\<lambda>(r, w1).
       case r of None \<Rightarrow> Some (Ret None, w1)
       | Some bs \<Rightarrow> (let eh = get_Ehdr A bs in
           case header_offset eh (unat (e_shstrndx eh)) of None \<Rightarrow> Some (Undefined, w1)
           | Some pos \<Rightarrow> Option.bind (ReadFromOffsetExact S fd (sizeof_Shdr A) pos w1) (\<lambda>(r, w2).
               case r of None \<Rightarrow> Some (Ret None, w2)
               | Some tab \<Rightarrow> section_by_name S A fd name eh (get_Shdr A tab) [0..<unat (e_shnum eh)] w2)))"

section \<open>Symbols\<close>

text \<open>The condition under which a symbol contains the address.\<close>

definition contains_pc :: "u64 \<Rightarrow> u64 \<Rightarrow> Sym \<Rightarrow> bool" where
  "contains_pc pc shift symb =
     (let start_address = st_value symb + shift; end_address = start_address + st_size symb
      in st_value symb \<noteq> 0 \<and> st_shndx symb \<noteq> 0 \<and> start_address \<le> pc \<and> pc < end_address)"

text \<open>Reading the name into \<open>out\<close>, which keeps what the read does not overwrite.\<close>

definition read_name :: "'w sys \<Rightarrow> nat \<Rightarrow> byte list \<Rightarrow> Shdr \<Rightarrow> Sym \<Rightarrow> 'w \<Rightarrow> (bool outcome \<times> byte list \<times> 'w) option" where
  "read_name S fd out strtab symb w =
     map_option (\<lambda>(ok, got, w').
         (let out' = overwrite 0 got out in (Ret (ok \<and> got \<noteq> [] \<and> NUL \<in> set out'), out', w')))
       (ReadFromOffset S fd (length out) (sint (sh_offset strtab + ucast (st_name symb))) w)"

definition NUM_SYMBOLS :: nat where "NUM_SYMBOLS = 32"

partial_function (option) find_symbol :: "'w sys \<Rightarrow> elf_abi \<Rightarrow> u64 \<Rightarrow> nat \<Rightarrow> byte list \<Rightarrow> u64 \<Rightarrow> Shdr \<Rightarrow> Shdr \<Rightarrow> int \<Rightarrow> int \<Rightarrow> 'w \<Rightarrow>
    (bool outcome \<times> byte list \<times> 'w) option" where
  "find_symbol S A pc fd out shift strtab symtab num_symbols i w =
     (if i < num_symbols
      then Option.bind
             (ReadFromOffset S fd (NUM_SYMBOLS * sizeof_Sym A)
                (sint (sh_offset symtab + word_of_int i * sh_entsize symtab)) w)
             (\<lambda>(ok, bs, w').
               if \<not> ok \<or> length bs mod sizeof_Sym A \<noteq> 0 then Some (Undefined, out, w')
               else case find (contains_pc pc shift) (structs_of (sizeof_Sym A) (get_Sym A) bs) of
                      Some symb \<Rightarrow> read_name S fd out strtab symb w'
                    | None \<Rightarrow> find_symbol S A pc fd out shift strtab symtab num_symbols
                                (to_int32 (i + int (length bs div sizeof_Sym A))) w')
      else Some (Ret False, out, w))"

declare find_symbol.simps [code]

text \<open>An entry size of zero divides by zero. The callers never pass a null \<open>symtab\<close>.\<close>

definition FindSymbol :: "'w sys \<Rightarrow> elf_abi \<Rightarrow> u64 \<Rightarrow> nat \<Rightarrow> byte list \<Rightarrow> u64 \<Rightarrow> Shdr \<Rightarrow> Shdr \<Rightarrow> 'w \<Rightarrow>
    (bool outcome \<times> byte list \<times> 'w) option" where
  "FindSymbol S A pc fd out shift strtab symtab w =
     (if sh_entsize symtab = 0 then Some (Undefined, out, w)
      else find_symbol S A pc fd out shift strtab symtab (to_int32 (uint (sh_size symtab div sh_entsize symtab))) 0 w)"

text \<open>
  One of the two halves of \<open>GetSymbolFromObjectFile\<close>: the table of the given type, its string
  table, the search. The result \<open>None\<close> is \<open>return false\<close> before the search.
\<close>

definition search_table :: "'w sys \<Rightarrow> elf_abi \<Rightarrow> nat \<Rightarrow> u64 \<Rightarrow> byte list \<Rightarrow> u64 \<Rightarrow> Ehdr \<Rightarrow> u32 \<Rightarrow> 'w \<Rightarrow>
    (bool option outcome \<times> byte list \<times> 'w) option" where
  "search_table S A fd pc out shift eh ty w =
     Option.bind (GetSectionHeaderByType S A fd (e_shnum eh) (e_shoff eh) ty w) (\<lambda>(r, w1).
       case r of
         Undefined \<Rightarrow> Some (Undefined, out, w1)
       | Throw e \<Rightarrow> Some (Throw e, out, w1)
       | Ret None \<Rightarrow> Some (Ret None, out, w1)
       | Ret (Some symtab) \<Rightarrow>
           Option.bind (ReadFromOffsetExact S fd (sizeof_Shdr A)
               (sint (e_shoff eh + ucast (sh_link symtab) * of_nat (sizeof_Shdr A))) w1) (\<lambda>(r, w2).
             case r of None \<Rightarrow> Some (Ret None, out, w2)
             | Some bs \<Rightarrow> map_option (\<lambda>(found, out', w3). (bind found (\<lambda>b. Ret (Some b)), out', w3))
                 (FindSymbol S A pc fd out shift (get_Shdr A bs) symtab w2)))"

definition GetSymbolFromObjectFile :: "'w sys \<Rightarrow> elf_abi \<Rightarrow> nat \<Rightarrow> u64 \<Rightarrow> byte list \<Rightarrow> u64 \<Rightarrow> 'w \<Rightarrow>
    (bool outcome \<times> byte list \<times> 'w) option" where
  "GetSymbolFromObjectFile S A fd pc out map_start_address w =
     Option.bind (ReadFromOffsetExact S fd (sizeof_Ehdr A) 0 w) (\<lambda>(r, w1).
       case r of None \<Rightarrow> Some (Ret False, out, w1)
       | Some bs \<Rightarrow> (let eh = get_Ehdr A bs; shift = (if e_type eh = ET_DYN then map_start_address else 0) in
           Option.bind (search_table S A fd pc out shift eh SHT_SYMTAB w1) (\<lambda>(r, out1, w2).
             case r of
               Undefined \<Rightarrow> Some (Undefined, out1, w2)
             | Throw e \<Rightarrow> Some (Throw e, out1, w2)
             | Ret None \<Rightarrow> Some (Ret False, out1, w2)
             | Ret (Some True) \<Rightarrow> Some (Ret True, out1, w2)
             | Ret (Some False) \<Rightarrow>
                 map_option (\<lambda>(r, out2, w3). (bind r (\<lambda>b. Ret (b = Some True)), out2, w3))
                   (search_table S A fd pc out1 shift eh SHT_DYNSYM w2))))"

section \<open>Reading lines\<close>

text \<open>\<open>LineReader\<close>: the pointers are indices into the buffer, \<open>lr_eol = None\<close> the null pointer.\<close>

record line_reader =
  lr_buf :: "byte list"
  lr_bol :: nat
  lr_eol :: "nat option"
  lr_eod :: nat

definition LineReader :: "byte list \<Rightarrow> line_reader" where
  "LineReader buf = \<lparr>lr_buf = buf, lr_bol = 0, lr_eol = Some 0, lr_eod = 0\<rparr>"

definition FindLineFeed :: "line_reader \<Rightarrow> nat option" where
  "FindLineFeed r =
     (let data = subbuf (lr_bol r) (lr_eod r - lr_bol r) (lr_buf r); k = length (takeWhile (\<lambda>c. c \<noteq> LF) data)
      in if k < length data then Some (lr_bol r + k) else None)"

text \<open>The end of \<open>ReadLine\<close>: the line between \<open>bol\<close> and \<open>eol\<close>, its newline replaced by NUL.\<close>

definition take_line :: "line_reader \<Rightarrow> byte list option outcome \<times> line_reader" where
  "take_line r =
     (case FindLineFeed r of
        None \<Rightarrow> (Ret None, r\<lparr>lr_eol := None\<rparr>)
      | Some e \<Rightarrow> (Ret (Some (subbuf (lr_bol r) (e - lr_bol r) (lr_buf r))),
                   r\<lparr>lr_eol := Some e, lr_buf := (lr_buf r)[e := NUL]\<rparr>))"

definition ReadLine :: "'w sys \<Rightarrow> nat \<Rightarrow> line_reader \<Rightarrow> 'w \<Rightarrow> (byte list option outcome \<times> line_reader \<times> 'w) option" where
  "ReadLine S fd r w =
     (if lr_eod r = 0
      then map_option (\<lambda>(ok, got, w').
             (let r1 = r\<lparr>lr_buf := overwrite 0 got (lr_buf r)\<rparr> in
              if \<not> ok \<or> got = [] then (Ret None, r1, w')
              else case take_line (r1\<lparr>lr_eod := length got, lr_bol := 0\<rparr>) of (res, r2) \<Rightarrow> (res, r2, w')))
           (ReadPersistent S fd (length (lr_buf r)) [] w)
      else case lr_eol r of
        None \<Rightarrow> Some (Undefined, r, w)
      | Some e \<Rightarrow>
          (let r1 = r\<lparr>lr_bol := Suc e\<rparr> in
           if lr_eod r < Suc e then Some (Undefined, r1, w)
           else if FindLineFeed r1 \<noteq> None then (case take_line r1 of (res, r2) \<Rightarrow> Some (res, r2, w))
           else (let n = lr_eod r - Suc e; moved = overwrite 0 (subbuf (Suc e) n (lr_buf r)) (lr_buf r) in
             map_option (\<lambda>(ok, got, w').
               (let r2 = r1\<lparr>lr_buf := overwrite n got moved\<rparr> in
                if \<not> ok \<or> got = [] then (Ret None, r2, w')
                else case take_line (r2\<lparr>lr_eod := n + length got, lr_bol := 0\<rparr>) of (res, r3) \<Rightarrow> (res, r3, w')))
             (ReadPersistent S fd (length (lr_buf r) - n) [] w))))"

section \<open>The memory map\<close>

definition is_hex :: "byte \<Rightarrow> bool" where
  "is_hex c \<longleftrightarrow> is_digit c \<or> ord CHR ''A'' \<le> ord c \<and> ord c \<le> ord CHR ''F'' \<or> ord CHR ''a'' \<le> ord c \<and> ord c \<le> ord CHR ''f''"

definition hex_value :: "byte \<Rightarrow> nat" where
  "hex_value c = (if ord c < ord CHR ''A'' then ord c - ord CHR ''0'' else ord c mod 16 + 9)"

text \<open>\<open>GetHex\<close>, from the value so far: the value and the rest of the line.\<close>

fun GetHex :: "u64 \<Rightarrow> byte list \<Rightarrow> u64 \<times> byte list" where
  "GetHex hex [] = (hex, [])"
| "GetHex hex (c # cs) = (if is_hex c then GetHex (push_bit 4 hex OR of_nat (hex_value c)) cs else (hex, c # cs))"

fun skip_to_name :: "nat \<Rightarrow> byte list \<Rightarrow> byte list" where
  "skip_to_name spaces [] = []"
| "skip_to_name spaces (c # cs) =
     (if c = CHR '' '' then skip_to_name (Suc spaces) cs
      else if 3 \<le> spaces then c # cs else skip_to_name spaces cs)"

text \<open>What the body of the loop does with one line: \<open>return -1\<close>, \<open>continue\<close>, or open the file.\<close>

datatype map_line = Malformed | Skipped | Found u64 string

definition code_map :: "byte list \<Rightarrow> u64 \<Rightarrow> map_line" where
  "code_map cursor start_address =
     (let flags = takeWhile (\<lambda>c. c \<noteq> CHR '' '') cursor; rest = dropWhile (\<lambda>c. c \<noteq> CHR '' '') cursor in
      if rest = [] \<or> length flags < 4 then Malformed
      else if take 3 flags \<noteq> ''r-x'' then Skipped
      else let name = skip_to_name 0 (tl rest) in
        if name = [] then Malformed else Found start_address (takeWhile (\<lambda>c. c \<noteq> NUL) name))"

definition map_line :: "u64 \<Rightarrow> byte list \<Rightarrow> map_line" where
  "map_line pc line =
     (case GetHex 0 line of (start_address, cursor) \<Rightarrow>
        if cursor = [] \<or> hd cursor \<noteq> CHR ''-'' then Malformed
        else case GetHex 0 (tl cursor) of (end_address, cursor) \<Rightarrow>
          if cursor = [] \<or> hd cursor \<noteq> CHR '' '' then Malformed
          else if \<not> (start_address \<le> pc \<and> pc < end_address) then Skipped
          else code_map (tl cursor) start_address)"

text \<open>The loop over the lines of \<open>/proc/self/maps\<close>.\<close>

partial_function (option) find_object :: "'w sys \<Rightarrow> nat \<Rightarrow> u64 \<Rightarrow> line_reader \<Rightarrow> 'w \<Rightarrow> ((nat \<times> u64) option outcome \<times> 'w) option" where
  "find_object S fd pc r w =
     Option.bind (ReadLine S fd r w) (\<lambda>(res, r', w').
       case res of
         Undefined \<Rightarrow> Some (Undefined, w')
       | Throw e \<Rightarrow> Some (Throw e, w')
       | Ret None \<Rightarrow> Some (Ret None, w')
       | Ret (Some line) \<Rightarrow>
           (case map_line pc line of
              Malformed \<Rightarrow> Some (Ret None, w')
            | Skipped \<Rightarrow> find_object S fd pc r' w'
            | Found start_address name \<Rightarrow>
                map_option (\<lambda>(object_fd, w2). (Ret (map_option (\<lambda>k. (k, start_address)) object_fd), w2)) (open_fd S name w')))"

declare find_object.simps [code]

text \<open>
  \<open>OpenObjectFileContainingPcAndGetStartAddress\<close>: the descriptor and the start address, or
  \<open>None\<close> for \<open>-1\<close>. The buffer on the stack starts with any \<open>junk\<close>; the destructor of
  \<open>FileDescriptor\<close> closes the map on every return.
\<close>

definition OpenObjectFileContainingPcAndGetStartAddress :: "'w sys \<Rightarrow> byte list \<Rightarrow> u64 \<Rightarrow> 'w \<Rightarrow>
    ((nat \<times> u64) option outcome \<times> 'w) option" where
  "OpenObjectFileContainingPcAndGetStartAddress S junk pc w =
     Option.bind (open_fd S ''/proc/self/maps'' w) (\<lambda>(fd, w1).
       case fd of None \<Rightarrow> Some (Ret None, w1)
       | Some maps_fd \<Rightarrow> Option.bind (find_object S maps_fd pc (LineReader junk) w1) (\<lambda>(res, w2).
           if res = Undefined then Some (Undefined, w2)
           else map_option (\<lambda>w3. (res, w3)) (close_fd S maps_fd w2)))"

section \<open>Printing\<close>

text \<open>
  \<open>abi::__cxa_demangle\<close> is a parameter: the status and the name it returns.
\<close>

definition DemangleSymbol :: "(string \<Rightarrow> int \<times> string option) \<Rightarrow> string \<Rightarrow> string outcome" where
  "DemangleSymbol demangle symbol =
     (case demangle symbol of (status, name) \<Rightarrow>
        if status = 0 then (case name of None \<Rightarrow> Undefined | Some s \<Rightarrow> Ret s)
        else if status = -1 then Throw (Exn std_bad_alloc ''std::bad_alloc'' None)
        else if status = -2 \<or> status = -3 then Ret symbol
        else Ret [])"

definition DEFAULT_STACK_PREFIX :: string where "DEFAULT_STACK_PREFIX = [TAB] @ ''@'' @ [TAB]"

text \<open>The object file of an address is open: its symbol, then the file is closed.\<close>

definition symbol_of_object :: "'w sys \<Rightarrow> elf_abi \<Rightarrow> (string \<Rightarrow> int \<times> string option) \<Rightarrow> u64 \<Rightarrow> nat \<Rightarrow> u64 \<Rightarrow> 'w \<Rightarrow>
    (string outcome \<times> 'w) option" where
  "symbol_of_object S A demangle pc fd start_address w =
     Option.bind (FileGetElfType S A fd w) (\<lambda>(elf_type, w1).
       if elf_type = None then map_option (\<lambda>w2. (Ret (DEFAULT_STACK_PREFIX @ ''Unknown''), w2)) (close_fd S fd w1)
       else Option.bind (GetSymbolFromObjectFile S A fd pc (replicate 1024 NUL) start_address w1) (\<lambda>(r, buffer, w2).
         case r of
           Undefined \<Rightarrow> Some (Undefined, w2)
         | Throw e \<Rightarrow> map_option (\<lambda>w3. (Throw e, w3)) (close_fd S fd w2)
         | Ret False \<Rightarrow> map_option (\<lambda>w3. (Ret (DEFAULT_STACK_PREFIX @ ''Unknown''), w3)) (close_fd S fd w2)
         | Ret True \<Rightarrow>
             (case DemangleSymbol demangle (takeWhile (\<lambda>c. c \<noteq> NUL) buffer) of
                Undefined \<Rightarrow> Some (Undefined, w2)
              | Throw e \<Rightarrow> map_option (\<lambda>w3. (Throw e, w3)) (close_fd S fd w2)
              | Ret s \<Rightarrow> map_option (\<lambda>w3. (Ret (DEFAULT_STACK_PREFIX @ s), w3)) (close_fd S fd w2))))"

definition SymbolizeAndDemangle :: "'w sys \<Rightarrow> elf_abi \<Rightarrow> (string \<Rightarrow> int \<times> string option) \<Rightarrow> byte list \<Rightarrow> u64 \<Rightarrow> 'w \<Rightarrow>
    (string outcome \<times> 'w) option" where
  "SymbolizeAndDemangle S A demangle junk pc w =
     Option.bind (OpenObjectFileContainingPcAndGetStartAddress S junk pc w) (\<lambda>(res, w1).
       case res of
         Undefined \<Rightarrow> Some (Undefined, w1)
       | Throw e \<Rightarrow> Some (Throw e, w1)
       | Ret None \<Rightarrow> Some (Ret (DEFAULT_STACK_PREFIX @ ''Unknown''), w1)
       | Ret (Some (fd, start_address)) \<Rightarrow> symbol_of_object S A demangle pc fd start_address w1)"

text \<open>\<open>backtrace n\<close>: the innermost frames, at most \<open>n\<close>.\<close>

definition GetStack :: "(nat \<Rightarrow> u64 list) \<Rightarrow> nat \<Rightarrow> nat \<Rightarrow> u64 list" where
  "GetStack backtrace skip maxDepth =
     (let frames = backtrace (maxDepth + Suc skip) in
      if length frames < Suc skip then [] else drop (Suc skip) frames)"

fun print_frames :: "'w sys \<Rightarrow> elf_abi \<Rightarrow> (string \<Rightarrow> int \<times> string option) \<Rightarrow> byte list \<Rightarrow> u64 list \<Rightarrow> 'w \<Rightarrow>
    (string outcome \<times> 'w) option" where
  "print_frames S A demangle junk [] w = Some (Ret [], w)"
| "print_frames S A demangle junk (pc # pcs) w =
     Option.bind (SymbolizeAndDemangle S A demangle junk pc w) (\<lambda>(r, w1).
       case r of
         Undefined \<Rightarrow> Some (Undefined, w1)
       | Throw e \<Rightarrow> Some (Throw e, w1)
       | Ret s \<Rightarrow> map_option (\<lambda>(rest, w2). (bind rest (\<lambda>t. Ret (s @ [LF] @ t)), w2)) (print_frames S A demangle junk pcs w1))"

definition PrintStack :: "'w sys \<Rightarrow> elf_abi \<Rightarrow> (string \<Rightarrow> int \<times> string option) \<Rightarrow> byte list \<Rightarrow> (nat \<Rightarrow> u64 list) \<Rightarrow> nat \<Rightarrow> nat \<Rightarrow> 'w \<Rightarrow>
    (string outcome \<times> 'w) option" where
  "PrintStack S A demangle junk backtrace skip maxDepth w =
     print_frames S A demangle junk (GetStack backtrace (Suc skip) maxDepth) w"

end
