(* ===== verification/Disk_Files.thy ===== *)
theory Disk_Files
  imports QS_Stack
begin

text \<open>
  The interface of the files the stack printer reads: reads that may be interrupted or short
  but deliver the bytes of the file in order, and its instance, a disk with a schedule of
  interruptions and short reads.
\<close>

section \<open>Open files\<close>

locale open_files =
  fixes S :: "'w sys" and data :: "'w \<Rightarrow> nat \<Rightarrow> byte list option" and pos :: "'w \<Rightarrow> nat \<Rightarrow> nat" and budget :: "'w \<Rightarrow> nat"
  assumes read_law: "data w fd = Some bs \<Longrightarrow> 0 < n \<Longrightarrow>
      (\<exists>w'. sys_read S fd n w = (Read_eintr, w') \<and> data w' = data w \<and> pos w' = pos w \<and> budget w' < budget w)
      \<or> (\<exists>k w'. sys_read S fd n w = (Read_bytes (subbuf (pos w fd) k bs), w') \<and> k \<le> n \<and>
            (0 < k \<or> length bs \<le> pos w fd) \<and> pos w fd + k \<le> max (pos w fd) (length bs) \<and>
            data w' = data w \<and> pos w' = (pos w)(fd := pos w fd + k) \<and> budget w' \<le> budget w)"
    and seek_law: "data w fd = Some bs \<Longrightarrow> 0 \<le> at \<Longrightarrow>
      \<exists>w'. sys_lseek S fd at w = (True, w') \<and> data w' = data w \<and> pos w' = (pos w)(fd := nat at) \<and> budget w' \<le> budget w"
begin

text \<open>\<open>ReadPersistent\<close> reads to its count or to the end of the file.\<close>

lemma read_persistent:
  assumes "data w fd = Some bs" "length got \<le> n"
  shows "\<exists>w'. ReadPersistent S fd n got w = Some (True, got @ subbuf (pos w fd) (n - length got) bs, w') \<and>
    data w' = data w \<and> pos w' = (pos w)(fd := pos w fd + length (subbuf (pos w fd) (n - length got) bs)) \<and>
    budget w' \<le> budget w"
  using assms
proof (induction "n - length got + budget w" arbitrary: got w rule: less_induct)
  case less
  show ?case
  proof (cases "length got < n")
    case False
    with less.prems have "length got = n" by simp
    then show ?thesis by (subst ReadPersistent.simps) simp
  next
    case True
    then have pos: "0 < n - length got" by simp
    from read_law [OF less.prems(1) pos] consider
        (eintr) w1 where "sys_read S fd (n - length got) w = (Read_eintr, w1)" "data w1 = data w" "pos w1 = pos w" "budget w1 < budget w"
      | (bytes) k w1 where "sys_read S fd (n - length got) w = (Read_bytes (subbuf (pos w fd) k bs), w1)" "k \<le> n - length got"
          "0 < k \<or> length bs \<le> pos w fd" "pos w fd + k \<le> max (pos w fd) (length bs)" "data w1 = data w"
          "pos w1 = (pos w)(fd := pos w fd + k)" "budget w1 \<le> budget w"
      by blast
    then show ?thesis
    proof cases
      case r: eintr
      from less.hyps [of got w1] r less.prems
      show ?thesis using True by (subst ReadPersistent.simps) fastforce
    next
      case r: bytes
      let ?p = "pos w fd" and ?b = "subbuf (pos w fd) k bs"
      show ?thesis
      proof (cases "k = 0")
        case True
        with r have e: "?b = []" "subbuf ?p (n - length got) bs = []" "pos w1 = pos w" by (auto simp: subbuf_def)
        then show ?thesis using r \<open>length got < n\<close> by (subst ReadPersistent.simps) auto
      next
        case False
        with r have le: "?p + k \<le> length bs" by auto
        then have lb: "length ?b = k" by simp
        with False have ne: "?b \<noteq> []" by auto
        have split: "subbuf ?p (n - length got) bs = ?b @ subbuf (?p + k) (n - (length got + k)) bs"
          using subbuf_split [OF r(2), of ?p bs] by (simp add: diff_diff_left)
        have "n - length (got @ ?b) + budget w1 < n - length got + budget w" "length (got @ ?b) \<le> n" using r False lb by auto
        with less.hyps [of "got @ ?b" w1] r less.prems
        obtain w2 where w2: "ReadPersistent S fd n (got @ ?b) w1 = Some (True, (got @ ?b) @ subbuf (pos w1 fd) (n - length (got @ ?b)) bs, w2)"
          "data w2 = data w" "pos w2 = (pos w1)(fd := pos w1 fd + length (subbuf (pos w1 fd) (n - length (got @ ?b)) bs))" "budget w2 \<le> budget w1"
          by metis
        have "ReadPersistent S fd n got w = ReadPersistent S fd n (got @ ?b) w1"
          using r ne \<open>length got < n\<close> by (subst ReadPersistent.simps) simp
        with w2 split r lb show ?thesis by (simp add: add.assoc)
      qed
    qed
  qed
qed

lemma read_from_offset:
  assumes "data w fd = Some bs" "0 \<le> at"
  shows "\<exists>w'. ReadFromOffset S fd n at w = Some (True, subbuf (nat at) n bs, w') \<and> data w' = data w"
proof -
  from seek_law [OF assms] obtain w1 where w1: "sys_lseek S fd at w = (True, w1)" "data w1 = data w" "pos w1 = (pos w)(fd := nat at)"
    by blast
  from read_persistent [of w1 fd bs "[]" n] w1 assms show ?thesis by (auto simp: ReadFromOffset_def)
qed

lemma read_exact:
  assumes "data w fd = Some bs" "0 \<le> at" "nat at + n \<le> length bs"
  shows "\<exists>w'. ReadFromOffsetExact S fd n at w = Some (Some (subbuf (nat at) n bs), w') \<and> data w' = data w"
proof -
  from read_from_offset [OF assms(1,2)] obtain w1 where
    "ReadFromOffset S fd n at w = Some (True, subbuf (nat at) n bs, w1)" "data w1 = data w" by blast
  with assms(3) show ?thesis by (simp add: ReadFromOffsetExact_def)
qed

end

section \<open>Named files\<close>

locale named_files = open_files S data pos budget
  for S :: "'w sys" and data :: "'w \<Rightarrow> nat \<Rightarrow> byte list option" and pos budget +
  fixes named :: "string \<Rightarrow> byte list option"
  assumes open_law:
      "(\<exists>w'. sys_open S name w = (Open_eintr, w') \<and> data w' = data w \<and> budget w' < budget w)
      \<or> named name = None \<and> (\<exists>w'. sys_open S name w = (Open_error, w') \<and> data w' = data w)
      \<or> (\<exists>bs fd w'. named name = Some bs \<and> sys_open S name w = (Opened fd, w') \<and> data w fd = None \<and>
             data w' = (data w)(fd := Some bs) \<and> pos w' fd = 0)"
    and close_law: "data w fd = Some bs \<Longrightarrow>
      (\<exists>w'. sys_close S fd w = (True, w') \<and> data w' = data w \<and> budget w' < budget w)
      \<or> (\<exists>w'. sys_close S fd w = (False, w') \<and> data w' = (data w)(fd := None))"
begin

lemma open_named:
  "\<exists>w' fd. open_fd S name w = Some (fd, w') \<and>
     (case named name of None \<Rightarrow> fd = None \<and> data w' = data w
      | Some bs \<Rightarrow> \<exists>k. fd = Some k \<and> data w k = None \<and> data w' = (data w)(k := Some bs) \<and> pos w' k = 0)"
proof (induction "budget w" arbitrary: w rule: less_induct)
  case less
  from open_law [of name w] show ?case
  proof (elim disjE exE conjE)
    fix w1
    assume r: "sys_open S name w = (Open_eintr, w1)" "data w1 = data w" "budget w1 < budget w"
    from less.hyps [of w1] r show ?thesis by (subst open_fd.simps) (auto split: option.splits)
  qed (subst open_fd.simps, simp)+
qed

lemma close_open:
  "data w fd = Some bs \<Longrightarrow> \<exists>w'. close_fd S fd w = Some w' \<and> data w' = (data w)(fd := None)"
proof (induction "budget w" arbitrary: w rule: less_induct)
  case less
  from close_law [OF less.prems] show ?case
  proof (elim disjE exE conjE)
    fix w1
    assume r: "sys_close S fd w = (True, w1)" "data w1 = data w" "budget w1 < budget w"
    from less.hyps [of w1] r less.prems show ?thesis by (subst close_fd.simps) simp
  qed (subst close_fd.simps, simp)
qed

end

section \<open>A disk\<close>

text \<open>
  The open files with their positions (a descriptor is an index), and the
  schedule: \<open>None\<close> interrupts the next call, \<open>Some k\<close> lets it read at most \<open>k + 1\<close> bytes.
\<close>

record disk =
  dk_open :: "(byte list \<times> nat) option list"
  dk_sched :: "nat option list"

definition dk_file :: "disk \<Rightarrow> nat \<Rightarrow> (byte list \<times> nat) option" where
  "dk_file w fd = (if fd < length (dk_open w) then dk_open w ! fd else None)"

definition dk_data :: "disk \<Rightarrow> nat \<Rightarrow> byte list option" where
  "dk_data w fd = map_option fst (dk_file w fd)"

definition dk_pos :: "disk \<Rightarrow> nat \<Rightarrow> nat" where
  "dk_pos w fd = (case dk_file w fd of None \<Rightarrow> 0 | Some f \<Rightarrow> snd f)"

definition dk_interrupted :: "disk \<Rightarrow> bool" where
  "dk_interrupted w \<longleftrightarrow> (case dk_sched w of None # _ \<Rightarrow> True | _ \<Rightarrow> False)"

definition dk_limit :: "disk \<Rightarrow> nat \<Rightarrow> nat" where
  "dk_limit w n = (case dk_sched w of Some k # _ \<Rightarrow> min n (Suc k) | _ \<Rightarrow> n)"

definition dk_next :: "disk \<Rightarrow> disk" where
  "dk_next w = w\<lparr>dk_sched := tl (dk_sched w)\<rparr>"

definition dk_set :: "nat \<Rightarrow> (byte list \<times> nat) option \<Rightarrow> disk \<Rightarrow> disk" where
  "dk_set fd f w = w\<lparr>dk_open := (dk_open w)[fd := f]\<rparr>"

definition disk_sys :: "(string \<times> byte list) list \<Rightarrow> disk sys" where
  "disk_sys files =
     \<lparr>sys_open = (\<lambda>name w. if dk_interrupted w then (Open_eintr, dk_next w)
        else case map_of files name of None \<Rightarrow> (Open_error, w)
          | Some bs \<Rightarrow> (Opened (length (dk_open w)), w\<lparr>dk_open := dk_open w @ [Some (bs, 0)]\<rparr>)),
      sys_read = (\<lambda>fd n w. case dk_file w fd of None \<Rightarrow> (Read_error, w)
          | Some (bs, p) \<Rightarrow> if dk_interrupted w then (Read_eintr, dk_next w)
              else (let got = subbuf p (dk_limit w n) bs in (Read_bytes got, dk_set fd (Some (bs, p + length got)) (dk_next w)))),
      sys_lseek = (\<lambda>fd at w. case dk_file w fd of Some (bs, p) \<Rightarrow>
            if 0 \<le> at then (True, dk_set fd (Some (bs, nat at)) w) else (False, w)
          | None \<Rightarrow> (False, w)),
      sys_close = (\<lambda>fd w. if dk_interrupted w then (True, dk_next w) else (False, dk_set fd None w))\<rparr>"

lemma dk_fields [simp]:
  "dk_open (dk_next w) = dk_open w" "dk_sched (dk_next w) = tl (dk_sched w)" "dk_sched (dk_set fd f w) = dk_sched w"
  by (simp_all add: dk_next_def dk_set_def)

lemma dk_file_next [simp]: "dk_file (dk_next w) = dk_file w" "dk_data (dk_next w) = dk_data w" "dk_pos (dk_next w) = dk_pos w"
  by (simp_all add: fun_eq_iff dk_file_def dk_data_def dk_pos_def)

lemma dk_file_set [simp]: "dk_file w fd \<noteq> None \<Longrightarrow> dk_file (dk_set fd f w) = (dk_file w)(fd := f)"
  by (rule ext) (auto simp: dk_file_def dk_set_def nth_list_update split: if_splits)

lemma dk_interrupted_sched: "dk_interrupted w \<Longrightarrow> length (tl (dk_sched w)) < length (dk_sched w)"
  by (auto simp: dk_interrupted_def split: list.splits)

lemma dk_limit_bounds: "dk_limit w n \<le> n" "0 < n \<Longrightarrow> 0 < dk_limit w n"
  by (auto simp: dk_limit_def split: list.splits option.splits)

lemma dk_file_open: "dk_file (w\<lparr>dk_open := dk_open w @ [f]\<rparr>) = (dk_file w)(length (dk_open w) := f)"
  by (rule ext) (auto simp: dk_file_def nth_append)

interpretation disk_files: named_files "disk_sys files" dk_data dk_pos "\<lambda>w. length (dk_sched w)" "map_of files"
  for files
proof (unfold_locales, goal_cases)
  case (1 w fd bs n)
  then obtain p where f: "dk_file w fd = Some (bs, p)" "dk_pos w fd = p" by (auto simp: dk_data_def dk_pos_def)
  show ?case
  proof (cases "dk_interrupted w")
    case True
    with f dk_interrupted_sched [of w] show ?thesis by (simp add: disk_sys_def)
  next
    case False
    let ?got = "subbuf p (dk_limit w n) bs"
    have g: "?got = subbuf p (length ?got) bs" unfolding subbuf_def by (metis append_eq_conv_conj append_take_drop_id)
    have "length ?got \<le> n" "0 < length ?got \<or> length bs \<le> p" "p + length ?got \<le> max p (length bs)"
      using dk_limit_bounds(1) [of w n] dk_limit_bounds(2) [of n w] 1(2) by (auto simp: subbuf_def)
    moreover have "sys_read (disk_sys files) fd n w = (Read_bytes (subbuf p (length ?got) bs), dk_set fd (Some (bs, p + length ?got)) (dk_next w))"
      using f False g by (simp add: disk_sys_def Let_def)
    ultimately show ?thesis using f 1(1)
      by (intro disjI2 exI [of _ "length ?got"] exI) (auto simp: fun_eq_iff dk_data_def dk_pos_def)
  qed
next
  case (2 w fd bs at)
  then show ?case by (auto simp: disk_sys_def fun_eq_iff dk_data_def dk_pos_def)
next
  case (3 name w)
  show ?case
  proof (cases "dk_interrupted w")
    case True
    with dk_interrupted_sched [of w] show ?thesis by (simp add: disk_sys_def)
  next
    case False
    then show ?thesis by (cases "map_of files name")
      (auto simp: disk_sys_def dk_data_def dk_pos_def dk_file_open fun_eq_iff, simp add: dk_file_def)
  qed
next
  case (4 w fd bs)
  show ?case
  proof (cases "dk_interrupted w")
    case True
    with dk_interrupted_sched [of w] show ?thesis by (simp add: disk_sys_def)
  next
    case False
    with 4 show ?thesis by (simp add: disk_sys_def dk_data_def fun_eq_iff) (metis dk_file_set fun_upd_apply option.distinct(1) option.map_disc_iff)
  qed
qed

end
