(* ===== verification/QS_Lines.thy ===== *)
theory QS_Lines
  imports Disk_Files
begin

text \<open>
  The line reader of the stack printer on readable files, and the object file of an address.
\<close>

section \<open>Lines\<close>

text \<open>The newline-terminated lines of a text.\<close>

function complete_lines :: "byte list \<Rightarrow> byte list list" where
  "complete_lines t =
     (if LF \<in> set t then takeWhile (\<lambda>c. c \<noteq> LF) t # complete_lines (tl (dropWhile (\<lambda>c. c \<noteq> LF) t)) else [])"
  by pat_completeness auto
termination
proof (relation "measure length", simp)
  fix t :: "byte list"
  assume "LF \<in> set t"
  then have "dropWhile (\<lambda>c. c \<noteq> LF) t \<noteq> []" by auto
  moreover have "length (dropWhile (\<lambda>c. c \<noteq> LF) t) \<le> length t" by (rule length_dropWhile_le)
  ultimately show "(tl (dropWhile (\<lambda>c. c \<noteq> LF) t), t) \<in> measure length" by (cases "dropWhile (\<lambda>c. c \<noteq> LF) t") auto
qed

declare complete_lines.simps [simp del]

lemma tl_dropWhile: "tl (dropWhile P t) = drop (Suc (length (takeWhile P t))) t"
  by (simp add: dropWhile_eq_drop drop_Suc tl_drop)

lemma takeWhile_length: "LF \<in> set t \<longleftrightarrow> length (takeWhile (\<lambda>c. c \<noteq> LF) t) < length t"
  by (induction t) auto

definition reader_data :: "line_reader \<Rightarrow> byte list" where
  "reader_data r = subbuf (lr_bol r) (lr_eod r - lr_bol r) (lr_buf r)"

text \<open>A reader between two lines, and the text it has not handed out.\<close>

definition reader_ready :: "line_reader \<Rightarrow> bool" where
  "reader_ready r \<longleftrightarrow> 0 < length (lr_buf r) \<and>
     (lr_eod r = 0 \<or> (\<exists>e. lr_eol r = Some e \<and> e < lr_eod r \<and> lr_eod r \<le> length (lr_buf r)))"

definition reader_rest :: "line_reader \<Rightarrow> byte list" where
  "reader_rest r = (if lr_eod r = 0 then [] else case lr_eol r of None \<Rightarrow> []
     | Some e \<Rightarrow> subbuf (Suc e) (lr_eod r - Suc e) (lr_buf r))"

lemma FindLineFeed_eq:
  "FindLineFeed r = (if LF \<in> set (reader_data r)
     then Some (lr_bol r + length (takeWhile (\<lambda>c. c \<noteq> LF) (reader_data r))) else None)"
  by (simp add: FindLineFeed_def reader_data_def Let_def takeWhile_length)

lemma subbuf_update_past: "e < i \<Longrightarrow> subbuf i n (xs[e := x]) = subbuf i n xs"
  by (simp add: subbuf_def)

lemma take_line_found:
  assumes "lr_bol r \<le> lr_eod r" "lr_eod r \<le> length (lr_buf r)" "LF \<in> set (reader_data r)"
  shows "\<exists>r'. take_line r = (Ret (Some (takeWhile (\<lambda>c. c \<noteq> LF) (reader_data r))), r') \<and> reader_ready r' \<and>
    length (lr_buf r') = length (lr_buf r) \<and> reader_rest r' = tl (dropWhile (\<lambda>c. c \<noteq> LF) (reader_data r))"
proof -
  let ?d = "reader_data r" and ?b = "lr_bol r"
  let ?k = "length (takeWhile (\<lambda>c. c \<noteq> LF) ?d)"
  have len: "length ?d = lr_eod r - ?b" using assms by (simp add: reader_data_def)
  have k: "?k < length ?d" using assms(3) by (simp add: takeWhile_length)
  have "subbuf ?b ?k (lr_buf r) = take ?k ?d" using k len by (simp add: reader_data_def subbuf_def)
  then have line: "subbuf ?b ?k (lr_buf r) = takeWhile (\<lambda>c. c \<noteq> LF) ?d"
    by (rule trans) (rule takeWhile_eq_take [symmetric])
  have "subbuf (Suc (?b + ?k)) (lr_eod r - Suc (?b + ?k)) (lr_buf r) = drop (Suc ?k) ?d"
    by (simp add: reader_data_def subbuf_def drop_take add.commute)
  then have rest: "subbuf (Suc (?b + ?k)) (lr_eod r - Suc (?b + ?k)) (lr_buf r) = tl (dropWhile (\<lambda>c. c \<noteq> LF) ?d)"
    by (simp add: tl_dropWhile)
  let ?r = "r\<lparr>lr_eol := Some (?b + ?k), lr_buf := (lr_buf r)[?b + ?k := NUL]\<rparr>"
  have e: "?b + ?k < lr_eod r" using k len by simp
  have "take_line r = (Ret (Some (takeWhile (\<lambda>c. c \<noteq> LF) ?d)), ?r)"
    using assms(3) by (simp add: take_line_def FindLineFeed_eq line)
  moreover have "0 < length (lr_buf r)" using e assms(2) by linarith
  with e assms(2) have "reader_ready ?r" by (simp add: reader_ready_def)
  moreover have "reader_rest ?r = tl (dropWhile (\<lambda>c. c \<noteq> LF) ?d)"
    using e rest by (simp add: reader_rest_def subbuf_update_past)
  ultimately show ?thesis by (intro exI [of _ ?r]) simp
qed

lemma take_line_none: "LF \<notin> set (reader_data r) \<Longrightarrow> \<exists>r'. take_line r = (Ret None, r')"
  by (simp add: take_line_def FindLineFeed_eq)

text \<open>What \<open>ReadLine\<close> makes of a text not handed out yet, with a buffer of \<open>cap\<close> bytes.\<close>

definition line_fits :: "nat \<Rightarrow> byte list \<Rightarrow> bool" where
  "line_fits cap t \<longleftrightarrow> LF \<in> set t \<and> length (takeWhile (\<lambda>c. c \<noteq> LF) t) < cap"

lemma line_fits_take: "line_fits cap t \<longleftrightarrow> LF \<in> set (take cap t)"
proof (induction t arbitrary: cap)
  case (Cons a t)
  then show ?case by (cases cap) (auto simp: line_fits_def)
qed (simp add: line_fits_def)

lemma line_of_prefix:
  assumes "LF \<in> set d"
  shows "takeWhile (\<lambda>c. c \<noteq> LF) (d @ e) = takeWhile (\<lambda>c. c \<noteq> LF) d"
    "tl (dropWhile (\<lambda>c. c \<noteq> LF) (d @ e)) = tl (dropWhile (\<lambda>c. c \<noteq> LF) d) @ e"
proof -
  from assms have "dropWhile (\<lambda>c. c \<noteq> LF) d \<noteq> []" by auto
  with assms show "takeWhile (\<lambda>c. c \<noteq> LF) (d @ e) = takeWhile (\<lambda>c. c \<noteq> LF) d"
    "tl (dropWhile (\<lambda>c. c \<noteq> LF) (d @ e)) = tl (dropWhile (\<lambda>c. c \<noteq> LF) d) @ e"
    by auto
qed

text \<open>
  A result of \<open>ReadLine\<close> for a text: its first line if it fits, with the rest of the text split
  between the reader and the file.
\<close>

definition line_result :: "nat \<Rightarrow> byte list \<Rightarrow> byte list \<Rightarrow> byte list option outcome \<Rightarrow> line_reader \<Rightarrow> bool" where
  "line_result cap t later res r \<longleftrightarrow>
     (if line_fits cap t
      then res = Ret (Some (takeWhile (\<lambda>c. c \<noteq> LF) t)) \<and> reader_ready r \<and> length (lr_buf r) = cap \<and>
           reader_rest r @ later = tl (dropWhile (\<lambda>c. c \<noteq> LF) t)
      else res = Ret None)"

lemma line_result_none: "\<not> line_fits cap t \<Longrightarrow> line_result cap t later (Ret None) r"
  by (simp add: line_result_def)

lemma take_line_result:
  assumes "lr_bol r \<le> lr_eod r" "lr_eod r \<le> cap" "length (lr_buf r) = cap" "t = reader_data r @ later"
    "LF \<in> set (reader_data r) \<longleftrightarrow> line_fits cap t"
  shows "\<exists>res r'. take_line r = (res, r') \<and> line_result cap t later res r'"
proof (cases "LF \<in> set (reader_data r)")
  case True
  with assms take_line_found [of r] obtain r' where r':
    "take_line r = (Ret (Some (takeWhile (\<lambda>c. c \<noteq> LF) (reader_data r))), r')" "reader_ready r'"
    "length (lr_buf r') = cap" "reader_rest r' = tl (dropWhile (\<lambda>c. c \<noteq> LF) (reader_data r))" by blast
  have "line_result cap t later (Ret (Some (takeWhile (\<lambda>c. c \<noteq> LF) (reader_data r)))) r'"
    using r' True assms(4,5) line_of_prefix [OF True, of later] by (simp add: line_result_def)
  with r'(1) show ?thesis by blast
next
  case False
  with take_line_none [OF False] line_result_none assms(5) show ?thesis by blast
qed

lemma drop_taken: "drop (p + length (take k (drop p bs))) bs = drop k (drop p bs)"
  by (cases "k \<le> length bs - p") (simp_all add: min_def add.commute)

context open_files
begin

lemma read_line_first:
  assumes "data w fd = Some bs" "lr_eod r = 0" "length (lr_buf r) = cap" "0 < cap"
  shows "\<exists>res r' w'. ReadLine S fd r w = Some (res, r', w') \<and> data w' = data w \<and>
     line_result cap (drop (pos w fd) bs) (drop (pos w' fd) bs) res r'"
proof -
  let ?t = "drop (pos w fd) bs"
  let ?got = "take cap ?t"
  from read_persistent [OF assms(1), of "[]" cap] obtain w1 where w1:
    "ReadPersistent S fd cap [] w = Some (True, ?got, w1)" "data w1 = data w" "pos w1 fd = pos w fd + length ?got"
    by (auto simp: subbuf_def)
  let ?r = "r\<lparr>lr_buf := overwrite 0 ?got (lr_buf r), lr_eod := length ?got, lr_bol := 0\<rparr>"
  show ?thesis
  proof (cases "?got = []")
    case True
    then have "\<not> line_fits cap ?t" using assms(4) by (auto simp: line_fits_take)
    with line_result_none True w1 assms(2,3) show ?thesis by (simp add: ReadLine_def)
  next
    case False
    have d: "reader_data ?r = ?got" by (simp add: reader_data_def subbuf_def overwrite_def min_def)
    have l: "length (lr_buf ?r) = cap" using assms(3) by simp
    have t: "?t = reader_data ?r @ drop cap ?t" unfolding d by (rule append_take_drop_id [symmetric])
    have "LF \<in> set (reader_data ?r) \<longleftrightarrow> line_fits cap ?t" unfolding d by (simp add: line_fits_take)
    from take_line_result [OF _ _ l t this] obtain res r' where r':
      "take_line ?r = (res, r')" "line_result cap ?t (drop cap ?t) res r'" by auto
    have "drop (pos w1 fd) bs = drop cap ?t" unfolding w1(3) by (rule drop_taken)
    moreover have "ReadLine S fd r w = Some (res, r', w1)" using False w1(1) assms(2,3) r'(1) by (simp add: ReadLine_def Let_def)
    ultimately show ?thesis using r'(2) w1(2) by auto
  qed
qed

lemma read_line_next:
  assumes "data w fd = Some bs" "reader_ready r" "lr_eod r \<noteq> 0" "length (lr_buf r) = cap"
  shows "\<exists>res r' w'. ReadLine S fd r w = Some (res, r', w') \<and> data w' = data w \<and>
     line_result cap (reader_rest r @ drop (pos w fd) bs) (drop (pos w' fd) bs) res r'"
proof -
  from assms obtain e where e: "lr_eol r = Some e" "e < lr_eod r" "lr_eod r \<le> cap"
    by (auto simp: reader_ready_def)
  let ?r1 = "r\<lparr>lr_bol := Suc e\<rparr>" and ?f = "drop (pos w fd) bs"
  let ?n = "lr_eod r - Suc e" and ?t = "reader_rest r @ drop (pos w fd) bs"
  have rest: "reader_data ?r1 = reader_rest r" using e by (simp add: reader_rest_def reader_data_def)
  have n: "length (reader_rest r) = ?n" "?n < cap" using e assms(4) by (auto simp: reader_rest_def)
  show ?thesis
  proof (cases "LF \<in> set (reader_rest r)")
    case True
    from n True have f: "line_fits cap ?t" by (simp add: line_fits_take)
    have "\<exists>res r'. take_line ?r1 = (res, r') \<and> line_result cap ?t ?f res r'"
      by (rule take_line_result) (use e f assms(4) True rest in simp_all)
    then obtain res r' where r': "take_line ?r1 = (res, r')" "line_result cap ?t ?f res r'" by blast
    have "ReadLine S fd r w = Some (res, r', w)"
      using e assms(3) True rest r'(1) by (simp add: ReadLine_def FindLineFeed_eq Let_def)
    with r'(2) show ?thesis by blast
  next
    case False
    let ?moved = "overwrite 0 (subbuf (Suc e) ?n (lr_buf r)) (lr_buf r)"
    have mv: "take ?n ?moved = reader_rest r" "length ?moved = cap"
      using n e assms(3,4) by (simp_all add: overwrite_def reader_rest_def)
    let ?got = "take (cap - ?n) ?f"
    from read_persistent [OF assms(1), of "[]" "cap - ?n"] obtain w1 where w1:
      "ReadPersistent S fd (cap - ?n) [] w = Some (True, ?got, w1)" "data w1 = data w" "pos w1 fd = pos w fd + length ?got"
      by (auto simp: subbuf_def)
    let ?r = "?r1\<lparr>lr_buf := overwrite ?n ?got ?moved, lr_eod := ?n + length ?got, lr_bol := 0\<rparr>"
    have RL: "ReadLine S fd r w =
      (if ?got = [] then Some (Ret None, ?r1\<lparr>lr_buf := overwrite ?n ?got ?moved\<rparr>, w1)
       else case take_line ?r of (res, r3) \<Rightarrow> Some (res, r3, w1))"
      using e assms(3,4) False rest w1(1) by (simp add: ReadLine_def FindLineFeed_eq Let_def split: prod.split)
    show ?thesis
    proof (cases "?got = []")
      case True
      with n have "\<not> line_fits cap ?t" using False by (simp add: line_fits_take)
      with line_result_none True RL w1(2) show ?thesis by auto
    next
      case got: False
      have l: "length (lr_buf ?r) = cap" using mv n by simp
      have "reader_data ?r = take (?n + length ?got) (overwrite ?n ?got ?moved)" by (simp add: reader_data_def subbuf_def)
      also have "\<dots> = reader_rest r @ ?got" using mv n by (subst take_overwrite_end) simp_all
      finally have d: "reader_data ?r = take cap ?t" using n by simp
      have t: "?t = reader_data ?r @ drop cap ?t" unfolding d by (rule append_take_drop_id [symmetric])
      have "length ?got \<le> cap - ?n" by simp
      with n(2) have le: "lr_eod ?r \<le> cap" by simp
      have "LF \<in> set (reader_data ?r) \<longleftrightarrow> line_fits cap ?t" unfolding d by (simp only: line_fits_take)
      from take_line_result [OF _ le l t this] obtain res r' where r':
        "take_line ?r = (res, r')" "line_result cap ?t (drop cap ?t) res r'" by auto
      have "drop (pos w1 fd) bs = drop (cap - ?n) ?f" unfolding w1(3) by (rule drop_taken)
      then have "drop (pos w1 fd) bs = drop cap ?t" using n by simp
      with RL got r' w1(2) show ?thesis by auto
    qed
  qed
qed

text \<open>\<open>ReadLine\<close> on a readable file.\<close>

lemma read_line:
  assumes "data w fd = Some bs" "reader_ready r" "length (lr_buf r) = cap"
  shows "\<exists>res r' w'. ReadLine S fd r w = Some (res, r', w') \<and> data w' = data w \<and>
     line_result cap (reader_rest r @ drop (pos w fd) bs) (drop (pos w' fd) bs) res r'"
proof (cases "lr_eod r = 0")
  case True
  then have "reader_rest r = []" by (simp add: reader_rest_def)
  moreover have "0 < cap" using assms by (auto simp: reader_ready_def)
  ultimately show ?thesis using read_line_first [OF assms(1) True assms(3)] by simp
next
  case False
  from read_line_next [OF assms(1,2) False assms(3)] show ?thesis .
qed

end

section \<open>The object file of an address\<close>

text \<open>The first line that is malformed or maps code containing the address.\<close>

primrec code_map_of :: "u64 \<Rightarrow> byte list list \<Rightarrow> (u64 \<times> string) option" where
  "code_map_of pc [] = None"
| "code_map_of pc (l # ls) =
     (case map_line pc l of Malformed \<Rightarrow> None | Skipped \<Rightarrow> code_map_of pc ls | Found start_address name \<Rightarrow> Some (start_address, name))"

context named_files
begin

text \<open>The file found is open under a new descriptor, and nothing else has changed.\<close>

definition file_of_map :: "(u64 \<times> string) option \<Rightarrow> (u64 \<times> byte list) option" where
  "file_of_map found = Option.bind found (\<lambda>(start_address, name). map_option (Pair start_address) (named name))"

definition object_opened :: "(u64 \<times> byte list) option \<Rightarrow> (nat \<times> u64) option \<Rightarrow> 'w \<Rightarrow> 'w \<Rightarrow> bool" where
  "object_opened found r w w' \<longleftrightarrow>
     (case found of None \<Rightarrow> r = None \<and> data w' = data w
      | Some (start_address, bs) \<Rightarrow>
          \<exists>fd. r = Some (fd, start_address) \<and> data w fd = None \<and> data w' = (data w)(fd := Some bs))"

lemma object_opened_data: "data w1 = data w \<Longrightarrow> object_opened found r w1 w' = object_opened found r w w'"
  by (cases found) (auto simp: object_opened_def)

lemma object_opened_none: "data w' = data w \<Longrightarrow> object_opened None None w w'"
  by (simp add: object_opened_def)

lemma object_opened_close:
  assumes "object_opened found r w1 w2" "data w k = None" "data w1 = (data w)(k := Some text)"
  shows "data w2 k = Some text" "data w3 = (data w2)(k := None) \<Longrightarrow> object_opened found r w w3"
proof -
  show "data w2 k = Some text" using assms by (cases found) (auto simp: object_opened_def split: if_splits)
  assume w3: "data w3 = (data w2)(k := None)"
  show "object_opened found r w w3"
  proof (cases found)
    case None
    with assms w3 show ?thesis by (simp add: object_opened_def fun_upd_idem)
  next
    case (Some f)
    then obtain a bs where "found = Some (a, bs)" by (cases f) auto
    with assms obtain fd where "r = Some (fd, a)" "data w1 fd = None" "data w2 = (data w1)(fd := Some bs)"
      by (auto simp: object_opened_def)
    moreover from this assms(3) have "fd \<noteq> k" by auto
    moreover have "data w3 = (data w)(fd := Some bs)" using w3 calculation assms(2,3) by (auto simp: fun_eq_iff)
    ultimately show ?thesis using \<open>found = Some (a, bs)\<close> assms(3) by (simp add: object_opened_def)
  qed
qed

lemma find_object:
  assumes "data w fd = Some text" "reader_ready r" "length (lr_buf r) = cap" "t = reader_rest r @ drop (pos w fd) text"
    "\<forall>l \<in> set (complete_lines t). length l < cap"
  shows "\<exists>res w'. find_object S fd pc r w = Some (Ret res, w') \<and> object_opened (file_of_map (code_map_of pc (complete_lines t))) res w w'"
  using assms
proof (induction t arbitrary: r w rule: complete_lines.induct)
  case (1 t)
  let ?line = "takeWhile (\<lambda>c. c \<noteq> LF) t" and ?rest = "tl (dropWhile (\<lambda>c. c \<noteq> LF) t)"
  from read_line [OF 1(2-4)] 1(5) obtain res r1 w1 where RL:
    "ReadLine S fd r w = Some (res, r1, w1)" "data w1 = data w" "line_result cap t (drop (pos w1 fd) text) res r1" by auto
  show ?case
  proof (cases "LF \<in> set t")
    case False
    then have "res = Ret None" using RL(3) by (simp add: line_result_def line_fits_def)
    then show ?thesis using RL False by (subst find_object.simps) (simp add: complete_lines.simps file_of_map_def object_opened_none)
  next
    case True
    then have L: "complete_lines t = ?line # complete_lines ?rest" by (subst complete_lines.simps) simp
    with 1(6) True have "line_fits cap t" by (simp add: line_fits_def)
    with RL(3) have res: "res = Ret (Some ?line)" "reader_ready r1" "length (lr_buf r1) = cap"
      "?rest = reader_rest r1 @ drop (pos w1 fd) text" by (simp_all add: line_result_def)
    show ?thesis
    proof (cases "map_line pc ?line")
      case Malformed
      then show ?thesis using RL res(1) L by (subst find_object.simps) (simp add: file_of_map_def object_opened_none)
    next
      case Skipped
      from 1(1) [OF True _ res(2,3,4)] 1(2,6) RL(2) L obtain x w2 where
        "find_object S fd pc r1 w1 = Some (Ret x, w2)" "object_opened (file_of_map (code_map_of pc (complete_lines ?rest))) x w1 w2" by auto
      then show ?thesis using RL res(1) L Skipped object_opened_data [OF RL(2)] by (subst find_object.simps) simp
    next
      case (Found a name)
      from open_named [of name w1] obtain w2 k where "open_fd S name w1 = Some (k, w2)"
        "case named name of None \<Rightarrow> k = None \<and> data w2 = data w1
          | Some bs \<Rightarrow> \<exists>k'. k = Some k' \<and> data w1 k' = None \<and> data w2 = (data w1)(k' := Some bs) \<and> pos w2 k' = 0" by blast
      then have "object_opened (file_of_map (Some (a, name))) (map_option (\<lambda>k. (k, a)) k) w w2"
        using RL(2) by (cases "named name") (auto simp: object_opened_def file_of_map_def)
      then show ?thesis using RL(1) res(1) L Found \<open>open_fd S name w1 = Some (k, w2)\<close>
        by (subst find_object.simps) simp
    qed
  qed
qed

lemma open_object_file:
  assumes "named ''/proc/self/maps'' = Some text" "junk \<noteq> []" "\<forall>l \<in> set (complete_lines text). length l < length junk"
  shows "\<exists>res w'. OpenObjectFileContainingPcAndGetStartAddress S junk pc w = Some (Ret res, w') \<and>
    object_opened (file_of_map (code_map_of pc (complete_lines text))) res w w'"
proof -
  from open_named [of "''/proc/self/maps''" w] assms(1) obtain w1 k where k:
    "open_fd S ''/proc/self/maps'' w = Some (Some k, w1)" "data w k = None" "data w1 = (data w)(k := Some text)" "pos w1 k = 0"
    by auto
  have "reader_ready (LineReader junk)" "length (lr_buf (LineReader junk)) = length junk"
    "text = reader_rest (LineReader junk) @ drop (pos w1 k) text" "data w1 k = Some text"
    using assms(2) k by (simp_all add: LineReader_def reader_ready_def reader_rest_def)
  from find_object [OF this(4,1,2,3) assms(3)] obtain res w2 where F:
    "find_object S k pc (LineReader junk) w1 = Some (Ret res, w2)"
    "object_opened (file_of_map (code_map_of pc (complete_lines text))) res w1 w2" by blast
  from object_opened_close(1) [OF F(2) k(2,3)] close_open obtain w3 where
    w3: "close_fd S k w2 = Some w3" "data w3 = (data w2)(k := None)" by blast
  from object_opened_close(2) [OF F(2) k(2,3) w3(2)] w3(1) k(1) F(1) show ?thesis
    by (simp add: OpenObjectFileContainingPcAndGetStartAddress_def)
qed

end

section \<open>The reader on any system\<close>

text \<open>A \<open>read\<close> that returns at most the count it was asked for.\<close>

definition reads_bounded :: "'w sys \<Rightarrow> bool" where
  "reads_bounded S \<longleftrightarrow> (\<forall>fd n w bs w'. sys_read S fd n w = (Read_bytes bs, w') \<longrightarrow> length bs \<le> n)"

lemma ReadPersistent_bounded:
  assumes "ReadPersistent S fd n got w = Some y"
  shows "reads_bounded S \<Longrightarrow> length got \<le> n \<Longrightarrow> length (fst (snd y)) \<le> n"
  using assms
proof (induction rule: ReadPersistent.raw_induct [rotated, consumes 1])
  case (1 loop S fd n got w y)
  show ?case
  proof (cases "length got < n")
    case False
    with 1 show ?thesis by auto
  next
    case True
    obtain r w1 where r: "sys_read S fd (n - length got) w = (r, w1)" by fastforce
    show ?thesis
    proof (cases r)
      case (Read_bytes bs)
      with r 1(3) have "length bs \<le> n - length got" unfolding reads_bounded_def by blast
      then have "length (got @ bs) \<le> n" using True by simp
      then show ?thesis using 1(1) [of S fd n "got @ bs" w1 y] 1(2-4) True r Read_bytes by (auto split: if_splits)
    next
      case Read_eintr
      then show ?thesis using 1(1) [of S fd n got w1 y] 1(2-4) True r by simp
    next
      case Read_error
      then show ?thesis using 1(2-4) True r by auto
    qed
  qed
qed

text \<open>The pointers of a reader between two calls lie in its buffer, in their order.\<close>

definition reader_typed :: "nat \<Rightarrow> line_reader \<Rightarrow> bool" where
  "reader_typed cap r \<longleftrightarrow> length (lr_buf r) = cap \<and>
     (lr_eod r = 0 \<or> (\<exists>e. lr_eol r = Some e \<and> lr_bol r \<le> e \<and> e < lr_eod r \<and> lr_eod r \<le> cap))"

definition line_typed :: "nat \<Rightarrow> byte list option outcome \<Rightarrow> line_reader \<Rightarrow> bool" where
  "line_typed cap res r \<longleftrightarrow> length (lr_buf r) = cap \<and>
     (case res of Ret None \<Rightarrow> True
      | Ret (Some l) \<Rightarrow> reader_typed cap r \<and> LF \<notin> set l \<and> length l < cap
      | _ \<Rightarrow> False)"

lemma take_line_typed:
  assumes "length (lr_buf r) = cap" "lr_eod r \<le> cap" "lr_bol r \<le> lr_eod r" "take_line r = (res, r')"
  shows "line_typed cap res r'"
proof (cases "LF \<in> set (reader_data r)")
  case False
  with assms(1,4) show ?thesis by (auto simp: take_line_def FindLineFeed_eq line_typed_def)
next
  case True
  let ?k = "length (takeWhile (\<lambda>c. c \<noteq> LF) (reader_data r))"
  from True have k: "?k < length (reader_data r)" by (simp add: takeWhile_length)
  then have e: "lr_bol r + ?k < lr_eod r" using assms(1-3) by (simp add: reader_data_def)
  have "subbuf (lr_bol r) ?k (lr_buf r) = take ?k (reader_data r)" using e by (simp add: reader_data_def subbuf_def)
  also have "\<dots> = takeWhile (\<lambda>c. c \<noteq> LF) (reader_data r)" by (rule takeWhile_eq_take [symmetric])
  finally have "subbuf (lr_bol r) ?k (lr_buf r) = takeWhile (\<lambda>c. c \<noteq> LF) (reader_data r)" .
  moreover have "LF \<notin> set (takeWhile (\<lambda>c. c \<noteq> LF) (reader_data r))" by (auto dest: set_takeWhileD)
  ultimately show ?thesis using assms True e
    by (auto simp: take_line_def FindLineFeed_eq line_typed_def reader_typed_def)
qed

lemma line_typed_none: "length (lr_buf r) = cap \<Longrightarrow> line_typed cap (Ret None) r"
  by (simp add: line_typed_def)

lemma ReadLine_keeps_type:
  assumes "reads_bounded S" "reader_typed cap r" "ReadLine S fd r w = Some (res, r', w')"
  shows "line_typed cap res r'"
proof -
  have cap: "length (lr_buf r) = cap" using assms(2) by (simp add: reader_typed_def)
  show ?thesis
  proof (cases "lr_eod r = 0")
    case True
    with assms(3) cap obtain ok got w1 where R: "ReadPersistent S fd cap [] w = Some (ok, got, w1)"
      by (auto simp: ReadLine_def)
    with ReadPersistent_bounded [OF R assms(1)] have "length got \<le> cap" by simp
    show ?thesis
    proof (cases "\<not> ok \<or> got = []")
      case t: True
      then have "res = Ret None" "r' = r\<lparr>lr_buf := overwrite 0 got (lr_buf r)\<rparr>"
        using assms(3) True cap R by (auto simp: ReadLine_def Let_def)
      with cap \<open>length got \<le> cap\<close> show ?thesis by (simp add: line_typed_none)
    next
      case f: False
      then have "take_line (r\<lparr>lr_buf := overwrite 0 got (lr_buf r), lr_eod := length got, lr_bol := 0\<rparr>) = (res, r')"
        using assms(3) True cap R by (simp add: ReadLine_def Let_def split: prod.splits)
      with cap \<open>length got \<le> cap\<close> show ?thesis by (intro take_line_typed) auto
    qed
  next
    case False
    with assms(2) obtain e where e: "lr_eol r = Some e" "e < lr_eod r" "lr_eod r \<le> cap" by (auto simp: reader_typed_def)
    let ?n = "lr_eod r - Suc e"
    show ?thesis
    proof (cases "FindLineFeed (r\<lparr>lr_bol := Suc e\<rparr>)")
      case (Some x)
      then have "take_line (r\<lparr>lr_bol := Suc e\<rparr>) = (res, r')"
        using assms(3) False e by (simp add: ReadLine_def Let_def split: prod.splits)
      with e cap show ?thesis by (intro take_line_typed) auto
    next
      case None
      with assms(3) False e cap obtain ok got w1 where R: "ReadPersistent S fd (cap - ?n) [] w = Some (ok, got, w1)"
        by (auto simp: ReadLine_def Let_def)
      with ReadPersistent_bounded [OF R assms(1)] have "length got \<le> cap - ?n" by simp
      let ?moved = "overwrite 0 (subbuf (Suc e) ?n (lr_buf r)) (lr_buf r)"
      let ?r = "r\<lparr>lr_bol := Suc e, lr_buf := overwrite ?n got ?moved\<rparr>"
      have moved: "length ?moved = cap" using e cap by simp
      have le: "?n + length got \<le> cap" using \<open>length got \<le> cap - ?n\<close> e by linarith
      show ?thesis
      proof (cases "\<not> ok \<or> got = []")
        case True
        then have "res = Ret None" "r' = ?r" using assms(3) False cap R None e by (auto simp: ReadLine_def Let_def)
        with le moved show ?thesis by (simp add: line_typed_none)
      next
        case f: False
        then have "take_line (?r\<lparr>lr_eod := ?n + length got, lr_bol := 0\<rparr>) = (res, r')"
          using assms(3) False cap R None e by (auto simp: ReadLine_def Let_def split: prod.splits)
        with le moved show ?thesis by (intro take_line_typed) auto
      qed
    qed
  qed
qed

text \<open>
  C25. On any system whose \<open>read\<close> returns at most what it was asked for, \<open>ReadLine\<close> keeps the
  pointers of the reader inside its buffer and in order, never fails its assertion or follows
  a null pointer, and hands out lines without a newline that fit the buffer.
\<close>

theorem ReadLine_typed:
  assumes "reads_bounded S" "reader_typed cap r" "ReadLine S fd r w = Some (res, r', w')"
  shows "length (lr_buf r') = cap \<and>
    (res = Ret None \<or> (\<exists>l. res = Ret (Some l) \<and> reader_typed cap r' \<and> LF \<notin> set l \<and> length l < cap))"
  using ReadLine_keeps_type [OF assms]
  by (cases res) (auto simp: line_typed_def split: option.splits)

lemma ReadLine_typed_witness:
  "\<exists>res r' w'. ReadLine (disk_sys []) 0 (LineReader (replicate 8 NUL)) \<lparr>dk_open = [Some (''ab'' @ [LF], 0)], dk_sched = []\<rparr>
      = Some (res, r', w') \<and> length (lr_buf r') = 8 \<and>
    (res = Ret None \<or> (\<exists>l. res = Ret (Some l) \<and> reader_typed 8 r' \<and> LF \<notin> set l \<and> length l < 8))"
proof -
  let ?w = "\<lparr>dk_open = [Some (''ab'' @ [LF], 0)], dk_sched = []\<rparr>" and ?r = "LineReader (replicate 8 NUL)"
  have d: "dk_data ?w 0 = Some (''ab'' @ [LF])" by (simp add: dk_data_def dk_file_def)
  have "reader_ready ?r" "length (lr_buf ?r) = 8" by (simp_all add: LineReader_def reader_ready_def)
  with disk_files.read_line [OF d, of ?r] obtain res r' w' where R: "ReadLine (disk_sys []) 0 ?r ?w = Some (res, r', w')" by blast
  have "reads_bounded (disk_sys [])"
    by (auto simp: reads_bounded_def disk_sys_def subbuf_def Let_def dk_limit_bounds min.coboundedI2 split: option.splits prod.splits if_splits)
  moreover have "reader_typed 8 ?r" by (simp add: reader_typed_def LineReader_def)
  ultimately show ?thesis using ReadLine_typed [OF _ _ R] R by blast
qed

end
