(* ===== verification/QS_Stack_Facts.thy ===== *)
theory QS_Stack_Facts
  imports QS_Lines
begin

text \<open>
  The sections and symbols of an ELF file as the stack printer finds them, the table that is
  cut short, and the whole way from an address to its name.
\<close>

section \<open>Tables of structures\<close>

definition struct_at :: "nat \<Rightarrow> (byte list \<Rightarrow> 'a) \<Rightarrow> byte list \<Rightarrow> nat \<Rightarrow> nat \<Rightarrow> 'a" where
  "struct_at sz get bs t i = get (subbuf (t + i * sz) sz bs)"

lemma subbuf_subbuf: "i + n \<le> m \<Longrightarrow> subbuf i n (subbuf p m xs) = subbuf (p + i) n xs"
  by (simp add: subbuf_def drop_take take_take add.commute min_def)

lemma structs_of_table:
  assumes "0 < sz" "t + (i + m) * sz \<le> length bs"
  shows "structs_of sz get (subbuf (t + i * sz) (m * sz) bs) = map (struct_at sz get bs t) [i..<i + m]"
proof -
  have "length (subbuf (t + i * sz) (m * sz) bs) = m * sz" using assms(2) by (simp add: algebra_simps)
  then have "structs_of sz get (subbuf (t + i * sz) (m * sz) bs) =
      map (\<lambda>j. get (subbuf (j * sz) sz (subbuf (t + i * sz) (m * sz) bs))) [0..<m]"
    using assms(1) by (simp add: structs_of_def)
  also have "\<dots> = map (\<lambda>j. struct_at sz get bs t (j + i)) [0..<m]"
  proof (rule map_cong [OF refl])
    fix j assume "j \<in> set [0..<m]"
    then have "Suc j \<le> m" by simp
    then have "Suc j * sz \<le> m * sz" by (rule mult_le_mono1)
    then show "get (subbuf (j * sz) sz (subbuf (t + i * sz) (m * sz) bs)) = struct_at sz get bs t (j + i)"
      by (simp add: subbuf_subbuf struct_at_def algebra_simps)
  qed
  also have "\<dots> = map (struct_at sz get bs t) (map (\<lambda>j. j + i) [0..<m])" by (simp add: comp_def)
  also have "map (\<lambda>j. j + i) [0..<m] = [i..<i + m]" by (simp add: map_add_upt add.commute)
  finally show ?thesis .
qed

lemma find_upt_split: "i \<le> k \<Longrightarrow> k \<le> n \<Longrightarrow>
    find P (map f [i..<n]) = (case find P (map f [i..<k]) of None \<Rightarrow> find P (map f [k..<n]) | Some x \<Rightarrow> Some x)"
proof -
  assume "i \<le> k" "k \<le> n"
  then have "[i..<n] = [i..<k] @ [k..<n]" using upt_add_eq_append [of i k "n - k"] by simp
  moreover have "find P (xs @ ys) = (case find P xs of None \<Rightarrow> find P ys | Some x \<Rightarrow> Some x)" for xs ys :: "'a list"
    by (induction xs) auto
  ultimately show ?thesis by simp
qed

text \<open>
  The part of a table of \<open>n\<close> entries at \<open>t\<close> that a file holds: all of it, or as many whole
  entries as the file has before it ends.
\<close>

definition table_part :: "nat \<Rightarrow> byte list \<Rightarrow> nat \<Rightarrow> nat \<Rightarrow> nat \<Rightarrow> bool" where
  "table_part sz bs t n avail \<longleftrightarrow> 0 < sz \<and> t + avail * sz \<le> length bs \<and> (n \<le> avail \<or> t + avail * sz = length bs)"

lemma table_part_rest:
  assumes "0 < sz" "t \<le> length bs" "(length bs - t) mod sz = 0 \<or> n \<le> (length bs - t) div sz"
  shows "table_part sz bs t n ((length bs - t) div sz)"
proof -
  have "(length bs - t) div sz * sz \<le> length bs - t" by (rule div_times_less_eq_dividend)
  moreover have "(length bs - t) mod sz = 0 \<Longrightarrow> (length bs - t) div sz * sz = length bs - t" by (rule mod_0_imp_dvd [THEN dvd_div_mult_self])
  ultimately show ?thesis unfolding table_part_def using assms by linarith
qed

lemma table_part_read:
  assumes "table_part sz bs t n avail" "i \<le> avail" "i + k \<le> n"
  shows "subbuf (t + i * sz) (k * sz) bs = subbuf (t + i * sz) (min k (avail - i) * sz) bs"
    "length (subbuf (t + i * sz) (k * sz) bs) = min k (avail - i) * sz"
    "structs_of sz get (subbuf (t + i * sz) (k * sz) bs) = map (struct_at sz get bs t) [i..<i + min k (avail - i)]"
proof -
  let ?m = "min k (avail - i)"
  have sz: "0 < sz" "t + avail * sz \<le> length bs" using assms(1) by (auto simp: table_part_def)
  have "(i + ?m) * sz \<le> avail * sz" using assms(2) by (intro mult_le_mono1) simp
  then have m: "t + (i + ?m) * sz \<le> length bs" using sz(2) by linarith
  show e: "subbuf (t + i * sz) (k * sz) bs = subbuf (t + i * sz) (?m * sz) bs"
  proof (cases "k \<le> avail - i")
    case False
    then have "\<not> n \<le> avail" using assms(2,3) by simp
    then have "t + avail * sz = length bs" using assms(1) by (simp add: table_part_def)
    moreover have "t + i * sz + ?m * sz = t + avail * sz" using False assms(2)
      by (metis add.assoc add_mult_distrib le_add_diff_inverse linorder_not_le min.absorb2 nless_le)
    moreover have "t + i * sz + ?m * sz \<le> t + i * sz + k * sz" by simp
    ultimately show ?thesis by (simp add: subbuf_def)
  qed simp
  show "length (subbuf (t + i * sz) (k * sz) bs) = ?m * sz" unfolding e using m by (simp add: algebra_simps)
  show "structs_of sz get (subbuf (t + i * sz) (k * sz) bs) = map (struct_at sz get bs t) [i..<i + ?m]"
    unfolding e by (rule structs_of_table [OF sz(1) m])
qed

text \<open>Offsets inside a file fit \<open>off_t\<close>.\<close>

lemma offset_in_file:
  assumes "t + k < 2 ^ 63" "unat base = t"
  shows "sint (base + of_nat k :: u64) = int (t + k)"
proof -
  have "base = of_nat t" using assms(2) by auto
  then have "base + of_nat k = of_int (int (t + k))" by simp
  moreover have "sint (word_of_int (int (t + k)) :: u64) = int (t + k)"
    using assms(1) unfolding int_word_sint by (subst mod_pos_pos_trivial) auto
  ultimately show ?thesis by (simp only:)
qed

section \<open>Sections\<close>

context open_files
begin

text \<open>One batch of \<open>k\<close> entries, read from the entry \<open>i\<close> on.\<close>

lemma read_batch:
  fixes base :: u64
  assumes "data w fd = Some bs" "length bs < 2 ^ 63" "table_part sz bs (unat base) n avail" "i \<le> avail" "i + k \<le> n"
  shows "\<exists>got w'. ReadFromOffset S fd (k * sz) (sint (base + of_nat (i * sz))) w = Some (True, got, w') \<and> data w' = data w \<and>
     length got mod sz = 0 \<and> length got div sz = min k (avail - i) \<and>
     structs_of sz get got = map (struct_at sz get bs (unat base)) [i..<i + min k (avail - i)]"
proof -
  have "i * sz \<le> avail * sz" "unat base + avail * sz \<le> length bs" using assms(3,4) by (auto simp: table_part_def)
  then have "unat base + i * sz < 2 ^ 63" using assms(2) by linarith
  then have pos: "sint (base + of_nat (i * sz)) = int (unat base + i * sz)" by (rule offset_in_file) simp
  define p where "p = unat base + i * sz"
  from read_from_offset [OF assms(1), of "int p" "k * sz"] obtain w' where
    "ReadFromOffset S fd (k * sz) (int p) w = Some (True, subbuf p (k * sz) bs, w')" "data w' = data w" by auto
  moreover have "0 < sz" using assms(3) by (simp add: table_part_def)
  ultimately show ?thesis using table_part_read [OF assms(3,4,5)] unfolding pos p_def by simp
qed

lemma section_by_type:
  assumes "data w fd = Some bs" "length bs < 2 ^ 63" "table_part (sizeof_Shdr A) bs (unat base) n avail" "i \<le> avail"
    "n \<le> avail \<or> find (\<lambda>h. sh_type h = ty) (map (struct_at (sizeof_Shdr A) (get_Shdr A) bs (unat base)) [i..<avail]) \<noteq> None"
  shows "\<exists>w'. section_by_type S A fd n base ty i w =
     Some (Ret (find (\<lambda>h. sh_type h = ty) (map (struct_at (sizeof_Shdr A) (get_Shdr A) bs (unat base)) [i..<min n avail])), w') \<and>
     data w' = data w"
  using assms
proof (induction "n - i" arbitrary: i w rule: less_induct)
  case less
  let ?sz = "sizeof_Shdr A" and ?P = "\<lambda>h. sh_type h = ty"
  let ?h = "struct_at ?sz (get_Shdr A) bs (unat base)"
  show ?case
  proof (cases "i < n")
    case False
    then show ?thesis by (subst section_by_type.simps) simp
  next
    case True
    let ?k = "min (n - i) 16"
    let ?m = "min ?k (avail - i)"
    have kn: "i + ?k \<le> n" using True by simp
    have km: "min ((n - i) * ?sz) (16 * ?sz) = ?k * ?sz" by (rule nat_mult_min_left [symmetric])
    from read_batch [OF less.prems(1-4) kn, where get = "get_Shdr A"] obtain got w1 where B:
      "ReadFromOffset S fd (?k * ?sz) (sint (base + of_nat (i * ?sz))) w = Some (True, got, w1)" "data w1 = data w"
      "length got mod ?sz = 0" "length got div ?sz = ?m" "structs_of ?sz (get_Shdr A) got = map ?h [i..<i + ?m]" by (elim exE conjE)
    have step: "section_by_type S A fd n base ty i w =
      (case find ?P (map ?h [i..<i + ?m]) of Some h \<Rightarrow> Some (Ret (Some h), w1)
       | None \<Rightarrow> section_by_type S A fd n base ty (i + ?m) w1)"
      by (subst section_by_type.simps) (simp only: True B(1,3,4,5) km bind.simps if_True if_False prod.case not_True_eq_False simp_thms Option.bind.simps cong: option.case_cong)
    have im: "i + ?m \<le> min n avail" using True less.prems(4) by auto
    show ?thesis
    proof (cases "find ?P (map ?h [i..<i + ?m])")
      case (Some h)
      with im step B(2) show ?thesis using find_upt_split [of i "i + ?m" "min n avail" ?P ?h] by (simp add: min.commute)
    next
      case None
      have "find ?P (map ?h [i..<avail]) = find ?P (map ?h [i + ?m..<avail])"
        using None im find_upt_split [of i "i + ?m" avail ?P ?h] by simp
      with less.prems(5) have p5: "n \<le> avail \<or> find ?P (map ?h [i + ?m..<avail]) \<noteq> None" by simp
      have "0 < ?m"
      proof (rule ccontr)
        assume "\<not> 0 < ?m"
        with True have "avail \<le> i" by auto
        with p5 True less.prems(4) show False by auto
      qed
      with True have "n - (i + ?m) < n - i" by linarith
      have d1: "data w1 fd = Some bs" "i + ?m \<le> avail" using less.prems(1) B(2) im by auto
      from less.hyps [OF \<open>n - (i + ?m) < n - i\<close> d1(1) less.prems(2,3) d1(2) p5] obtain w2 where
        "section_by_type S A fd n base ty (i + ?m) w1 = Some (Ret (find ?P (map ?h [i + ?m..<min n avail])), w2)" "data w2 = data w1"
        by (elim exE conjE)
      with B(2) have "section_by_type S A fd n base ty (i + ?m) w1 = Some (Ret (find ?P (map ?h [i + ?m..<min n avail])), w2)"
        "data w2 = data w" by simp_all
      then show ?thesis using step None im find_upt_split [of i "i + ?m" "min n avail" ?P ?h] by simp
    qed
  qed
qed

text \<open>A table cut short that does not hold the section: the loop goes on for ever.\<close>

lemma section_by_type_diverges:
  assumes "section_by_type S' A fd n base ty i w = Some y"
  shows "S' = S \<Longrightarrow> data w fd = Some bs \<Longrightarrow> length bs < 2 ^ 63 \<Longrightarrow>
    table_part (sizeof_Shdr A) bs (unat base) n avail \<Longrightarrow> avail < n \<Longrightarrow> i \<le> avail \<Longrightarrow>
    find (\<lambda>h. sh_type h = ty) (map (struct_at (sizeof_Shdr A) (get_Shdr A) bs (unat base)) [i..<avail]) = None \<Longrightarrow> False"
  using assms
proof (induction rule: section_by_type.raw_induct [rotated, consumes 1])
  case (1 loop S' A fd n base ty i w y)
  let ?sz = "sizeof_Shdr A" and ?P = "\<lambda>h. sh_type h = ty"
  let ?h = "struct_at ?sz (get_Shdr A) bs (unat base)"
  let ?k = "min (n - i) 16"
  let ?m = "min ?k (avail - i)"
  have i: "i < n" using 1 by simp
  have kn: "i + ?k \<le> n" using i by simp
  have km: "min ((n - i) * ?sz) (16 * ?sz) = ?k * ?sz" by (rule nat_mult_min_left [symmetric])
  from read_batch [OF 1(4,5,6,8) kn, where get = "get_Shdr A"] obtain got w1 where B:
    "ReadFromOffset S fd (?k * ?sz) (sint (base + of_nat (i * ?sz))) w = Some (True, got, w1)" "data w1 = data w"
    "length got mod ?sz = 0" "length got div ?sz = ?m" "structs_of ?sz (get_Shdr A) got = map ?h [i..<i + ?m]" by (elim exE conjE)
  have "i + ?m \<le> avail" using 1(8) by simp
  then have split: "find ?P (map ?h [i..<i + ?m]) = None" "find ?P (map ?h [i + ?m..<avail]) = None"
    using 1(9) find_upt_split [of i "i + ?m" avail ?P ?h] by (simp_all split: option.splits)
  have "loop S' A fd n base ty (i + ?m) w1 = Some y" using 1(2) i by (simp only: 1(3) B(1,3,4,5) split(1) km if_True if_False prod.case not_True_eq_False simp_thms Option.bind.simps option.case)
  from 1(1) [OF this] 1(3-8) B(2) split(2) \<open>i + ?m \<le> avail\<close> show ?case by simp
qed

section \<open>Symbols\<close>

lemma find_upt_longer: "find P (map f [i..<n]) = Some x \<Longrightarrow> n \<le> k \<Longrightarrow> find P (map f [i..<k]) = Some x"
  using find_upt_split [of i n k P f] by (cases "i \<le> n") auto

text \<open>The search ends at the first entry of the table that contains the address.\<close>

lemma find_symbol:
  assumes "data w fd = Some bs" "length bs < 2 ^ 63" "sh_entsize symtab = of_nat (sizeof_Sym A)"
    "table_part (sizeof_Sym A) bs (unat (sh_offset symtab)) (num + 31) avail" "num < 2 ^ 31"
    "find (contains_pc pc shift) (map (struct_at (sizeof_Sym A) (get_Sym A) bs (unat (sh_offset symtab))) [i..<min num avail]) = Some symb"
  shows "\<exists>w1. data w1 = data w \<and>
    find_symbol S A pc fd out shift strtab symtab (int num) (int i) w = read_name S fd out strtab symb w1"
  using assms(1,6)
proof (induction "num - i" arbitrary: i w rule: less_induct)
  case less
  let ?sz = "sizeof_Sym A" and ?P = "contains_pc pc shift"
  let ?h = "struct_at ?sz (get_Sym A) bs (unat (sh_offset symtab))"
  let ?m = "min NUM_SYMBOLS (avail - i)"
  have "i < min num avail"
  proof (rule ccontr)
    assume "\<not> i < min num avail"
    then have "[i..<min num avail] = []" by (simp only: upt_conv_Nil linorder_not_less)
    with less.prems(2) show False by simp
  qed
  then have i: "i < num" "i < avail" by simp_all
  have kn: "i + NUM_SYMBOLS \<le> num + 31" "i \<le> avail" using i by (auto simp: NUM_SYMBOLS_def)
  have at: "sh_offset symtab + word_of_int (int i) * sh_entsize symtab = sh_offset symtab + of_nat (i * ?sz)"
    using assms(3) by simp
  from read_batch [OF less.prems(1) assms(2,4) kn(2,1), where get = "get_Sym A"] obtain got w1 where B:
    "ReadFromOffset S fd (NUM_SYMBOLS * ?sz) (sint (sh_offset symtab + of_nat (i * ?sz))) w = Some (True, got, w1)"
    "data w1 = data w" "length got mod ?sz = 0" "length got div ?sz = ?m"
    "structs_of ?sz (get_Sym A) got = map ?h [i..<i + ?m]" by (elim exE conjE)
  have ilt: "int i < int num" using i by simp
  have step: "find_symbol S A pc fd out shift strtab symtab (int num) (int i) w =
    (case find ?P (map ?h [i..<i + ?m]) of Some symb \<Rightarrow> read_name S fd out strtab symb w1
     | None \<Rightarrow> find_symbol S A pc fd out shift strtab symtab (int num) (to_int32 (int i + int ?m)) w1)"
    by (subst find_symbol.simps)
      (simp only: ilt at B(1,3,4,5) if_True if_False prod.case not_True_eq_False simp_thms Option.bind.simps cong: option.case_cong)
  show ?case
  proof (cases "find ?P (map ?h [i..<i + ?m])")
    case (Some x)
    have "x = symb"
    proof (cases "i + ?m \<le> min num avail")
      case True
      from find_upt_longer [OF Some True] less.prems(2) show ?thesis by simp
    next
      case False
      from find_upt_longer [OF less.prems(2), of "i + ?m"] False Some show ?thesis by simp
    qed
    with step Some B(2) show ?thesis by auto
  next
    case None
    have le: "i + ?m \<le> min num avail"
    proof (rule ccontr)
      assume "\<not> i + ?m \<le> min num avail"
      from find_upt_longer [OF less.prems(2), of "i + ?m"] this None show False by simp
    qed
    have "find ?P (map ?h [i + ?m..<min num avail]) = Some symb"
      using find_upt_split [of i "i + ?m" "min num avail" ?P ?h] le None less.prems(2) by simp
    moreover have "num - (i + ?m) < num - i" using i le by (auto simp: NUM_SYMBOLS_def)
    moreover have "data w1 fd = Some bs" using less.prems(1) B(2) by simp
    ultimately obtain w2 where w2: "data w2 = data w1"
      "find_symbol S A pc fd out shift strtab symtab (int num) (int (i + ?m)) w1 = read_name S fd out strtab symb w2"
      using less.hyps by blast
    have "to_int32 (int i + int ?m) = int (i + ?m)" using le assms(5) by (subst to_int32_id) auto
    with step None w2 B(2) show ?thesis by auto
  qed
qed

text \<open>A name of the string table that fits the buffer with its terminator.\<close>

lemma read_name_text:
  assumes "data w fd = Some bs" "NUL \<notin> set name" "length name < length out" "length bs < 2 ^ 63"
    "subbuf (unat (sh_offset strtab) + unat (st_name symb)) (Suc (length name)) bs = name @ [NUL]"
  shows "\<exists>out' w'. read_name S fd out strtab symb w = Some (Ret True, out', w') \<and> data w' = data w \<and>
    takeWhile (\<lambda>c. c \<noteq> NUL) out' = name"
proof -
  define p where "p = unat (sh_offset strtab) + unat (st_name symb)"
  have sub: "subbuf p (Suc (length name)) bs = name @ [NUL]" using assms(5) by (simp add: p_def)
  have "p < length bs"
  proof (rule ccontr)
    assume "\<not> p < length bs"
    with sub show False by (simp add: subbuf_def)
  qed
  have "sint (sh_offset strtab + of_nat (unat (st_name symb))) = int p"
    unfolding p_def by (rule offset_in_file) (use \<open>p < length bs\<close> assms(4) in \<open>simp_all add: p_def\<close>)
  moreover have "of_nat (unat (st_name symb)) = (ucast (st_name symb) :: u64)" by simp
  ultimately have pos: "sint (sh_offset strtab + ucast (st_name symb)) = int p" by metis
  define got where "got = subbuf p (length out) bs"
  from read_from_offset [OF assms(1), of "int p" "length out"] obtain w1 where
    w1: "ReadFromOffset S fd (length out) (int p) w = Some (True, got, w1)" "data w1 = data w" by (auto simp: got_def)
  have "take (Suc (length name)) got = name @ [NUL]" using sub assms(3) by (simp add: got_def subbuf_def min_def)
  then have g: "got = name @ NUL # drop (Suc (length name)) got" by (metis append_Cons append_assoc append_take_drop_id self_append_conv2)
  then have out: "overwrite 0 got out = name @ NUL # drop (Suc (length name)) got @ drop (length got) out"
    by (metis append_Cons append_assoc drop0 overwrite_def plus_nat.add_0 self_append_conv2 take0)
  have "takeWhile (\<lambda>c. c \<noteq> NUL) (name @ NUL # xs) = name" for xs using assms(2) by (induction name) auto
  with out have "takeWhile (\<lambda>c. c \<noteq> NUL) (overwrite 0 got out) = name" by simp
  moreover have "got \<noteq> []" "NUL \<in> set (overwrite 0 got out)" using g out by auto
  ultimately show ?thesis using w1 unfolding read_name_def pos by (simp add: Let_def)
qed

end

section \<open>The name of an address in an ELF file\<close>

definition elf_header :: "elf_abi \<Rightarrow> byte list \<Rightarrow> Ehdr" where
  "elf_header A bs = get_Ehdr A (subbuf 0 (sizeof_Ehdr A) bs)"

definition elf_section :: "elf_abi \<Rightarrow> byte list \<Rightarrow> nat \<Rightarrow> Shdr" where
  "elf_section A bs = struct_at (sizeof_Shdr A) (get_Shdr A) bs (unat (e_shoff (elf_header A bs)))"

definition elf_find_section :: "elf_abi \<Rightarrow> byte list \<Rightarrow> u32 \<Rightarrow> Shdr option" where
  "elf_find_section A bs ty = find (\<lambda>h. sh_type h = ty) (map (elf_section A bs) [0..<unat (e_shnum (elf_header A bs))])"

definition elf_symbol :: "elf_abi \<Rightarrow> byte list \<Rightarrow> Shdr \<Rightarrow> u64 \<Rightarrow> u64 \<Rightarrow> Sym option" where
  "elf_symbol A bs symtab pc shift =
     find (contains_pc pc shift) (map (struct_at (sizeof_Sym A) (get_Sym A) bs (unat (sh_offset symtab)))
       [0..<unat (sh_size symtab) div sizeof_Sym A])"

text \<open>
  The section headers and a symbol table lie in the file; behind the table there are 31 more
  entries, or whole entries up to the end of the file.
\<close>

definition headers_ok :: "elf_abi \<Rightarrow> byte list \<Rightarrow> bool" where
  "headers_ok A bs \<longleftrightarrow> sizeof_Ehdr A \<le> length bs \<and> length bs < 2 ^ 63 \<and> take 4 (e_ident (elf_header A bs)) = ELFMAG \<and>
     0 < sizeof_Shdr A \<and> unat (e_shoff (elf_header A bs)) + unat (e_shnum (elf_header A bs)) * sizeof_Shdr A \<le> length bs"

definition symtab_ok :: "elf_abi \<Rightarrow> byte list \<Rightarrow> Shdr \<Rightarrow> bool" where
  "symtab_ok A bs symtab \<longleftrightarrow>
     (let sz = sizeof_Sym A; t = unat (sh_offset symtab); n = unat (sh_size symtab) div sz; there = (length bs - t) div sz in
      0 < sz \<and> sz < 2 ^ 64 \<and> sh_entsize symtab = of_nat sz \<and> t \<le> length bs \<and> n < 2 ^ 31 \<and> n \<le> there \<and>
      ((length bs - t) mod sz = 0 \<or> n + 31 \<le> there) \<and> unat (sh_link symtab) < unat (e_shnum (elf_header A bs)))"

definition elf_shift :: "elf_abi \<Rightarrow> byte list \<Rightarrow> u64 \<Rightarrow> u64" where
  "elf_shift A bs base = (if e_type (elf_header A bs) = ET_DYN then base else 0)"

definition names_pc :: "elf_abi \<Rightarrow> byte list \<Rightarrow> u64 \<Rightarrow> u64 \<Rightarrow> string \<Rightarrow> bool" where
  "names_pc A bs base pc name \<longleftrightarrow> headers_ok A bs \<and>
     (case elf_find_section A bs SHT_SYMTAB of None \<Rightarrow> False
      | Some symtab \<Rightarrow> symtab_ok A bs symtab \<and>
          (case elf_symbol A bs symtab pc (elf_shift A bs base) of None \<Rightarrow> False
           | Some symb \<Rightarrow> NUL \<notin> set name \<and> length name < 1024 \<and>
               subbuf (unat (sh_offset (elf_section A bs (unat (sh_link symtab)))) + unat (st_name symb)) (Suc (length name)) bs
                 = name @ [NUL]))"

context open_files
begin

lemma read_header:
  assumes "data w fd = Some bs" "headers_ok A bs"
  shows "\<exists>w'. ReadFromOffsetExact S fd (sizeof_Ehdr A) 0 w = Some (Some (subbuf 0 (sizeof_Ehdr A) bs), w') \<and> data w' = data w"
  using read_exact [OF assms(1), of 0 "sizeof_Ehdr A"] assms(2) by (simp add: headers_ok_def)

lemma FileGetElfType:
  assumes "data w fd = Some bs" "headers_ok A bs"
  shows "\<exists>w'. FileGetElfType S A fd w = Some (Some (e_type (elf_header A bs)), w') \<and> data w' = data w"
proof -
  from read_header [OF assms] obtain w1 where
    "ReadFromOffsetExact S fd (sizeof_Ehdr A) 0 w = Some (Some (subbuf 0 (sizeof_Ehdr A) bs), w1)" "data w1 = data w" by blast
  with assms(2) show ?thesis by (simp add: FileGetElfType_def headers_ok_def elf_header_def)
qed

lemma read_section:
  assumes "data w fd = Some bs" "headers_ok A bs" "i < unat (e_shnum (elf_header A bs))"
  shows "\<exists>got w'. ReadFromOffsetExact S fd (sizeof_Shdr A) (sint (e_shoff (elf_header A bs) + of_nat (i * sizeof_Shdr A))) w
      = Some (Some got, w') \<and> data w' = data w \<and> get_Shdr A got = elf_section A bs i"
proof -
  define p where "p = unat (e_shoff (elf_header A bs)) + i * sizeof_Shdr A"
  have "Suc i * sizeof_Shdr A \<le> unat (e_shnum (elf_header A bs)) * sizeof_Shdr A" using assms(3) by (intro mult_le_mono1) simp
  then have le: "p + sizeof_Shdr A \<le> length bs" "length bs < 2 ^ 63" using assms(2) by (simp_all add: headers_ok_def p_def)
  have pos: "sint (e_shoff (elf_header A bs) + of_nat (i * sizeof_Shdr A)) = int p"
    unfolding p_def by (rule offset_in_file) (use le in \<open>simp_all add: p_def\<close>)
  from read_exact [OF assms(1), of "int p" "sizeof_Shdr A"] le(1) obtain w1 where
    "ReadFromOffsetExact S fd (sizeof_Shdr A) (int p) w = Some (Some (subbuf p (sizeof_Shdr A) bs), w1)" "data w1 = data w" by auto
  moreover have "get_Shdr A (subbuf p (sizeof_Shdr A) bs) = elf_section A bs i"
    by (simp add: elf_section_def struct_at_def p_def)
  ultimately show ?thesis unfolding pos by blast
qed

lemma search_table_found:
  assumes "data w fd = Some bs" "headers_ok A bs" "elf_find_section A bs ty = Some symtab" "symtab_ok A bs symtab"
    "elf_symbol A bs symtab pc shift = Some symb" "NUL \<notin> set name" "length name < length out"
    "subbuf (unat (sh_offset (elf_section A bs (unat (sh_link symtab)))) + unat (st_name symb)) (Suc (length name)) bs = name @ [NUL]"
  shows "\<exists>out' w'. search_table S A fd pc out shift (elf_header A bs) ty w = Some (Ret (Some True), out', w') \<and> data w' = data w \<and>
    takeWhile (\<lambda>c. c \<noteq> NUL) out' = name"
proof -
  let ?eh = "elf_header A bs" and ?sz = "sizeof_Sym A" and ?t = "unat (sh_offset symtab)"
  let ?n = "unat (sh_size symtab) div ?sz" and ?there = "(length bs - unat (sh_offset symtab)) div sizeof_Sym A"
  have small: "length bs < 2 ^ 63" using assms(2) by (simp add: headers_ok_def)
  have "table_part (sizeof_Shdr A) bs (unat (e_shoff ?eh)) (unat (e_shnum ?eh)) (unat (e_shnum ?eh))"
    using assms(2) by (simp add: table_part_def headers_ok_def)
  from section_by_type [OF assms(1) small this, of 0 ty] assms(3) obtain w1 where
    w1: "GetSectionHeaderByType S A fd (e_shnum ?eh) (e_shoff ?eh) ty w = Some (Ret (Some symtab), w1)" "data w1 = data w"
    by (auto simp: GetSectionHeaderByType_def elf_find_section_def elf_section_def)
  have link: "unat (sh_link symtab) < unat (e_shnum ?eh)" using assms(4) by (simp add: symtab_ok_def Let_def)
  have ofs: "(ucast (sh_link symtab) * of_nat (sizeof_Shdr A) :: u64) = of_nat (unat (sh_link symtab) * sizeof_Shdr A)" by simp
  have d1: "data w1 fd = Some bs" using w1(2) assms(1) by simp
  from read_section [OF d1 assms(2) link] w1(2) obtain got w2 where
    w2: "ReadFromOffsetExact S fd (sizeof_Shdr A) (sint (e_shoff ?eh + ucast (sh_link symtab) * of_nat (sizeof_Shdr A))) w1
        = Some (Some got, w2)" "data w2 = data w" "get_Shdr A got = elf_section A bs (unat (sh_link symtab))"
    unfolding ofs by auto
  have ok: "0 < ?sz" "?sz < 2 ^ 64" "sh_entsize symtab = of_nat ?sz" "?t \<le> length bs" "?n < 2 ^ 31" "?n \<le> ?there"
    "(length bs - ?t) mod ?sz = 0 \<or> ?n + 31 \<le> ?there" using assms(4) by (simp_all add: symtab_ok_def Let_def)
  have part: "table_part ?sz bs ?t (?n + 31) ?there" by (rule table_part_rest [OF ok(1,4,7)])
  have "find (contains_pc pc shift) (map (struct_at ?sz (get_Sym A) bs ?t) [0..<min ?n ?there]) = Some symb"
    using assms(5) ok(6) by (simp add: elf_symbol_def min_def)
  from find_symbol [of w2, OF _ small ok(3) part ok(5) this] w2(2) assms(1) obtain w3 where w3: "data w3 = data w"
    "find_symbol S A pc fd out shift (get_Shdr A got) symtab (int ?n) 0 w2 = read_name S fd out (get_Shdr A got) symb w3" by force
  have ent: "unat (sh_entsize symtab) = ?sz" using ok(2,3) by (simp add: unsigned_of_nat take_bit_nat_eq_self)
  then have nz: "sh_entsize symtab \<noteq> 0" using ok(1) by auto
  have "uint (sh_size symtab div sh_entsize symtab) = int ?n" using ent by (simp add: uint_nat unat_div)
  then have num: "to_int32 (uint (sh_size symtab div sh_entsize symtab)) = int ?n" using ok(5) by (subst to_int32_id) simp_all
  from read_name_text [of w3, OF _ assms(6,7) small, of fd "get_Shdr A got" symb] w3(1) assms(1,8) w2(3) obtain out' w4 where
    "read_name S fd out (get_Shdr A got) symb w3 = Some (Ret True, out', w4)" "data w4 = data w" "takeWhile (\<lambda>c. c \<noteq> NUL) out' = name"
    by auto
  with w1 w2(1) w3(2) num nz show ?thesis by (simp add: search_table_def FindSymbol_def)
qed

lemma GetSymbolFromObjectFile_found:
  assumes "data w fd = Some bs" "names_pc A bs base pc name" "length out = 1024"
  shows "\<exists>out' w'. GetSymbolFromObjectFile S A fd pc out base w = Some (Ret True, out', w') \<and> data w' = data w \<and>
    takeWhile (\<lambda>c. c \<noteq> NUL) out' = name"
proof -
  have ok: "headers_ok A bs" using assms(2) by (simp add: names_pc_def)
  from assms(2) obtain symtab symb where T: "elf_find_section A bs SHT_SYMTAB = Some symtab" "symtab_ok A bs symtab"
    "elf_symbol A bs symtab pc (elf_shift A bs base) = Some symb" "NUL \<notin> set name" "length name < length out"
    "subbuf (unat (sh_offset (elf_section A bs (unat (sh_link symtab)))) + unat (st_name symb)) (Suc (length name)) bs = name @ [NUL]"
    using assms(3) by (auto simp: names_pc_def split: option.splits)
  from read_header [OF assms(1) ok] obtain w1 where w1:
    "ReadFromOffsetExact S fd (sizeof_Ehdr A) 0 w = Some (Some (subbuf 0 (sizeof_Ehdr A) bs), w1)" "data w1 = data w" by blast
  have d1: "data w1 fd = Some bs" using w1(2) assms(1) by simp
  from search_table_found [OF d1 ok T] obtain out' w2 where
    "search_table S A fd pc out (elf_shift A bs base) (elf_header A bs) SHT_SYMTAB w1 = Some (Ret (Some True), out', w2)"
    "data w2 = data w1" "takeWhile (\<lambda>c. c \<noteq> NUL) out' = name" by blast
  with w1 show ?thesis by (simp add: GetSymbolFromObjectFile_def Let_def elf_shift_def elf_header_def)
qed

end

section \<open>The lines of a stack\<close>

text \<open>
  The line of one address: \<open>Unknown\<close> where no mapped file can be opened, and the demangled
  name where the file is an object file with a symbol for the address.
\<close>

definition frame_line :: "elf_abi \<Rightarrow> (string \<Rightarrow> int \<times> string option) \<Rightarrow> (string \<Rightarrow> byte list option) \<Rightarrow> u64 \<Rightarrow> string \<Rightarrow> bool" where
  "frame_line A demangle named pc line \<longleftrightarrow>
     (case named ''/proc/self/maps'' of None \<Rightarrow> line = DEFAULT_STACK_PREFIX @ ''Unknown''
      | Some text \<Rightarrow> (\<forall>l \<in> set (complete_lines text). length l < 1024) \<and>
          (case code_map_of pc (complete_lines text) of None \<Rightarrow> line = DEFAULT_STACK_PREFIX @ ''Unknown''
           | Some (base, path) \<Rightarrow>
               (case named path of None \<Rightarrow> line = DEFAULT_STACK_PREFIX @ ''Unknown''
                | Some bs \<Rightarrow> \<exists>name s. names_pc A bs base pc name \<and> DemangleSymbol demangle name = Ret s \<and>
                    line = DEFAULT_STACK_PREFIX @ s)))"

context named_files
begin

lemma open_object_file_none:
  assumes "named ''/proc/self/maps'' = None"
  shows "\<exists>w'. OpenObjectFileContainingPcAndGetStartAddress S junk pc w = Some (Ret None, w') \<and> data w' = data w"
  using open_named [of "''/proc/self/maps''" w] assms by (auto simp: OpenObjectFileContainingPcAndGetStartAddress_def)

lemma symbol_of_object:
  assumes "data w fd = Some bs" "names_pc A bs base pc name" "DemangleSymbol demangle name = Ret s"
  shows "\<exists>w'. symbol_of_object S A demangle pc fd base w = Some (Ret (DEFAULT_STACK_PREFIX @ s), w') \<and>
    data w' = (data w)(fd := None)"
proof -
  have ok: "headers_ok A bs" using assms(2) by (simp add: names_pc_def)
  from FileGetElfType [OF assms(1) ok] obtain w1 where
    w1: "FileGetElfType S A fd w = Some (Some (e_type (elf_header A bs)), w1)" "data w1 = data w" by blast
  have d1: "data w1 fd = Some bs" using w1(2) assms(1) by simp
  from GetSymbolFromObjectFile_found [OF d1 assms(2), of "replicate 1024 NUL"] obtain out w2 where
    w2: "GetSymbolFromObjectFile S A fd pc (replicate 1024 NUL) base w1 = Some (Ret True, out, w2)" "data w2 = data w1"
      "takeWhile (\<lambda>c. c \<noteq> NUL) out = name" by auto
  have "data w2 fd = Some bs" using w2(2) d1 by simp
  from close_open [OF this] obtain w3 where "close_fd S fd w2 = Some w3" "data w3 = (data w2)(fd := None)" by blast
  with w1 w2 assms(3) show ?thesis by (simp add: symbol_of_object_def)
qed

lemma SymbolizeAndDemangle_line:
  assumes "frame_line A demangle named pc line" "length junk = 1024"
  shows "\<exists>w'. SymbolizeAndDemangle S A demangle junk pc w = Some (Ret line, w') \<and> data w' = data w"
proof (cases "named ''/proc/self/maps''")
  case None
  with open_object_file_none [OF None, of junk pc w] assms(1) show ?thesis
    by (auto simp: SymbolizeAndDemangle_def frame_line_def)
next
  case (Some maps)
  with assms have short: "\<forall>l \<in> set (complete_lines maps). length l < length junk" "junk \<noteq> []"
    by (auto simp: frame_line_def)
  from open_object_file [OF Some short(2,1)] obtain res w1 where O:
    "OpenObjectFileContainingPcAndGetStartAddress S junk pc w = Some (Ret res, w1)"
    "object_opened (file_of_map (code_map_of pc (complete_lines maps))) res w w1" by blast
  show ?thesis
  proof (cases "file_of_map (code_map_of pc (complete_lines maps))")
    case None
    with O(2) have "res = None" "data w1 = data w" by (simp_all add: object_opened_def)
    moreover have "line = DEFAULT_STACK_PREFIX @ ''Unknown''"
      using None assms(1) Some by (auto simp: file_of_map_def frame_line_def split: option.splits bind_splits)
    ultimately show ?thesis using O(1) by (simp add: SymbolizeAndDemangle_def)
  next
    case f: (Some f)
    then obtain base path bs where code: "code_map_of pc (complete_lines maps) = Some (base, path)" "named path = Some bs" "f = (base, bs)"
      by (auto simp: file_of_map_def split: bind_splits)
    with O(2) f obtain fd where fd: "res = Some (fd, base)" "data w fd = None" "data w1 = (data w)(fd := Some bs)"
      by (auto simp: object_opened_def)
    from assms(1) Some code obtain name s where n: "names_pc A bs base pc name" "DemangleSymbol demangle name = Ret s"
      "line = DEFAULT_STACK_PREFIX @ s" by (auto simp: frame_line_def)
    have "data w1 fd = Some bs" using fd(3) by simp
    from symbol_of_object [OF this n(1,2)] obtain w2 where
      "symbol_of_object S A demangle pc fd base w1 = Some (Ret (DEFAULT_STACK_PREFIX @ s), w2)" "data w2 = (data w1)(fd := None)" by blast
    with O(1) fd n(3) show ?thesis by (auto simp: SymbolizeAndDemangle_def fun_upd_idem)
  qed
qed

lemma print_frames_lines:
  "list_all2 (frame_line A demangle named) pcs lines \<Longrightarrow> length junk = 1024 \<Longrightarrow>
   \<exists>w'. print_frames S A demangle junk pcs w = Some (Ret (concat (map (\<lambda>l. l @ [LF]) lines)), w') \<and> data w' = data w"
proof (induction arbitrary: w rule: list_all2_induct)
  case (Cons pc pcs line lines)
  from SymbolizeAndDemangle_line [OF Cons(1) Cons(4)] obtain w1 where
    w1: "SymbolizeAndDemangle S A demangle junk pc w = Some (Ret line, w1)" "data w1 = data w" by blast
  from Cons(3) [OF Cons(4), of w1] obtain w2 where
    "print_frames S A demangle junk pcs w1 = Some (Ret (concat (map (\<lambda>l. l @ [LF]) lines)), w2)" "data w2 = data w1" by blast
  with w1 show ?case by simp
qed simp

end

section \<open>The 64-bit little-endian layout, and an object file in it\<close>

definition le_nat :: "byte list \<Rightarrow> nat" where
  "le_nat bs = foldr (\<lambda>c v. ord c + 256 * v) bs 0"

text \<open>The structures of \<open>elf.h\<close> on the platforms of the build.\<close>

definition elf64 :: elf_abi where
  "elf64 =
     \<lparr>sizeof_Ehdr = 64, sizeof_Shdr = 64, sizeof_Sym = 24,
      get_Ehdr = (\<lambda>b. \<lparr>e_ident = take 16 b, e_type = of_nat (le_nat (subbuf 16 2 b)), e_shoff = of_nat (le_nat (subbuf 40 8 b)),
        e_shentsize = of_nat (le_nat (subbuf 58 2 b)), e_shnum = of_nat (le_nat (subbuf 60 2 b)),
        e_shstrndx = of_nat (le_nat (subbuf 62 2 b))\<rparr>),
      get_Shdr = (\<lambda>b. \<lparr>sh_name = of_nat (le_nat (subbuf 0 4 b)), sh_type = of_nat (le_nat (subbuf 4 4 b)),
        sh_offset = of_nat (le_nat (subbuf 24 8 b)), sh_size = of_nat (le_nat (subbuf 32 8 b)),
        sh_link = of_nat (le_nat (subbuf 40 4 b)), sh_entsize = of_nat (le_nat (subbuf 56 8 b))\<rparr>),
      get_Sym = (\<lambda>b. \<lparr>st_name = of_nat (le_nat (subbuf 0 4 b)), st_shndx = of_nat (le_nat (subbuf 6 2 b)),
        st_value = of_nat (le_nat (subbuf 8 8 b)), st_size = of_nat (le_nat (subbuf 16 8 b))\<rparr>)\<rparr>"

definition zeros :: "nat \<Rightarrow> byte list" where
  "zeros n = replicate n NUL"

text \<open>A header, two section headers, the string table, two symbols; \<open>main\<close> is at \<open>0x401000\<close>.\<close>

definition sample_elf :: "byte list" where
  "sample_elf =
     ELFMAG @ zeros 12 @ [CHR 0x02] @ zeros 23 @ [CHR 0x40] @ zeros 19 @ [CHR 0x02] @ zeros 3
     @ zeros 4 @ [CHR 0x02] @ zeros 19 @ [CHR 0xC8] @ zeros 7 @ [CHR 0x30] @ zeros 7 @ [CHR 0x01] @ zeros 15 @ [CHR 0x18] @ zeros 7
     @ zeros 24 @ [CHR 0xC0] @ zeros 39
     @ ''main'' @ zeros 4
     @ zeros 24
     @ zeros 6 @ [CHR 0x01, CHR 0x00, CHR 0x00, CHR 0x10, CHR 0x40] @ zeros 5 @ [CHR 0x20] @ zeros 7"

definition sample_files :: "(string \<times> byte list) list" where
  "sample_files =
     [(''/proc/self/maps'', ''3000-4000 r--p 0 0 0 /x'' @ [LF] @ ''400000-402000 r-xp 0 0 0 /bin/a'' @ [LF] @ ''[stack]''),
      (''/bin/a'', sample_elf)]"

lemma sample_parts:
  "elf_header elf64 sample_elf = \<lparr>e_ident = ELFMAG @ zeros 12, e_type = 2, e_shoff = 64, e_shentsize = 0, e_shnum = 2, e_shstrndx = 0\<rparr>"
  "elf_section elf64 sample_elf 0 = \<lparr>sh_name = 0, sh_type = 2, sh_offset = 200, sh_size = 48, sh_link = 1, sh_entsize = 24\<rparr>"
  "elf_section elf64 sample_elf (Suc 0) = \<lparr>sh_name = 0, sh_type = 0, sh_offset = 192, sh_size = 0, sh_link = 0, sh_entsize = 0\<rparr>"
  "struct_at 24 (get_Sym elf64) sample_elf 200 0 = \<lparr>st_name = 0, st_shndx = 0, st_value = 0, st_size = 0\<rparr>"
  "struct_at 24 (get_Sym elf64) sample_elf 200 (Suc 0) = \<lparr>st_name = 0, st_shndx = 1, st_value = 0x401000, st_size = 0x20\<rparr>"
  "subbuf 192 (Suc (Suc (Suc (Suc (Suc 0))))) sample_elf = ''main'' @ [NUL]"
  by code_simp+

lemma sample_sizes: "length sample_elf = 248" "sizeof_Sym elf64 = 24"
  by (simp_all add: sample_elf_def zeros_def ELFMAG_def elf64_def)

lemma sample_ok:
  "headers_ok elf64 sample_elf"
  "elf_find_section elf64 sample_elf SHT_SYMTAB = Some (elf_section elf64 sample_elf 0)"
  "symtab_ok elf64 sample_elf (elf_section elf64 sample_elf 0)"
  "elf_symbol elf64 sample_elf (elf_section elf64 sample_elf 0) 0x401010 (elf_shift elf64 sample_elf 0x400000) =
     Some (struct_at 24 (get_Sym elf64) sample_elf 200 (Suc 0))"
proof -
  show "headers_ok elf64 sample_elf" by code_simp
  show "elf_find_section elf64 sample_elf SHT_SYMTAB = Some (elf_section elf64 sample_elf 0)"
    by (simp add: elf_find_section_def sample_parts upt_rec SHT_SYMTAB_def)
  show "symtab_ok elf64 sample_elf (elf_section elf64 sample_elf 0)"
    by (simp add: symtab_ok_def sample_parts sample_sizes)
  show "elf_symbol elf64 sample_elf (elf_section elf64 sample_elf 0) 0x401010 (elf_shift elf64 sample_elf 0x400000) =
     Some (struct_at 24 (get_Sym elf64) sample_elf 200 (Suc 0))"
    by (simp add: elf_symbol_def sample_parts sample_sizes upt_rec elf_shift_def ET_DYN_def contains_pc_def Let_def)
qed

lemma sample_names: "names_pc elf64 sample_elf 0x400000 0x401010 ''main''"
  by (simp add: names_pc_def sample_ok) (simp add: sample_parts)

lemma sample_frame:
  "frame_line elf64 (\<lambda>s. (-2, None)) (map_of sample_files) 0x401010 (DEFAULT_STACK_PREFIX @ ''main'')"
proof -
  have "case map_of sample_files ''/proc/self/maps'' of None \<Rightarrow> False | Some maps \<Rightarrow>
    list_all (\<lambda>l. length l < 1024) (complete_lines maps) \<and>
    (case code_map_of 0x401010 (complete_lines maps) of None \<Rightarrow> False | Some (base, path) \<Rightarrow>
      base = 0x400000 \<and> path = ''/bin/a'')" by code_simp
  moreover have "map_of sample_files ''/bin/a'' = Some sample_elf" by (simp add: sample_files_def)
  ultimately show ?thesis using sample_names unfolding frame_line_def
    by (auto simp: DemangleSymbol_def list_all_iff split: option.splits intro!: exI [of _ "''main''"])
qed

section \<open>Properties\<close>



text \<open>
  C26. If the section header table is cut short by the end of the file after whole entries,
  none of them of the type looked for, \<open>GetSectionHeaderByType\<close> never returns: its last batch
  is empty and the index stays where it is.
\<close>

theorem truncated_table_never_ends:
  assumes "dk_data w fd = Some bs" "length bs < 2 ^ 63"
    "table_part (sizeof_Shdr A) bs (unat table) (unat sh_num) avail" "avail < unat sh_num"
    "\<forall>i < avail. sh_type (struct_at (sizeof_Shdr A) (get_Shdr A) bs (unat table) i) \<noteq> ty"
  shows "GetSectionHeaderByType (disk_sys files) A fd sh_num table ty w = None"
proof (rule ccontr)
  assume "GetSectionHeaderByType (disk_sys files) A fd sh_num table ty w \<noteq> None"
  then obtain y where y: "section_by_type (disk_sys files) A fd (unat sh_num) table ty 0 w = Some y"
    by (auto simp: GetSectionHeaderByType_def)
  have "find (\<lambda>h. sh_type h = ty) (map (struct_at (sizeof_Shdr A) (get_Shdr A) bs (unat table)) [0..<avail]) = None"
    using assms(5) by (auto simp: find_None_iff)
  from disk_files.section_by_type_diverges [OF y refl assms(1,2,3,4) le0 this] show False .
qed

lemma truncated_table_never_ends_witness:
  "GetSectionHeaderByType (disk_sys []) elf64 0 2 0 SHT_SYMTAB \<lparr>dk_open = [Some (zeros 64, 0)], dk_sched = []\<rparr> = None"
proof (rule truncated_table_never_ends [of _ _ "zeros 64" _ _ _ 1])
  show "\<forall>i<1. sh_type (struct_at (sizeof_Shdr elf64) (get_Shdr elf64) (zeros 64) (unat (0 :: u64)) i) \<noteq> SHT_SYMTAB"
    by simp code_simp
qed (simp_all add: dk_data_def dk_file_def table_part_def elf64_def zeros_def)

end
