(* ===== verification/QS_Exception_Text.thy ===== *)
theory QS_Exception_Text
  imports QS_Stack_Facts
begin

text \<open>
  The exceptions of \<open>QS_Exceptions\<close> with the text they carry for the log: file, line and stack
  (\<open>src/Exception.cpp\<close>), how \<open>THROW\<close> and \<open>NESTED_THROW\<close> build them and how the detail of a
  chain is written (\<open>src/ExceptionInternal.h\<close>, \<open>src/ExceptionInternal.cpp\<close>).
\<close>

section \<open>The path of a source file\<close>

text \<open>The loop of \<open>SkipPathPrefix\<close>, down from the index \<open>i\<close>.\<close>

fun last_separator :: "string \<Rightarrow> nat \<Rightarrow> nat" where
  "last_separator path 0 = 0"
| "last_separator path (Suc i) = (if path ! Suc i = CHR ''/'' then Suc i else last_separator path i)"

text \<open>Its assertion fails on an empty path and where the loop ends at index 0.\<close>

definition SkipPathPrefix :: "string \<Rightarrow> string outcome" where
  "SkipPathPrefix path =
     (if path = [] then Undefined
      else let i = last_separator path (length path - 1) in if 0 < i then Ret (drop (Suc i) path) else Undefined)"

section \<open>Exceptions with their text\<close>

text \<open>\<open>th_detail\<close> is the member \<open>detail\<close> of \<open>QingStorException\<close>; other classes have none.\<close>

datatype thrown = Thrown (th_class: exn_class) (th_what: string) (th_detail: "string option") (th_nested: "thrown option")

primrec plain :: "thrown \<Rightarrow> exn" where
  "plain (Thrown c w d n) = Exn c w (map_option plain n)"

primrec with_text :: "exn \<Rightarrow> thrown" where
  "with_text (Exn c w n) = Thrown c w None (map_option with_text n)"

text \<open>The constructor of \<open>QingStorException\<close>.\<close>

definition exception_detail :: "string \<Rightarrow> string \<Rightarrow> int \<Rightarrow> string \<Rightarrow> string" where
  "exception_detail arg file line stack = file @ '': '' @ show_int line @ '': '' @ arg @ [LF] @ stack"

definition STACK_DEPTH :: nat where "STACK_DEPTH = 64"

text \<open>
  \<open>ThrowException\<close>: the exception that leaves it. \<open>fmt_text\<close> is the formatted message, which the
  constructor takes up to its first NUL; \<open>current\<close> is the exception being handled, nested when
  \<open>nst\<close>. Symbolising the stack may throw instead, run into a failed assertion, or never end.
\<close>

definition ThrowException :: "'w sys \<Rightarrow> elf_abi \<Rightarrow> (string \<Rightarrow> int \<times> string option) \<Rightarrow> byte list \<Rightarrow> (nat \<Rightarrow> u64 list) \<Rightarrow>
    thrown option \<Rightarrow> bool \<Rightarrow> string \<Rightarrow> int \<Rightarrow> exn_class \<Rightarrow> string \<Rightarrow> 'w \<Rightarrow> (thrown outcome \<times> 'w) option" where
  "ThrowException S A demangle junk backtrace current nst f l c fmt_text w =
     (case SkipPathPrefix f of
        Ret file \<Rightarrow> map_option (\<lambda>(r, w').
          (case r of
             Ret stack \<Rightarrow> (let arg = takeWhile (\<lambda>c. c \<noteq> NUL) (class_name c @ '': '' @ fmt_text)
                in Ret (Thrown c arg (Some (exception_detail arg file l stack)) (if nst then current else None)))
           | Throw e \<Rightarrow> Ret (with_text e)
           | Undefined \<Rightarrow> Undefined, w'))
          (PrintStack S A demangle junk backtrace 1 STACK_DEPTH w)
      | _ \<Rightarrow> Some (Undefined, w))"

text \<open>\<open>GetExceptionDetailInternal\<close>: \<open>msg()\<close> of a library exception, \<open>what()\<close> of another, and the chain.\<close>

fun detail_from :: "bool \<Rightarrow> thrown \<Rightarrow> string" where
  "detail_from topLevel (Thrown c w d n) =
     (if topLevel then [] else ''Caused by'' @ [LF])
     @ (case d of Some t \<Rightarrow> takeWhile (\<lambda>c. c \<noteq> NUL) t | None \<Rightarrow> takeWhile (\<lambda>c. c \<noteq> NUL) w)
     @ (case n of None \<Rightarrow> [] | Some e \<Rightarrow> detail_from False e)"

definition GetExceptionDetail :: "thrown \<Rightarrow> string" where
  "GetExceptionDetail e = detail_from True e"

text \<open>
  \<open>CheckOperationCanceled\<close>: the callback, where one is set, decides.
\<close>

definition CheckOperationCanceled :: "('w \<Rightarrow> bool \<times> 'w) option \<Rightarrow> 'w \<Rightarrow> bool outcome \<times> 'w" where
  "CheckOperationCanceled callback w =
     (case callback of None \<Rightarrow> (Ret False, w)
      | Some f \<Rightarrow> (case f w of (canceled, w') \<Rightarrow>
          (if canceled then THROW QingStorCanceled ''Operation has been canceled by the user.'' else Ret False, w')))"

section \<open>Facts\<close>

lemma last_separator_spec:
  assumes "i < length path"
  shows "(last_separator path i = 0 \<and> (\<forall>j. 0 < j \<and> j \<le> i \<longrightarrow> path ! j \<noteq> CHR ''/'')) \<or>
    (0 < last_separator path i \<and> last_separator path i \<le> i \<and> path ! last_separator path i = CHR ''/'' \<and>
      (\<forall>j. last_separator path i < j \<and> j \<le> i \<longrightarrow> path ! j \<noteq> CHR ''/''))"
  using assms
proof (induction i)
  case (Suc i)
  then show ?case by (cases "path ! Suc i = CHR ''/''") (auto simp: le_Suc_eq)
qed simp

lemma last_separator_append:
  assumes "dir \<noteq> []" "CHR ''/'' \<notin> set base"
  shows "last_separator (dir @ CHR ''/'' # base) (length dir + length base) = length dir"
proof -
  let ?p = "dir @ CHR ''/'' # base"
  have at: "?p ! length dir = CHR ''/''" by simp
  have after: "?p ! j \<noteq> CHR ''/''" if "length dir < j" "j \<le> length dir + length base" for j
  proof -
    from less_imp_Suc_add [OF that(1)] obtain n where n: "j = length dir + Suc n" by auto
    then have "?p ! j = base ! n" "n < length base" using that(2) by (simp_all add: nth_append)
    then show ?thesis using assms(2) nth_mem by metis
  qed
  have "length dir + length base < length ?p" by simp
  from last_separator_spec [OF this] show ?thesis
  proof
    assume "last_separator ?p (length dir + length base) = 0 \<and> (\<forall>j. 0 < j \<and> j \<le> length dir + length base \<longrightarrow> ?p ! j \<noteq> CHR ''/'')"
    with at assms(1) show ?thesis by auto
  next
    assume a: "0 < last_separator ?p (length dir + length base) \<and> last_separator ?p (length dir + length base) \<le> length dir + length base \<and>
      ?p ! last_separator ?p (length dir + length base) = CHR ''/'' \<and>
      (\<forall>j. last_separator ?p (length dir + length base) < j \<and> j \<le> length dir + length base \<longrightarrow> ?p ! j \<noteq> CHR ''/'')"
    with at after show ?thesis by (metis le_add1 linorder_neqE_nat)
  qed
qed

lemma SkipPathPrefix_file:
  "dir \<noteq> [] \<Longrightarrow> CHR ''/'' \<notin> set base \<Longrightarrow> SkipPathPrefix (dir @ CHR ''/'' # base) = Ret base"
  by (simp add: SkipPathPrefix_def last_separator_append)

lemma SkipPathPrefix_plain: "CHR ''/'' \<notin> set (tl path) \<Longrightarrow> SkipPathPrefix path = Undefined"
proof (cases path)
  case (Cons c cs)
  assume no: "CHR ''/'' \<notin> set (tl path)"
  have "last_separator (c # cs) i = 0" if "i \<le> length cs" for i
    using that no Cons by (induction i) (auto dest!: nth_mem simp: Suc_le_eq)
  with Cons show ?thesis by (simp add: SkipPathPrefix_def)
qed (simp add: SkipPathPrefix_def)

text \<open>
  C27. \<open>THROW\<close> in a source file compiled under a path with a directory throws the exception of
  its class with the message behind the class name, whose detail is the file name, the line,
  the message and the stack; \<open>NESTED_THROW\<close> adds the detail of the exception being handled
  behind \<open>Caused by\<close>. Compiled under a bare file name, both fail an assertion before
  anything is thrown.
\<close>

theorem thrown_text:
  fixes c :: exn_class
  assumes "dir \<noteq> []" "CHR ''/'' \<notin> set base" "PrintStack S A demangle junk backtrace 1 STACK_DEPTH w = Some (Ret stack, w')"
    "NUL \<notin> set (base @ msg @ stack)"
  shows "ThrowException S A demangle junk backtrace current nst base l c msg w = Some (Undefined, w) \<and>
    (\<exists>t. ThrowException S A demangle junk backtrace current nst (dir @ CHR ''/'' # base) l c msg w = Some (Ret t, w') \<and>
      (\<not> nst \<longrightarrow> plain t = mk_exn c msg) \<and>
      GetExceptionDetail t = base @ '': '' @ show_int l @ '': '' @ class_name c @ '': '' @ msg @ [LF] @ stack @
        (case current of Some e \<Rightarrow> if nst then ''Caused by'' @ [LF] @ GetExceptionDetail e else [] | None \<Rightarrow> []))"
proof -
  have tl: "CHR ''/'' \<notin> set (tl base)" using assms(2) by (cases base) auto
  have cn: "NUL \<notin> set (class_name c)" by (cases c) simp_all
  have sn: "NUL \<notin> set (show_nat n)" for n
  proof
    assume "NUL \<in> set (show_nat n)"
    then have "is_digit NUL" by (rule show_nat_digits)
    then show False by (simp add: is_digit_def)
  qed
  then have si: "NUL \<notin> set (show_int l)" by (simp add: show_int_def)
  have tw: "takeWhile (\<lambda>c. c \<noteq> NUL) xs = xs" if "NUL \<notin> set xs" for xs using that by (induction xs) auto
  have arg: "takeWhile (\<lambda>c. c \<noteq> NUL) (class_name c @ '': '' @ msg) = class_name c @ '': '' @ msg"
    using cn assms(4) by (intro tw) simp
  have dt: "NUL \<notin> set (exception_detail (class_name c @ '': '' @ msg) base l stack)"
    using cn si assms(4) by (simp add: exception_detail_def)
  have more: "detail_from False e = ''Caused by'' @ [LF] @ GetExceptionDetail e" for e
    by (cases e) (simp add: GetExceptionDetail_def)
  define a where "a = class_name c @ '': '' @ msg"
  define d where "d = exception_detail a base l stack"
  let ?t = "Thrown c a (Some d) (if nst then current else None)"
  have "ThrowException S A demangle junk backtrace current nst (dir @ CHR ''/'' # base) l c msg w = Some (Ret ?t, w')"
    unfolding ThrowException_def SkipPathPrefix_file [OF assms(1,2)] assms(3) arg Let_def a_def d_def by simp
  moreover have "ThrowException S A demangle junk backtrace current nst base l c msg w = Some (Undefined, w)"
    by (simp add: ThrowException_def SkipPathPrefix_plain [OF tl])
  moreover have "GetExceptionDetail ?t = d @
      (case current of Some e \<Rightarrow> if nst then ''Caused by'' @ [LF] @ GetExceptionDetail e else [] | None \<Rightarrow> [])"
  proof -
    have "NUL \<notin> set d" unfolding d_def a_def by (rule dt)
    from tw [OF this] more show ?thesis unfolding GetExceptionDetail_def by (simp split: option.split)
  qed
  moreover have "\<not> nst \<longrightarrow> plain ?t = mk_exn c msg" by (simp add: mk_exn_def a_def)
  ultimately show ?thesis by (simp only: d_def a_def exception_detail_def append_assoc) blast
qed

lemma thrown_text_witness:
  "\<exists>stack w' t. PrintStack (disk_sys sample_files) elf64 (\<lambda>s. (-2, None)) (zeros 1024) (\<lambda>n. take n [1, 2, 3, 0x401010]) 1 STACK_DEPTH
        \<lparr>dk_open = [], dk_sched = [None]\<rparr> = Some (Ret stack, w') \<and>
    ThrowException (disk_sys sample_files) elf64 (\<lambda>s. (-2, None)) (zeros 1024) (\<lambda>n. take n [1, 2, 3, 0x401010])
        None False ''/src/Context.cpp'' 57 InvalidParameter ''bucket'' \<lparr>dk_open = [], dk_sched = [None]\<rparr> = Some (Ret t, w') \<and>
    plain t = mk_exn InvalidParameter ''bucket'' \<and>
    GetExceptionDetail t = ''Context.cpp: 57: InvalidParameter: bucket'' @ [LF] @ DEFAULT_STACK_PREFIX @ ''main'' @ [LF]"
proof -
  let ?bt = "\<lambda>n. take n [1, 2, 3, 0x401010 :: u64]" and ?w = "\<lparr>dk_open = [], dk_sched = [None]\<rparr>"
  let ?stack = "DEFAULT_STACK_PREFIX @ ''main'' @ [LF]"
  have "GetStack ?bt (Suc 1) STACK_DEPTH = [0x401010]" by (simp add: GetStack_def STACK_DEPTH_def)
  then have "list_all2 (frame_line elf64 (\<lambda>s. (-2, None)) (map_of sample_files)) (GetStack ?bt (Suc 1) STACK_DEPTH)
      [DEFAULT_STACK_PREFIX @ ''main'']" using sample_frame by simp
  from disk_files.print_frames_lines [OF this, of "zeros 1024" ?w] obtain w' where
    P: "PrintStack (disk_sys sample_files) elf64 (\<lambda>s. (-2, None)) (zeros 1024) ?bt 1 STACK_DEPTH ?w = Some (Ret ?stack, w')"
    by (auto simp: PrintStack_def zeros_def)
  have "NUL \<notin> set (''Context.cpp'' @ ''bucket'' @ ?stack)" by (simp add: DEFAULT_STACK_PREFIX_def)
  from thrown_text [OF _ _ P this, of "''/src''" None False 57 InvalidParameter] obtain t where
    "ThrowException (disk_sys sample_files) elf64 (\<lambda>s. (-2, None)) (zeros 1024) ?bt None False ''/src/Context.cpp'' 57 InvalidParameter ''bucket'' ?w
      = Some (Ret t, w')" "plain t = mk_exn InvalidParameter ''bucket''"
    "GetExceptionDetail t = ''Context.cpp'' @ '': '' @ show_int 57 @ '': '' @ class_name InvalidParameter @ '': '' @ ''bucket'' @ [LF] @ ?stack"
    by auto
  moreover have "show_int 57 = ''57''" by code_simp
  ultimately show ?thesis using P by (intro exI conjI) simp_all
qed

end
