(* ===== verification/QS_Logging.thy ===== *)
theory QS_Logging
  imports QS_Exceptions
begin

text \<open>
  The logger (\<open>src/Logger.cpp\<close>, \<open>src/Logger.h\<close>): which messages are written and the line
  written for one; and the signal masks around the start of a thread (\<open>src/Thread.cpp\<close>,
  \<open>src/Thread.h\<close>).
\<close>

section \<open>Formats\<close>

text \<open>\<open>%0wd\<close>: at least \<open>w\<close> characters, zeros behind the sign.\<close>

definition zero_padded :: "nat \<Rightarrow> int \<Rightarrow> string" where
  "zero_padded w x =
     (if x < 0 then CHR ''-'' # replicate (w - 1 - length (show_nat (nat (- x)))) CHR ''0'' @ show_nat (nat (- x))
      else replicate (w - length (show_nat (nat x))) CHR ''0'' @ show_nat (nat x))"

text \<open>\<open>snprintf\<close> of a text into a block of \<open>n\<close> bytes: what the block then holds up to its NUL.\<close>

definition snprintf :: "nat \<Rightarrow> string \<Rightarrow> string" where
  "snprintf n s = take (n - 1) s"

section \<open>The logger\<close>

datatype LogSeverity = FATAL | LOG_ERROR | WARNING | INFO | DEBUG1 | DEBUG2 | DEBUG3

primrec severity_value :: "LogSeverity \<Rightarrow> nat" where
  "severity_value FATAL = 0"
| "severity_value LOG_ERROR = 1"
| "severity_value WARNING = 2"
| "severity_value INFO = 3"
| "severity_value DEBUG1 = 4"
| "severity_value DEBUG2 = 5"
| "severity_value DEBUG3 = 6"

lemma severity_value_inj: "severity_value s = severity_value t \<Longrightarrow> s = t"
  by (cases s; cases t) simp_all

text \<open>The severities are ordered as the enumeration is.\<close>

instantiation LogSeverity :: linorder
begin

definition less_eq_LogSeverity :: "LogSeverity \<Rightarrow> LogSeverity \<Rightarrow> bool" where
  "less_eq_LogSeverity s t \<longleftrightarrow> severity_value s \<le> severity_value t"

definition less_LogSeverity :: "LogSeverity \<Rightarrow> LogSeverity \<Rightarrow> bool" where
  "less_LogSeverity s t \<longleftrightarrow> severity_value s < severity_value t"

instance
proof
  fix s t :: LogSeverity
  assume "s \<le> t" "t \<le> s"
  then have "severity_value s = severity_value t" unfolding less_eq_LogSeverity_def by (rule le_antisym)
  then show "s = t" by (rule severity_value_inj)
qed (auto simp: less_eq_LogSeverity_def less_LogSeverity_def)

end

primrec SeverityName :: "LogSeverity \<Rightarrow> string" where
  "SeverityName FATAL = ''FATAL''"
| "SeverityName LOG_ERROR = ''ERROR''"
| "SeverityName WARNING = ''WARNING''"
| "SeverityName INFO = ''INFO''"
| "SeverityName DEBUG1 = ''DEBUG1''"
| "SeverityName DEBUG2 = ''DEBUG2''"
| "SeverityName DEBUG3 = ''DEBUG3''"

record Logger =
  lg_fd :: int
  lg_severity :: LogSeverity

definition STDERR_FILENO :: int where "STDERR_FILENO = 2"

definition new_Logger :: Logger where
  "new_Logger = \<lparr>lg_fd = STDERR_FILENO, lg_severity = INFO\<rparr>"

definition setOutputFd :: "int \<Rightarrow> Logger \<Rightarrow> Logger" where
  "setOutputFd f lg = lg\<lparr>lg_fd := f\<rparr>"

definition setLogSeverity :: "LogSeverity \<Rightarrow> Logger \<Rightarrow> Logger" where
  "setLogSeverity l lg = lg\<lparr>lg_severity := l\<rparr>"

text \<open>The fields of \<open>struct tm\<close> and \<open>struct timeval\<close> that are printed.\<close>

record tm =
  tm_year :: int
  tm_mon :: int
  tm_mday :: int
  tm_hour :: int
  tm_min :: int
  tm_sec :: int
  tv_usec :: int

text \<open>\<open>InitProcessId\<close>: the process and thread identifiers in a block of 64 bytes.\<close>

definition ProcessId :: "nat \<Rightarrow> nat \<Rightarrow> string" where
  "ProcessId pid self = snprintf 64 (''p'' @ show_nat pid @ '', th'' @ show_nat self)"

definition log_prefix :: "tm \<Rightarrow> string \<Rightarrow> LogSeverity \<Rightarrow> string" where
  "log_prefix t process s =
     zero_padded 4 (tm_year t + 1900) @ ''-'' @ zero_padded 2 (1 + tm_mon t) @ ''-'' @ zero_padded 2 (tm_mday t) @ '' ''
     @ zero_padded 2 (tm_hour t) @ '':'' @ zero_padded 2 (tm_min t) @ '':'' @ zero_padded 2 (tm_sec t) @ ''.''
     @ zero_padded 6 (tv_usec t) @ '', '' @ process @ '', '' @ SeverityName s @ '' ''"

text \<open>
  \<open>Logger::printf\<close>: the text written to the descriptor, if any. \<open>msg\<close> is the formatted message. A
  prefix longer than the whole buffer would write behind it.
\<close>

definition log_printf :: "Logger \<Rightarrow> tm \<Rightarrow> string \<Rightarrow> LogSeverity \<Rightarrow> string \<Rightarrow> (int \<times> string) option outcome" where
  "log_printf lg t process s msg =
     (if lg_severity lg < s \<or> lg_fd lg < 0 then Ret None
      else let n = length msg + 100; prefix = log_prefix t process s; size0 = length prefix in
        if n < size0 then Undefined
        else if n = size0 then Ret (Some (lg_fd lg, snprintf n prefix @ [LF]))
        else Ret (Some (lg_fd lg, prefix @ snprintf (n - size0) msg @ [LF])))"

section \<open>Signal masks\<close>

datatype signal = SIGHUP | SIGINT | SIGTERM | SIGUSR1 | SIGUSR2 | Other_signal nat

text \<open>\<open>ThreadBlockSignal\<close>: the old mask, and the mask of the thread afterwards.\<close>

definition ThreadBlockSignal :: "signal set \<Rightarrow> signal set \<times> signal set" where
  "ThreadBlockSignal blocked = (blocked, blocked \<union> {SIGHUP, SIGINT, SIGTERM, SIGUSR1, SIGUSR2})"

definition ThreadUnBlockSignal :: "signal set \<Rightarrow> signal set \<Rightarrow> signal set" where
  "ThreadUnBlockSignal sigs blocked = sigs"

text \<open>
  The macro \<open>CREATE_THREAD\<close>: \<open>start\<close> is the constructor of the thread, which inherits the mask it
  is called under.
\<close>

definition CREATE_THREAD :: "(signal set \<Rightarrow> 't outcome) \<Rightarrow> signal set \<Rightarrow> 't outcome \<times> signal set" where
  "CREATE_THREAD start blocked =
     (case ThreadBlockSignal blocked of (sigs, inner) \<Rightarrow>
        (case start inner of
           Ret t \<Rightarrow> (Ret t, ThreadUnBlockSignal sigs inner)
         | Throw e \<Rightarrow> (Throw e, ThreadUnBlockSignal sigs inner)
         | Undefined \<Rightarrow> (Undefined, inner)))"

lemma CREATE_THREAD_mask:
  "start (blocked \<union> {SIGHUP, SIGINT, SIGTERM, SIGUSR1, SIGUSR2}) \<noteq> Undefined \<Longrightarrow>
   CREATE_THREAD start blocked = (start (blocked \<union> {SIGHUP, SIGINT, SIGTERM, SIGUSR1, SIGUSR2}), blocked)"
  by (cases "start (blocked \<union> {SIGHUP, SIGINT, SIGTERM, SIGUSR1, SIGUSR2})")
    (simp_all add: CREATE_THREAD_def ThreadBlockSignal_def ThreadUnBlockSignal_def)

section \<open>The length of a line\<close>

lemma length_show_nat: "n < 10 ^ k \<Longrightarrow> 0 < k \<Longrightarrow> length (show_nat n) \<le> k"
proof (induction k arbitrary: n)
  case (Suc k)
  show ?case
  proof (cases "n < 10")
    case True
    then show ?thesis by (subst show_nat.simps) simp
  next
    case False
    have "n div 10 < 10 ^ k" using Suc.prems(1) by (simp add: less_mult_imp_div_less mult.commute)
    moreover have "0 < k" using False Suc.prems(1) by (cases k) simp_all
    ultimately show ?thesis using Suc.IH [of "n div 10"] False by (subst show_nat.simps) simp
  qed
qed simp

lemma length_zero_padded: "0 \<le> x \<Longrightarrow> nat x < 10 ^ k \<Longrightarrow> 0 < k \<Longrightarrow> w \<le> k \<Longrightarrow> length (zero_padded w x) \<le> k"
  using length_show_nat [of "nat x" k] by (simp add: zero_padded_def)

lemma length_zero_padded_neg:
  "nat (- x) < 10 ^ k \<Longrightarrow> nat x < 10 ^ k \<Longrightarrow> 0 < k \<Longrightarrow> w \<le> k \<Longrightarrow> length (zero_padded w x) \<le> Suc k"
  using length_show_nat [of "nat x" k] length_show_nat [of "nat (- x)" k] by (auto simp: zero_padded_def)

lemma length_SeverityName: "length (SeverityName s) \<le> 7"
  by (cases s) simp_all

text \<open>The fields of a broken-down time: the year fits an \<open>int\<close>, the others have two digits, the microseconds six.\<close>

definition tm_ok :: "tm \<Rightarrow> bool" where
  "tm_ok t \<longleftrightarrow> - (2 ^ 31) \<le> tm_year t \<and> tm_year t + 1900 < 2 ^ 31 \<and> 0 \<le> tm_mon t \<and> tm_mon t < 12 \<and>
     1 \<le> tm_mday t \<and> tm_mday t \<le> 31 \<and> 0 \<le> tm_hour t \<and> tm_hour t < 24 \<and> 0 \<le> tm_min t \<and> tm_min t < 60 \<and>
     0 \<le> tm_sec t \<and> tm_sec t \<le> 60 \<and> 0 \<le> tv_usec t \<and> tv_usec t < 1000000"

lemma length_log_prefix:
  assumes "tm_ok t" "pid < 2 ^ 31" "self < 2 ^ 64"
  shows "length (log_prefix t (ProcessId pid self) s) \<le> 80"
proof -
  have "length (zero_padded 4 (tm_year t + 1900)) \<le> Suc 10"
    by (rule length_zero_padded_neg) (use assms(1) in \<open>auto simp: tm_ok_def nat_less_iff\<close>)
  moreover have "length (zero_padded 2 (1 + tm_mon t)) \<le> 2" "length (zero_padded 2 (tm_mday t)) \<le> 2"
    "length (zero_padded 2 (tm_hour t)) \<le> 2" "length (zero_padded 2 (tm_min t)) \<le> 2" "length (zero_padded 2 (tm_sec t)) \<le> 2"
    using assms(1) by (auto simp: tm_ok_def nat_less_iff intro!: length_zero_padded)
  moreover have "length (zero_padded 6 (tv_usec t)) \<le> 6"
    using assms(1) by (auto simp: tm_ok_def nat_less_iff intro!: length_zero_padded)
  moreover have "length (show_nat pid) \<le> 10" by (rule length_show_nat) (use assms(2) in simp_all)
  moreover have "length (show_nat self) \<le> 20" by (rule length_show_nat) (use assms(3) in simp_all)
  moreover from calculation have "length (ProcessId pid self) \<le> 35" by (simp add: ProcessId_def snprintf_def)
  ultimately show ?thesis using length_SeverityName [of s] by (simp add: log_prefix_def)
qed

text \<open>
  The 100 bytes the logger adds for the prefix are enough: for every time, process and
  thread, a message whose severity is not above the logger's is written completely, behind
  the prefix and with a newline, and any other message is not written at all.
\<close>

theorem log_line_complete:
  assumes "tm_ok t" "pid < 2 ^ 31" "self < 2 ^ 64"
  shows "log_printf lg t (ProcessId pid self) s msg =
    Ret (if s \<le> lg_severity lg \<and> 0 \<le> lg_fd lg
         then Some (lg_fd lg, log_prefix t (ProcessId pid self) s @ msg @ [LF]) else None)"
proof -
  have "length (log_prefix t (ProcessId pid self) s) \<le> 80" by (rule length_log_prefix [OF assms])
  then show ?thesis by (auto simp: log_printf_def Let_def snprintf_def)
qed

lemma log_line_complete_witness:
  "log_printf new_Logger \<lparr>tm_year = 117, tm_mon = 4, tm_mday = 9, tm_hour = 23, tm_min = 5, tm_sec = 60, tv_usec = 42\<rparr>
      (ProcessId 7 140) WARNING ''slow'' =
    Ret (Some (2, ''2017-05-09 23:05:60.000042, p7, th140, WARNING slow'' @ [LF]))"
proof -
  let ?t = "\<lparr>tm_year = 117, tm_mon = 4, tm_mday = 9, tm_hour = 23, tm_min = 5, tm_sec = 60, tv_usec = 42\<rparr>"
  have "log_prefix ?t (ProcessId 7 140) WARNING = ''2017-05-09 23:05:60.000042, p7, th140, WARNING ''" by code_simp
  moreover have "WARNING \<le> INFO" by (simp add: less_eq_LogSeverity_def)
  ultimately show ?thesis using log_line_complete [of ?t 7 140 new_Logger WARNING "''slow''"]
    by (simp add: tm_ok_def new_Logger_def STDERR_FILENO_def)
qed

end
