(* ===== verification/QS_Encode.thy ===== *)
theory QS_Encode
  imports QS_Common
begin

text \<open>
  \<open>src/lib/encode.cpp\<close>: the two functions between \<open>Signature\<close> and OpenSSL, with the calls they make
  of it as parameters, and what they give the signature.
\<close>

section \<open>The functions\<close>

text \<open>
  The calls of OpenSSL: the context of a keyed digest, and a base64 filter over a memory
  \<open>BIO\<close>, whose flag is that of one line without newlines.
\<close>

record ('c, 'b) openssl =
  hm_init :: "byte list \<Rightarrow> 'c"
  hm_update :: "byte list \<Rightarrow> 'c \<Rightarrow> 'c"
  hm_final :: "'c \<Rightarrow> byte list"
  bio_new :: 'b
  bio_no_nl :: "'b \<Rightarrow> 'b"
  bio_write :: "byte list \<Rightarrow> 'b \<Rightarrow> 'b"
  bio_flush :: "'b \<Rightarrow> 'b"
  bio_mem :: "'b \<Rightarrow> byte list"

text \<open>The text of a C string in a block.\<close>

definition c_string :: "byte list \<Rightarrow> string" where
  "c_string s = takeWhile (\<lambda>c. c \<noteq> NUL) s"

text \<open>
  The block returned, with its terminator. \<open>malloc\<close> is not checked, and \<open>n\<close> bytes are read from
  \<open>buffer\<close>, whatever they are.
\<close>

definition Base64Encode :: "('c, 'b) openssl \<Rightarrow> byte list \<Rightarrow> nat \<Rightarrow> bool \<Rightarrow> byte list outcome" where
  "Base64Encode S buffer n malloc_ok =
     (if length buffer < n then Undefined
      else let ret = bio_mem S (bio_flush S (bio_write S (take n buffer) (bio_no_nl S (bio_new S)))) in
           if malloc_ok then Ret (ret @ [NUL]) else Undefined)"

text \<open>
  The block \<open>out\<close> afterwards. The digest goes into 32 bytes, all of which are copied: one of
  another length would leave some undetermined or write past them.
\<close>

definition sha256hmac :: "('c, 'b) openssl \<Rightarrow> string \<Rightarrow> byte list \<Rightarrow> string \<Rightarrow> byte list outcome" where
  "sha256hmac S str out sec =
     (let hash = hm_final S (hm_update S (c_string str) (hm_init S (c_string sec))) in
      if length hash \<noteq> 32 \<or> length out < 33 then Undefined
      else Ret (overwrite 0 (hash @ [NUL]) out))"

text \<open>\<open>signature.c_str()\<close> in \<open>Signature\<close>.\<close>

definition signature_text :: "('c, 'b) openssl \<Rightarrow> byte list \<Rightarrow> bool \<Rightarrow> string \<Rightarrow> string \<Rightarrow> string outcome" where
  "signature_text S tmpbuf malloc_ok sec sts =
     bind (sha256hmac S sts tmpbuf sec) (\<lambda>out.
     bind (Base64Encode S out 32 malloc_ok) (\<lambda>ret. Ret (c_string ret)))"

section \<open>What the signature is\<close>

text \<open>The documented behaviour of OpenSSL, for the functions \<open>hmac\<close> and \<open>base64\<close>.\<close>

definition openssl_ok :: "('c, 'b) openssl \<Rightarrow> (byte list \<Rightarrow> byte list \<Rightarrow> byte list) \<Rightarrow> (byte list \<Rightarrow> string) \<Rightarrow> bool" where
  "openssl_ok S hmac base64 \<longleftrightarrow>
     (\<forall>k m. hm_final S (hm_update S m (hm_init S k)) = hmac k m \<and> length (hmac k m) = 32) \<and>
     (\<forall>d. bio_mem S (bio_flush S (bio_write S d (bio_no_nl S (bio_new S)))) = base64 d \<and> NUL \<notin> set (base64 d))"

lemma c_string_terminated: "NUL \<notin> set t \<Longrightarrow> c_string (t @ [NUL]) = t"
  by (induction t) (auto simp: c_string_def)

lemma sha256hmac_digest:
  assumes "openssl_ok S hmac base64" and "33 \<le> length out"
  shows "\<exists>out'. sha256hmac S str out sec = Ret out' \<and> take 32 out' = hmac (c_string sec) (c_string str) \<and>
    length out' = length out"
proof -
  let ?h = "hmac (c_string sec) (c_string str)"
  have h: "hm_final S (hm_update S (c_string str) (hm_init S (c_string sec))) = ?h" "length ?h = 32"
    using assms(1) by (simp_all add: openssl_ok_def)
  with assms(2) show ?thesis by (simp add: sha256hmac_def overwrite_def)
qed

text \<open>
  The signature is the base64 text of the whole digest, zero bytes included, and what \<open>Signature\<close>
  puts behind the key in its last header is this text.
\<close>

theorem signature_complete:
  assumes "openssl_ok S hmac base64" and "33 \<le> length tmpbuf"
  shows "signature_text S tmpbuf True (secret cred) sts = Ret (base64 (hmac (c_string (secret cred)) (c_string sts))) \<and>
    (signature_text S tmpbuf True (secret cred) sts = Ret t \<longrightarrow>
      authorization_value (\<lambda>k m. hmac (c_string k) (c_string m)) base64 cred sts = ''QS-HMAC-SHA256 '' @ keyid cred @ '':'' @ t)"
proof -
  obtain out' where o: "sha256hmac S sts tmpbuf (secret cred) = Ret out'"
    "take 32 out' = hmac (c_string (secret cred)) (c_string sts)" "length out' = length tmpbuf"
    using sha256hmac_digest [OF assms] by blast
  have "NUL \<notin> set (base64 d)" "bio_mem S (bio_flush S (bio_write S d (bio_no_nl S (bio_new S)))) = base64 d" for d
    using assms(1) by (simp_all add: openssl_ok_def)
  then have "signature_text S tmpbuf True (secret cred) sts = Ret (base64 (hmac (c_string (secret cred)) (c_string sts)))"
    using o assms(2) by (simp add: signature_text_def Base64Encode_def Let_def c_string_terminated)
  then show ?thesis by (auto simp: authorization_value_def)
qed

end
