(* ===== verification/QS_Clients.thy ===== *)
theory QS_Clients
  imports QS_Api
begin

text \<open>
  The client programs of \<open>dist\<close>: \<open>read.c\<close> downloads objects, \<open>write.c\<close> uploads them, \<open>hello.c\<close>
  tries every function of the interface. They are run over the model of that interface.
\<close>

section \<open>Programs\<close>

text \<open>
  A process: the state of the library, the lines printed, and the contexts, objects and blocks
  it has obtained and not given back. A program may print, and \<open>None\<close> is one that never ends.
\<close>

record ('w, 'v) process =
  pc_api :: "('w, 'v) api"
  pc_out :: "string list"
  pc_contexts :: nat
  pc_objects :: nat
  pc_blocks :: nat

type_synonym ('a, 's) prog = "'s \<Rightarrow> ('a outcome \<times> 's) option"

definition skip :: "(unit, 's) prog" where
  "skip s = Some (Ret (), s)"

definition next_prog :: "('a, 's) prog \<Rightarrow> ('a \<Rightarrow> ('b, 's) prog) \<Rightarrow> ('b, 's) prog" where
  "next_prog m k s =
     Option.bind (m s) (\<lambda>(r, s'). case r of
       Ret x \<Rightarrow> k x s' | Throw e \<Rightarrow> Some (Throw e, s') | Undefined \<Rightarrow> Some (Undefined, s'))"

text \<open>\<open>for (i = 0; i < n; i++)\<close> with a body that does not look at \<open>i\<close>.\<close>

primrec repeat :: "nat \<Rightarrow> (unit, 's) prog \<Rightarrow> (unit, 's) prog" where
  "repeat 0 m = skip"
| "repeat (Suc n) m = next_prog m (\<lambda>_. repeat n m)"

definition printf :: "string \<Rightarrow> (unit, ('w, 'v) process) prog" where
  "printf t pr = Some (Ret (), pr\<lparr>pc_out := pc_out pr @ [t]\<rparr>)"

definition in_api :: "('a, ('w, 'v) api) prog \<Rightarrow> ('a, ('w, 'v) process) prog" where
  "in_api m pr = map_option (\<lambda>(r, s). (r, pr\<lparr>pc_api := s\<rparr>)) (m (pc_api pr))"

definition api_call :: "('a, ('w, 'v) api) call \<Rightarrow> ('a, ('w, 'v) process) prog" where
  "api_call m = in_api (\<lambda>s. Some (m s))"

definition last_error :: "string \<Rightarrow> (unit, ('w, 'v) process) prog" where
  "last_error t pr = printf (t @ qingstorGetLastError (pc_api pr)) pr"

text \<open>A program with variables of its own: the handle of an object and a buffer.\<close>

definition with_locals :: "'l \<Rightarrow> (unit, 'l \<times> ('w, 'v) process) prog \<Rightarrow> ('l, ('w, 'v) process) prog" where
  "with_locals l m pr =
     map_option (\<lambda>(r, l', pr'). (case r of Ret _ \<Rightarrow> Ret l' | Throw e \<Rightarrow> Throw e | Undefined \<Rightarrow> Undefined, pr')) (m (l, pr))"

section \<open>Obtaining and giving back\<close>

definition access_key_id :: string where "access_key_id = ''CNQHLNCMKNSMQXMMTGVL''"
definition secret_access_key :: string where "secret_access_key = ''RV9HRXHLpcBQe5cSqwZN7i2OBYpmvEO1wXpRugx7''"
definition client_location :: string where "client_location = ''pek3a''"

definition open_context :: "('j, 'w, 'v) libs \<Rightarrow> string \<Rightarrow> string \<Rightarrow> int \<Rightarrow> (Configuration option, ('w, 'v) process) prog" where
  "open_context E k c sz =
     next_prog (api_call (qingstorInitContext E (Some client_location) (Some k) (Some c) sz)) (\<lambda>ctx pr.
       Some (Ret ctx, pr\<lparr>pc_contexts := pc_contexts pr + (if ctx = None then 0 else 1)\<rparr>))"

definition close_context :: "Configuration option \<Rightarrow> (unit, ('w, 'v) process) prog" where
  "close_context ctx =
     next_prog (api_call (qingstorDestroyContext ctx)) (\<lambda>_ pr.
       Some (Ret (), pr\<lparr>pc_contexts := pc_contexts pr - (if ctx = None then 0 else 1)\<rparr>))"

definition opened :: "(object_wrapper option, ('w, 'v) api) prog \<Rightarrow> (object_wrapper option, ('w, 'v) process) prog" where
  "opened m =
     next_prog (in_api m) (\<lambda>obj pr. Some (Ret obj, pr\<lparr>pc_objects := pc_objects pr + (if obj = None then 0 else 1)\<rparr>))"

text \<open>The value \<open>qingstorCloseObject\<close> returns is not looked at.\<close>

definition close_handle :: "('j, 'w, 'v) libs \<Rightarrow> object_wrapper option \<Rightarrow> (unit, ('w, 'v) process) prog" where
  "close_handle E obj =
     next_prog (api_call (qingstorCloseObject E obj)) (\<lambda>_ pr.
       Some (Ret (), pr\<lparr>pc_objects := pc_objects pr - (if obj = None then 0 else 1)\<rparr>))"

text \<open>
  \<open>malloc\<close>, whose result is not checked, and \<open>free\<close>. The bytes a fresh block holds are not
  determined: they are the argument \<open>fresh\<close>.
\<close>

definition fresh_block :: "byte list \<Rightarrow> nat \<Rightarrow> byte list" where
  "fresh_block fresh n = take n (fresh @ replicate n NUL)"

definition malloc_buffer :: "byte list \<Rightarrow> nat \<Rightarrow> (byte list option, ('w, 'v) process) prog" where
  "malloc_buffer fresh n =
     next_prog (api_call malloc_block) (\<lambda>ok pr.
       Some (Ret (if ok then Some (fresh_block fresh n) else None),
             pr\<lparr>pc_blocks := pc_blocks pr + (if ok then 1 else 0)\<rparr>))"

definition free_buffer :: "byte list option \<Rightarrow> (unit, ('w, 'v) process) prog" where
  "free_buffer buf pr = Some (Ret (), pr\<lparr>pc_blocks := pc_blocks pr - (if buf = None then 0 else 1)\<rparr>)"

section \<open>\<open>read.c\<close>\<close>

definition read_qingstor_buffer_size :: int where "read_qingstor_buffer_size = 4 * 2 ^ 20"
definition read_buffer_size :: int where "read_buffer_size = 8 * 2 ^ 20"
definition file_length :: int where "file_length = 256 * 2 ^ 20"
definition file_nums :: nat where "file_nums = 16"

text \<open>\<open>tv.tv_sec * 1000 + tv.tv_usec / 1000\<close>.\<close>

definition getcurrenttime :: "int \<times> int \<Rightarrow> int" where
  "getcurrenttime tv = fst tv * 1000 + snd tv div 1000"

type_synonym ('w, 'v) reading_state = "(object_wrapper option \<times> byte list option) \<times> ('w, 'v) process"

text \<open>
  One call of \<open>qingstorRead(qsContext, object, buffer + off, n)\<close>: the bytes are stored behind
  \<open>off\<close>; bytes past the end of the block are undefined behaviour.
\<close>

definition read_into :: "('j, 'w, 'v) libs \<Rightarrow> Configuration option \<Rightarrow> nat \<Rightarrow> int \<Rightarrow> (int, ('w, 'v) reading_state) prog" where
  "read_into E ctx pos n s =
     (case s of ((obj, buf), pr) \<Rightarrow>
      map_option (\<lambda>(r, obj', s'). let pr' = pr\<lparr>pc_api := s'\<rparr> in
        case r of
          Ret (v, d) \<Rightarrow>
            if d = [] then (Ret v, (obj', buf), pr')
            else if length (the buf) < pos + length d then (Undefined, (obj', buf), pr')
            else (Ret v, (obj', Some (overwrite pos d (the buf))), pr')
        | Throw e \<Rightarrow> (Throw e, (obj', buf), pr')
        | Undefined \<Rightarrow> (Undefined, (obj', buf), pr'))
        (qingstorRead E ctx obj (buf \<noteq> None) n (pc_api pr)))"

text \<open>
  \<open>do { ... } while (read_bytes > 0 && bytesReadLeft > 0)\<close>: the loop that fills the buffer.
  \<open>off\<close> is negative only after a failed call, when the loop ends.
\<close>

partial_function (option) fill_loop :: "('j, 'w, 'v) libs \<Rightarrow> Configuration option \<Rightarrow> int \<Rightarrow> int \<Rightarrow> ('w, 'v) reading_state \<Rightarrow>
    (unit outcome \<times> ('w, 'v) reading_state) option" where
  "fill_loop E ctx left pos s =
     Option.bind (read_into E ctx (nat pos) left s) (\<lambda>(r, s').
       case r of
         Ret v \<Rightarrow> if v > 0 \<and> left - v > 0 then fill_loop E ctx (left - v) (pos + v) s' else Some (Ret (), s')
       | Throw e \<Rightarrow> Some (Throw e, s')
       | Undefined \<Rightarrow> Some (Undefined, s'))"

declare fill_loop.simps [code]

definition read_file :: "('j, 'w, 'v) libs \<Rightarrow> byte list \<Rightarrow> string \<Rightarrow> (unit, ('w, 'v) process) prog" where
  "read_file E fresh filename =
     next_prog (printf (''testGetObject '' @ filename @ ''.............'')) (\<lambda>_.
     next_prog (open_context E access_key_id secret_access_key read_qingstor_buffer_size) (\<lambda>ctx.
     next_prog (opened (qingstorGetObject E ctx (Some ''alluxio'') (Some filename) (-1) (-1))) (\<lambda>obj.
     next_prog
       (if obj \<noteq> None
        then next_prog (malloc_buffer fresh (nat read_buffer_size)) (\<lambda>buf.
             next_prog (with_locals (obj, buf) (repeat (nat (file_length div read_buffer_size)) (fill_loop E ctx read_buffer_size 0))) (\<lambda>(obj, buf).
             next_prog (close_handle E obj) (\<lambda>_.
             free_buffer buf)))
        else last_error ''qingstor get object failed with error message: '') (\<lambda>_.
     close_context ctx))))"

text \<open>\<open>sprintf(filename, "tmp/test_write_%d", i)\<close> into 50 bytes.\<close>

definition client_file :: "nat \<Rightarrow> string" where
  "client_file i = ''tmp/test_write_'' @ show_nat i"

fun each_file :: "(string \<Rightarrow> (unit, 's) prog) \<Rightarrow> nat list \<Rightarrow> (unit, 's) prog" where
  "each_file f [] = skip"
| "each_file f (i # is) = next_prog (f (client_file i)) (\<lambda>_. each_file f is)"

text \<open>
  \<open>main\<close>: \<open>clock\<close> gives the two times, \<open>report\<close> is the line printed for the elapsed time, whose
  throughput is a floating-point number.
\<close>

definition read_main :: "('j, 'w, 'v) libs \<Rightarrow> byte list \<Rightarrow> (int \<times> int) \<times> (int \<times> int) \<Rightarrow> (int \<Rightarrow> string) \<Rightarrow>
    (int, ('w, 'v) process) prog" where
  "read_main E fresh clock report =
     next_prog (each_file (read_file E fresh) [0..<file_nums]) (\<lambda>_.
     next_prog (printf (report (getcurrenttime (snd clock) - getcurrenttime (fst clock)))) (\<lambda>_ pr. Some (Ret 0, pr)))"

section \<open>\<open>write.c\<close>\<close>

definition write_qingstor_buffer_size :: int where "write_qingstor_buffer_size = 48 * 2 ^ 20"
definition write_buffer_size :: int where "write_buffer_size = 8 * 2 ^ 20"

text \<open>One call of \<open>qingstorWrite\<close> with the whole buffer.\<close>

definition write_from :: "('j, 'w, 'v) libs \<Rightarrow> Configuration option \<Rightarrow> byte list option \<Rightarrow> int \<Rightarrow>
    (int, object_wrapper option \<times> ('w, 'v) process) prog" where
  "write_from E ctx buf n s =
     (case s of (obj, pr) \<Rightarrow>
      map_option (\<lambda>(r, obj', s'). (r, obj', pr\<lparr>pc_api := s'\<rparr>)) (qingstorWrite E ctx obj buf n (pc_api pr)))"

text \<open>A step of a program on the process alone.\<close>

definition on_process :: "('a, ('w, 'v) process) prog \<Rightarrow> ('a, 'l \<times> ('w, 'v) process) prog" where
  "on_process m s = map_option (\<lambda>(r, pr). (r, fst s, pr)) (m (snd s))"

text \<open>
  The loop over the writes; the result says whether the function goes on: when a write fails it
  returns at once.
\<close>

primrec write_loop :: "('j, 'w, 'v) libs \<Rightarrow> Configuration option \<Rightarrow> byte list option \<Rightarrow> int \<Rightarrow> nat \<Rightarrow>
    (bool, object_wrapper option \<times> ('w, 'v) process) prog" where
  "write_loop E ctx buf sz 0 = (\<lambda>s. Some (Ret True, s))"
| "write_loop E ctx buf sz (Suc n) =
     next_prog (write_from E ctx buf sz) (\<lambda>v.
       if v \<noteq> sz
       then next_prog (on_process (last_error ''qingstor write failed with error message: '')) (\<lambda>_ s. Some (Ret False, s))
       else write_loop E ctx buf sz n)"

text \<open>The early return keeps the handle; otherwise it is closed.\<close>

definition write_all_of :: "('j, 'w, 'v) libs \<Rightarrow> Configuration option \<Rightarrow> object_wrapper option \<Rightarrow> byte list option \<Rightarrow> int \<Rightarrow> nat \<Rightarrow>
    (bool, ('w, 'v) process) prog" where
  "write_all_of E ctx obj buf sz n pr =
     Option.bind (write_loop E ctx buf sz n (obj, pr)) (\<lambda>(r, obj', pr').
       case r of
         Ret True \<Rightarrow> next_prog (close_handle E obj') (\<lambda>_ pr. Some (Ret True, pr)) pr'
       | Ret False \<Rightarrow> Some (Ret False, pr')
       | Throw e \<Rightarrow> Some (Throw e, pr')
       | Undefined \<Rightarrow> Some (Undefined, pr'))"

definition write_file :: "('j, 'w, 'v) libs \<Rightarrow> byte list \<Rightarrow> string \<Rightarrow> (unit, ('w, 'v) process) prog" where
  "write_file E fresh filename =
     next_prog (printf (''testPutObject '' @ filename @ ''.............'')) (\<lambda>_.
     next_prog (open_context E access_key_id secret_access_key write_qingstor_buffer_size) (\<lambda>ctx.
     next_prog (opened (\<lambda>s. Some (qingstorPutObject E ctx (Some ''alluxio'') (Some filename) True s))) (\<lambda>obj.
       if obj \<noteq> None
       then next_prog (malloc_buffer fresh (nat write_buffer_size)) (\<lambda>buf.
            next_prog (write_all_of E ctx obj buf write_buffer_size (nat (file_length div write_buffer_size))) (\<lambda>ok.
              if ok then next_prog (free_buffer buf) (\<lambda>_. close_context ctx) else skip))
       else next_prog (last_error ''qingstor put object failed with error message: '') (\<lambda>_. close_context ctx))))"

definition write_main :: "('j, 'w, 'v) libs \<Rightarrow> byte list \<Rightarrow> (int \<times> int) \<times> (int \<times> int) \<Rightarrow> (int \<Rightarrow> string) \<Rightarrow>
    (int, ('w, 'v) process) prog" where
  "write_main E fresh clock report =
     next_prog (each_file (write_file E fresh) [0..<file_nums]) (\<lambda>_.
     next_prog (printf (report (getcurrenttime (snd clock) - getcurrenttime (fst clock)))) (\<lambda>_ pr. Some (Ret 0, pr)))"

end
