(* ===== verification/QS_Hello.thy ===== *)
theory QS_Hello
  imports QS_Clients
begin

text \<open>
  \<open>dist/hello.c\<close>: one test program for every function of the interface. The handler it installs
  for \<open>SIGINT\<close> is not modelled.
\<close>

definition hello_key_id :: string where "hello_key_id = ''access_key_id''"
definition hello_secret :: string where "hello_secret = ''secret_access_key''"
definition hello_buffer_size :: int where "hello_buffer_size = 4 * 2 ^ 20"

text \<open>The title, a context, the test, and the end of the context.\<close>

definition hello_test :: "('j, 'w, 'v) libs \<Rightarrow> string \<Rightarrow> (Configuration option \<Rightarrow> (unit, ('w, 'v) process) prog) \<Rightarrow>
    (unit, ('w, 'v) process) prog" where
  "hello_test E title test =
     next_prog (printf title) (\<lambda>_.
     next_prog (open_context E hello_key_id hello_secret hello_buffer_size) (\<lambda>ctx.
     next_prog (test ctx) (\<lambda>_. close_context ctx)))"

definition stuck_prog :: "(unit, 's) prog" where
  "stuck_prog s = Some (Undefined, s)"

primrec print_lines :: "string list \<Rightarrow> (unit, ('w, 'v) process) prog" where
  "print_lines [] = skip"
| "print_lines (l # ls) = next_prog (printf l) (\<lambda>_. print_lines ls)"

section \<open>Listings\<close>

text \<open>
  \<open>%d\<close> for an unsigned and \<open>%u\<close> for a 64-bit argument print the 32 low bits, as the calling
  convention has it.
\<close>

definition low_bits :: "int \<Rightarrow> int" where
  "low_bits n = n mod 2 ^ 32"

definition listing_title :: "listing_result \<Rightarrow> string" where
  "listing_title r = ''name='' @ lr_name r @ '', prefix='' @ lr_prefix r @ '', limit='' @
     show_int (to_int32 (uint (lr_limit r))) @ '', nObjects='' @ show_int (lr_nObjects r)"

definition object_line :: "string \<times> int \<Rightarrow> string" where
  "object_line ob = ''key='' @ fst ob @ '', size='' @ show_int (low_bits (snd ob))"

text \<open>The result is used without a check: a null pointer is undefined behaviour.\<close>

definition print_listing :: "listing_result option \<Rightarrow> (unit, ('w, 'v) process) prog" where
  "print_listing result =
     (case result of None \<Rightarrow> stuck_prog
      | Some r \<Rightarrow> next_prog (printf (listing_title r)) (\<lambda>_.
          if lr_nObjects r > 0
          then (case lr_objects r of None \<Rightarrow> stuck_prog
                | Some obs \<Rightarrow> if length obs < nat (lr_nObjects r) then stuck_prog
                    else print_lines (map object_line (take (nat (lr_nObjects r)) obs)))
          else skip))"

definition testListObjects :: "('j, 'w, 'v) libs \<Rightarrow> (unit, ('w, 'v) process) prog" where
  "testListObjects E = hello_test E ''testListObjects......'' (\<lambda>ctx.
     next_prog (in_api (qingstorListObjects E ctx (Some ''hdw-hashdata-cn'') (Some ''tpch''))) print_listing)"

definition bucket_line :: "BucketInfo \<Rightarrow> string" where
  "bucket_line b = ''name='' @ bkt_name b @ '', location='' @ bkt_location b @ '', url='' @ bkt_url b @
     '', created='' @ bkt_created b"

definition testListBuckets :: "('j, 'w, 'v) libs \<Rightarrow> string \<Rightarrow> string option \<Rightarrow> (unit, ('w, 'v) process) prog" where
  "testListBuckets E title loc = hello_test E title (\<lambda>ctx.
     next_prog (api_call (qingstorListBuckets E ctx loc True)) (\<lambda>(buckets, count).
       let n = (case count of None \<Rightarrow> 0 | Some n \<Rightarrow> n) in
       if n > 0
       then (case buckets of None \<Rightarrow> stuck_prog
             | Some bs \<Rightarrow> if length bs < nat n then stuck_prog else print_lines (map bucket_line (take (nat n) bs)))
       else skip))"

definition testListBuckets_without_location :: "('j, 'w, 'v) libs \<Rightarrow> (unit, ('w, 'v) process) prog" where
  "testListBuckets_without_location E = testListBuckets E ''testListBuckets_without_location.......'' None"

definition testListBuckets_with_location :: "('j, 'w, 'v) libs \<Rightarrow> (unit, ('w, 'v) process) prog" where
  "testListBuckets_with_location E = testListBuckets E ''testListBuckets_with_location.......'' (Some ''sh1a'')"

section \<open>Attributes\<close>

definition head_line :: "HeadObjectResult \<Rightarrow> string" where
  "head_line h = ''content_type='' @ hor_content_type h @ '', content_length='' @ show_int (hor_content_length h) @
     '', last_modified='' @ hor_last_modified h @ '', etag='' @ hor_etag h"

definition testHeadObject :: "('j, 'w, 'v) libs \<Rightarrow> string \<Rightarrow> string \<Rightarrow> (unit, ('w, 'v) process) prog" where
  "testHeadObject E title key = hello_test E title (\<lambda>ctx.
     next_prog (api_call (qingstorHeadObject E ctx (Some ''hellobucket'') (Some key))) (\<lambda>result.
       case result of Some h \<Rightarrow> printf (head_line h) | None \<Rightarrow> last_error ''error_message=''))"

definition testHeadObject_positive :: "('j, 'w, 'v) libs \<Rightarrow> (unit, ('w, 'v) process) prog" where
  "testHeadObject_positive E = testHeadObject E ''testHeadObject_positive.............'' ''badformatted''"

definition testHeadObject_negative :: "('j, 'w, 'v) libs \<Rightarrow> (unit, ('w, 'v) process) prog" where
  "testHeadObject_negative E = testHeadObject E ''testHeadObject_negative.............'' ''badobject''"

section \<open>Downloads\<close>

definition hello_mega :: int where "hello_mega = 1 * 1024 * 1024"

text \<open>
  \<open>while (bytes_left > 0)\<close>, which only the sum of the results ends; \<open>bytes_left\<close> grows by one at
  every failed call, until it overflows. \<open>rest\<close> is \<open>bytes_left\<close>.
\<close>

partial_function (option) drain_loop :: "('j, 'w, 'v) libs \<Rightarrow> Configuration option \<Rightarrow> int \<Rightarrow> int \<Rightarrow> ('w, 'v) reading_state \<Rightarrow>
    (unit outcome \<times> ('w, 'v) reading_state) option" where
  "drain_loop E ctx n rest s =
     (if rest > 0
      then Option.bind (read_into E ctx 0 n s) (\<lambda>(r, s').
        case r of
          Ret v \<Rightarrow> if rest - v > INT64_MAX then Some (Undefined, s') else drain_loop E ctx n (rest - v) s'
        | Throw e \<Rightarrow> Some (Throw e, s')
        | Undefined \<Rightarrow> Some (Undefined, s'))
      else Some (Ret (), s))"

declare drain_loop.simps [code]

text \<open>The buffer is an array of the function, not initialised.\<close>

definition testGetObject :: "('j, 'w, 'v) libs \<Rightarrow> byte list \<Rightarrow> (unit, ('w, 'v) process) prog" where
  "testGetObject E fresh = hello_test E ''testGetObject...................'' (\<lambda>ctx.
     next_prog (opened (qingstorGetObject E ctx (Some ''hellobucket'') (Some ''zeros'') 0 (10 * 1024 * 1024 - 1))) (\<lambda>obj.
       if obj \<noteq> None
       then next_prog (with_locals (obj, Some (fresh_block fresh (nat hello_mega)))
              (drain_loop E ctx hello_mega (10 * 1024 * 1024))) (\<lambda>(obj, buf). close_handle E obj)
       else last_error ''error_message=''))"

section \<open>Uploads\<close>

definition zero_buffer :: "byte list" where
  "zero_buffer = replicate (nat hello_mega) NUL"

text \<open>Like \<open>write.c\<close>, with one write from an array of zeros; the early return keeps the context.\<close>

definition testPutObject_positive :: "('j, 'w, 'v) libs \<Rightarrow> (unit, ('w, 'v) process) prog" where
  "testPutObject_positive E =
     next_prog (printf ''testPutObject.....................'') (\<lambda>_.
     next_prog (open_context E hello_key_id hello_secret hello_buffer_size) (\<lambda>ctx.
     next_prog (opened (\<lambda>s. Some (qingstorPutObject E ctx (Some ''hellobucket'') (Some ''zeros'') True s))) (\<lambda>obj.
       if obj \<noteq> None
       then next_prog (write_all_of E ctx obj (Some zero_buffer) hello_mega 1) (\<lambda>ok.
              if ok then close_context ctx else skip)
       else next_prog (last_error ''qingstor put object failed with error message: '') (\<lambda>_. close_context ctx))))"

definition cancel_handle :: "('j, 'w, 'v) libs \<Rightarrow> Configuration option \<Rightarrow> (int, object_wrapper option \<times> ('w, 'v) process) prog" where
  "cancel_handle E ctx s =
     (case s of (obj, pr) \<Rightarrow> case qingstorCancelObject E ctx obj (pc_api pr) of (r, obj', s') \<Rightarrow> Some (r, obj', pr\<lparr>pc_api := s'\<rparr>))"

text \<open>The loop cancels the upload when \<open>i\<close> is 512 and goes on when a write fails.\<close>

fun cancel_loop :: "('j, 'w, 'v) libs \<Rightarrow> Configuration option \<Rightarrow> byte list option \<Rightarrow> int \<Rightarrow> nat list \<Rightarrow>
    (unit, object_wrapper option \<times> ('w, 'v) process) prog" where
  "cancel_loop E ctx buf sz [] = skip"
| "cancel_loop E ctx buf sz (i # is) =
     (if i = 512 then next_prog (cancel_handle E ctx) (\<lambda>_. skip)
      else next_prog (write_from E ctx buf sz) (\<lambda>v.
           next_prog (if v \<noteq> sz then on_process (last_error ''qingstor write failed with error message: '') else skip) (\<lambda>_.
           cancel_loop E ctx buf sz is)))"

definition testPutObject_negative :: "('j, 'w, 'v) libs \<Rightarrow> (unit, ('w, 'v) process) prog" where
  "testPutObject_negative E = hello_test E ''testPutObject.....................'' (\<lambda>ctx.
     next_prog (opened (\<lambda>s. Some (qingstorPutObject E ctx (Some ''alluxio'') (Some ''test'') True s))) (\<lambda>obj.
       if obj \<noteq> None
       then next_prog (with_locals obj (cancel_loop E ctx (Some zero_buffer) hello_mega [0..<1024])) (close_handle E)
       else last_error ''qingstor put object failed with error message: ''))"

section \<open>Requests\<close>

definition testDeleteObject_positive :: "('j, 'w, 'v) libs \<Rightarrow> (unit, ('w, 'v) process) prog" where
  "testDeleteObject_positive E = hello_test E ''testDeleteObject.....................'' (\<lambda>ctx.
     next_prog (api_call (qingstorDeleteObject E ctx (Some ''hellobucket'') (Some ''zeros''))) (\<lambda>r.
       if r = 0 then printf ''successfully delete object hellobucket/zeros''
       else last_error ''qingstor delete object failed with error message: ''))"

definition testCreateBucket_positive :: "('j, 'w, 'v) libs \<Rightarrow> (unit, ('w, 'v) process) prog" where
  "testCreateBucket_positive E = hello_test E ''testCreateBucket......................'' (\<lambda>ctx.
     next_prog (api_call (qingstorCreateBucket E ctx (Some ''pek3a'') (Some ''lirongbucket''))) (\<lambda>r.
       if r = 0 then printf ''successfully create bucket lirongbucket.pek3a''
       else last_error ''qingstor create bucket failed with error message: ''))"

definition testDeleteBucket_positive :: "('j, 'w, 'v) libs \<Rightarrow> (unit, ('w, 'v) process) prog" where
  "testDeleteBucket_positive E = hello_test E ''testDeleteBucket......................'' (\<lambda>ctx.
     next_prog (api_call (qingstorDeleteBucket E ctx (Some ''pek3a'') (Some ''lirongbucket''))) (\<lambda>r.
       if r = 0 then printf ''successfully delete bucket lirongbucket.pek3a''
       else last_error ''qingstor delete bucket failed with error message: ''))"

text \<open>\<open>main\<close>: the other tests are commented out.\<close>

definition hello_main :: "('j, 'w, 'v) libs \<Rightarrow> (int, ('w, 'v) process) prog" where
  "hello_main E = next_prog (testPutObject_negative E) (\<lambda>_ pr. Some (Ret 0, pr))"

end
