(* ===== verification/QS_Clients_Facts.thy ===== *)
theory QS_Clients_Facts
  imports QS_Hello QS_Api_Facts
begin

text \<open>
  The client programs over the library and an honest server: what they read, what they store,
  and what they leave behind.
\<close>

section \<open>Programs\<close>

lemma printf_run: "printf t pr = Some (Ret (), pr\<lparr>pc_out := pc_out pr @ [t]\<rparr>)"
  by (simp add: printf_def)

section \<open>A read stays in its buffer\<close>

lemma get_data_length:
  assumes "get_data M n s = Some y"
  shows "\<exists>d eof s'. y = (Ret (d, eof), s') \<and> length d \<le> n \<or> fst y = Undefined"
  using assms
proof (induction rule: get_data.raw_induct [rotated, consumes 1])
  case (1 loop M n s y)
  obtain f w where s: "s = (f, w)" by (cases s)
  show ?case
  proof (cases "unread f > 0")
    case True
    then show ?thesis using 1(2) by (auto simp: s take_data_def Let_def subbuf_def)
  next
    case False
    then show ?thesis using 1(1,2) by (auto simp: s Let_def split: if_splits curl_ptr.splits prod.splits)
  qed
qed

lemma pipeline_read_length:
  assumes "pipeline_read M n s = Some y"
  shows "y = (Ret (d, eof), s') \<Longrightarrow> length d \<le> n"
  using assms
proof (induction rule: pipeline_read.raw_induct [rotated, consumes 1])
  case (1 loop M n s y)
  obtain r p w where l: "launch M s = (r, p, w)" by (rule prod_cases3)
  show ?case
  proof (cases r)
    case (Ret u)
    show ?thesis
    proof (cases "pl_active p")
      case Nil
      then show ?thesis using 1(2,3) by (simp add: l Ret)
    next
      case (Cons f fs)
      then obtain g f1 w1 where g: "get_data M n (f, w) = Some (g, f1, w1)"
        using 1(2) by (auto simp: l Ret bind_eq_Some_conv)
      show ?thesis
      proof (cases g)
        case (Ret x)
        obtain d1 e1 where x: "x = (d1, e1)" by (cases x)
        have "length d1 \<le> n" using get_data_length [OF g] by (simp add: Ret x)
        then show ?thesis
          using 1 g by (auto simp: l \<open>r = Ret u\<close> Cons Ret x split: if_splits outcome.splits prod.splits)
      qed (use 1(2,3) g in \<open>auto simp: l Ret Cons\<close>)
    qed
  qed (use 1(2,3) in \<open>auto simp: l\<close>)
qed

text \<open>
  C14. \<open>qingstorRead\<close> never stores more than the length it was given, whatever the transport does:
  the value returned is the number of bytes stored, at most the length, or -1 with none stored.
\<close>

theorem read_within_buffer:
  assumes "qingstorRead E ctx obj buf n s = Some (Ret (v, d), obj', s')"
  shows "int (length d) \<le> max 0 n \<and> (v = int (length d) \<or> v = -1 \<and> d = [])"
proof (cases obj)
  case (Some ob)
  show ?thesis
  proof (cases "ctx = None \<or> \<not> buf \<or> \<not> n > 0 \<or> \<not> ow_reader ob")
    case ok: False
    show ?thesis
    proof (cases "getReader ob")
      case (Ret rd)
      obtain r rd' w where t: "reader_transferData (lb_multi E) (nat n) (rd, ap_multi s) = Some (r, rd', w)"
        using assms Some ok Ret by (auto simp: qingstorRead_def)
      then obtain r1 p w1 where p: "pipeline_read (lb_multi E) (nat n) (rd_pipeline rd, ap_multi s) = Some (r1, p, w1)"
        and r: "r = bind r1 (\<lambda>(d, eof). if eof then THROW QingStorEndOfStream ''transferData'' else Ret d)"
        by (auto simp: reader_transferData_def)
      have "length d1 \<le> nat n" if "r = Ret d1" for d1
        using that pipeline_read_length [OF p] r by (auto simp: bind_Ret_iff THROW_def split: if_splits)
      then show ?thesis using assms Some ok Ret t
        by (cases r) (auto simp: qingstorRead_def Let_def split: if_splits)
    qed (use assms Some ok in \<open>auto simp: qingstorRead_def\<close>)
  qed (use assms Some in \<open>auto simp: qingstorRead_def\<close>)
qed (use assms in \<open>auto simp: qingstorRead_def\<close>)

section \<open>Reading from an honest server\<close>

text \<open>A handle opened for reading that still owes the bytes \<open>rest\<close> of the object.\<close>

definition owes :: "byte list \<Rightarrow> reader \<Rightarrow> ('w, file_world) api \<Rightarrow> byte list \<Rightarrow> bool" where
  "owes obj rd s rest \<longleftrightarrow>
     file_transport.pipe_inv obj (rd_pipeline rd, ap_multi s) \<and> file_transport.owed_pipe obj (rd_pipeline rd) = rest"

lemma read_step:
  assumes "lb_multi E = file_server obj" "owes obj rd s rest" "0 < n"
  shows "\<exists>d rd' v. qingstorRead E (Some cfg) (Some (read_object rd)) True n s =
      Some (Ret (int (length d), d), Some (read_object rd'), s\<lparr>ap_multi := v\<rparr>) \<and>
    int (length d) \<le> n \<and> take (length d) rest = d \<and> owes obj rd' (s\<lparr>ap_multi := v\<rparr>) (drop (length d) rest) \<and>
    (d = [] \<longrightarrow> rest = [])"
proof -
  have inv: "file_transport.pipe_inv obj (rd_pipeline rd, ap_multi s)" "file_transport.owed_pipe obj (rd_pipeline rd) = rest"
    using assms(2) by (simp_all add: owes_def)
  from file_transport.read_total [OF inv(1), of "nat n"] assms(3)
  obtain d eof p' v where r: "pipeline_read (file_server obj) (nat n) (rd_pipeline rd, ap_multi s) = Some (Ret (d, eof), p', v)"
    "file_transport.pipe_inv obj (p', v)" "file_transport.owed_pipe obj (rd_pipeline rd) = d @ file_transport.owed_pipe obj p'"
    "if eof then file_transport.owed_pipe obj (rd_pipeline rd) = [] else d \<noteq> []"
    by (auto simp: file_transport.read_result_def)
  note r = r(1,2) r(3,4) [unfolded inv(2)]
  let ?rd = "rd\<lparr>rd_pipeline := p'\<rparr>"
  have o: "owes obj ?rd (s\<lparr>ap_multi := v\<rparr>) (drop (length d) rest)" using r(2,3) by (simp add: owes_def)
  have "qingstorRead E (Some cfg) (Some (read_object rd)) True n s =
      Some (Ret (int (length d), d), Some (read_object ?rd), s\<lparr>ap_multi := v\<rparr>)"
  proof (cases eof)
    case True
    with r show ?thesis using assms(1,3)
      by (simp add: qingstorRead_def reader_transferData_def Let_def THROW_def mk_exn_def)
  next
    case False
    with r show ?thesis using assms(1,3) by (simp add: qingstorRead_def reader_transferData_def Let_def)
  qed
  moreover have "int (length d) \<le> n" using pipeline_read_length [OF r(1) refl] assms(3) by simp
  ultimately show ?thesis using o r(3,4) by (intro exI [of _ d] exI [of _ ?rd] exI [of _ v]) (auto split: if_splits)
qed

text \<open>The loop of \<open>read.c\<close> fills the buffer as far as the data goes.\<close>

lemma read_into_step:
  assumes "lb_multi E = file_server obj" "owes obj rd (pc_api pr) rest" "0 < n" "int k + n \<le> int (length buf)"
  shows "\<exists>d rd' v. read_into E (Some cfg) k n ((Some (read_object rd), Some buf), pr) =
      Some (Ret (int (length d)), (Some (read_object rd'), Some (overwrite k d buf)), pr\<lparr>pc_api := (pc_api pr)\<lparr>ap_multi := v\<rparr>\<rparr>) \<and>
    int (length d) \<le> n \<and> take (length d) rest = d \<and> owes obj rd' ((pc_api pr)\<lparr>ap_multi := v\<rparr>) (drop (length d) rest) \<and>
    (d = [] \<longrightarrow> rest = [])"
proof -
  obtain d rd' v where q: "qingstorRead E (Some cfg) (Some (read_object rd)) True n (pc_api pr) =
      Some (Ret (int (length d), d), Some (read_object rd'), (pc_api pr)\<lparr>ap_multi := v\<rparr>)"
    "int (length d) \<le> n" "take (length d) rest = d" "owes obj rd' ((pc_api pr)\<lparr>ap_multi := v\<rparr>) (drop (length d) rest)"
    "d = [] \<longrightarrow> rest = []"
    using read_step [OF assms(1-3), of cfg] by blast
  have "overwrite k [] buf = buf" by (simp add: overwrite_def)
  with q assms(4) show ?thesis by (intro exI [of _ d] exI [of _ rd'] exI [of _ v]) (auto simp: read_into_def Let_def)
qed

lemma overwrite_twice:
  "k + length d + length e \<le> length buf \<Longrightarrow> overwrite (k + length d) e (overwrite k d buf) = overwrite k (d @ e) buf"
  by (simp add: overwrite_def ac_simps)

lemma fill_loop_run:
  assumes "lb_multi E = file_server obj"
  shows "owes obj rd (pc_api pr) rest \<Longrightarrow> 0 < n \<Longrightarrow> k + n \<le> length buf \<Longrightarrow>
    \<exists>rd' v. fill_loop E (Some cfg) (int n) (int k) ((Some (read_object rd), Some buf), pr) =
        Some (Ret (), (Some (read_object rd'), Some (overwrite k (take n rest) buf)), pr\<lparr>pc_api := (pc_api pr)\<lparr>ap_multi := v\<rparr>\<rparr>) \<and>
      owes obj rd' ((pc_api pr)\<lparr>ap_multi := v\<rparr>) (drop n rest)"
proof (induction n arbitrary: rd pr rest k buf rule: less_induct)
  case (less n)
  obtain d rd' v where r: "read_into E (Some cfg) k (int n) ((Some (read_object rd), Some buf), pr) =
      Some (Ret (int (length d)), (Some (read_object rd'), Some (overwrite k d buf)), pr\<lparr>pc_api := (pc_api pr)\<lparr>ap_multi := v\<rparr>\<rparr>)"
    and d: "length d \<le> n" "take (length d) rest = d" "owes obj rd' ((pc_api pr)\<lparr>ap_multi := v\<rparr>) (drop (length d) rest)"
    "d = [] \<longrightarrow> rest = []"
    using read_into_step [OF assms less.prems(1), of "int n" k buf cfg] less.prems(2,3) by auto
  let ?pr = "pr\<lparr>pc_api := (pc_api pr)\<lparr>ap_multi := v\<rparr>\<rparr>"
  show ?case
  proof (cases "d \<noteq> [] \<and> length d < n")
    case True
    have o: "owes obj rd' (pc_api ?pr) (drop (length d) rest)" using d(3) by simp
    obtain rd2 v2 where rec: "fill_loop E (Some cfg) (int (n - length d)) (int (k + length d))
          ((Some (read_object rd'), Some (overwrite k d buf)), ?pr) =
        Some (Ret (), (Some (read_object rd2), Some (overwrite (k + length d) (take (n - length d) (drop (length d) rest)) (overwrite k d buf))),
          ?pr\<lparr>pc_api := (pc_api ?pr)\<lparr>ap_multi := v2\<rparr>\<rparr>)"
      "owes obj rd2 ((pc_api ?pr)\<lparr>ap_multi := v2\<rparr>) (drop (n - length d) (drop (length d) rest))"
      using less.IH [OF _ o, of "n - length d" "k + length d" "overwrite k d buf"] True less.prems(3) by auto
    have t: "take n rest = d @ take (n - length d) (drop (length d) rest)"
      using take_add [of "length d" "n - length d" rest] d(1,2) by simp
    have "overwrite (k + length d) (take (n - length d) (drop (length d) rest)) (overwrite k d buf) = overwrite k (take n rest) buf"
      unfolding t by (rule overwrite_twice) (use less.prems(3) d(1) in simp)
    with rec True r d(1) show ?thesis
      by (subst fill_loop.simps) (auto simp: of_nat_diff intro!: exI [of _ rd2] exI [of _ v2])
  next
    case False
    then have "take n rest = d" "drop n rest = drop (length d) rest" using d by auto
    with False r d(1,3) show ?thesis
      by (subst fill_loop.simps) (auto intro!: exI [of _ rd'] exI [of _ v])
  qed
qed

text \<open>The buffer after \<open>k\<close> rounds: each takes the next bytes, and keeps what it does not overwrite.\<close>

primrec read_buffers :: "nat \<Rightarrow> nat \<Rightarrow> byte list \<Rightarrow> byte list \<Rightarrow> byte list" where
  "read_buffers n 0 rest buf = buf"
| "read_buffers n (Suc k) rest buf = read_buffers n k (drop n rest) (overwrite 0 (take n rest) buf)"

lemma rounds_run:
  assumes "lb_multi E = file_server obj" "0 < n"
  shows "owes obj rd (pc_api pr) rest \<Longrightarrow> n \<le> length buf \<Longrightarrow>
    \<exists>rd' v. repeat k (fill_loop E (Some cfg) (int n) 0) ((Some (read_object rd), Some buf), pr) =
        Some (Ret (), (Some (read_object rd'), Some (read_buffers n k rest buf)), pr\<lparr>pc_api := (pc_api pr)\<lparr>ap_multi := v\<rparr>\<rparr>) \<and>
      owes obj rd' ((pc_api pr)\<lparr>ap_multi := v\<rparr>) (drop (k * n) rest)"
proof (induction k arbitrary: rd pr rest buf)
  case 0
  then show ?case by (intro exI [of _ rd] exI [of _ "ap_multi (pc_api pr)"]) (simp add: skip_def)
next
  case (Suc k)
  obtain rd1 v1 where r: "fill_loop E (Some cfg) (int n) 0 ((Some (read_object rd), Some buf), pr) =
      Some (Ret (), (Some (read_object rd1), Some (overwrite 0 (take n rest) buf)), pr\<lparr>pc_api := (pc_api pr)\<lparr>ap_multi := v1\<rparr>\<rparr>)"
    "owes obj rd1 ((pc_api pr)\<lparr>ap_multi := v1\<rparr>) (drop n rest)"
    using fill_loop_run [OF assms(1) Suc.prems(1) assms(2), of 0 buf cfg] Suc.prems(2) by auto
  have "n \<le> length (overwrite 0 (take n rest) buf)" using Suc.prems(2) by (simp)
  from Suc.IH [OF _ this, of rd1 "pr\<lparr>pc_api := (pc_api pr)\<lparr>ap_multi := v1\<rparr>\<rparr>" "drop n rest"] r(2)
  obtain rd2 v2 where "repeat k (fill_loop E (Some cfg) (int n) 0)
        ((Some (read_object rd1), Some (overwrite 0 (take n rest) buf)), pr\<lparr>pc_api := (pc_api pr)\<lparr>ap_multi := v1\<rparr>\<rparr>) =
      Some (Ret (), (Some (read_object rd2), Some (read_buffers n k (drop n rest) (overwrite 0 (take n rest) buf))),
        pr\<lparr>pc_api := (pc_api pr)\<lparr>ap_multi := v2\<rparr>\<rparr>)"
    "owes obj rd2 ((pc_api pr)\<lparr>ap_multi := v2\<rparr>) (drop (k * n) (drop n rest))" by auto
  then show ?case by (intro exI [of _ rd2] exI [of _ v2]) (simp add: next_prog_def r(1) add.commute)
qed

section \<open>Closing\<close>

lemma destroy_all_started:
  "\<forall>f \<in> set fs. ft_curl f \<noteq> Uninitialised \<Longrightarrow> \<exists>w'. destroy_all (file_server obj) fs w = (Ret (), w') \<and>
     (\<forall>h. conn w' h = (if Handle h \<in> ft_curl ` set fs then None else conn w h))"
proof (induction fs arbitrary: w)
  case (Cons f fs)
  define w1 where "w1 = (case ft_curl f of Handle h \<Rightarrow> drop_conn h w | _ \<Rightarrow> w)"
  have "\<exists>f1. destroy_fetcher (file_server obj) (f, w) = (Ret (), f1, w1)"
    using Cons.prems by (auto simp: destroy_fetcher_def cleanup_def then_call_def w1_def file_server_def split: curl_ptr.split)
  moreover obtain w' where "destroy_all (file_server obj) fs w1 = (Ret (), w')"
    "\<forall>h. conn w' h = (if Handle h \<in> ft_curl ` set fs then None else conn w1 h)"
    using Cons.IH [of w1] Cons.prems by auto
  moreover have "conn w1 h = (if ft_curl f = Handle h then None else conn w h)" for h
    by (auto simp: w1_def split: curl_ptr.split)
  ultimately show ?case by fastforce
qed simp

lemma no_conn:
  assumes "\<And>h. conn w h = None" shows "fw_conns w = []"
proof (cases "fw_conns w")
  case (Cons c cs)
  then show ?thesis using assms [of "fst c"] by (simp add: conn_def)
qed

lemma close_after_end:
  assumes "owes obj rd s []" and "lb_multi E = file_server obj"
  shows "\<exists>v. qingstorCloseObject E (Some (read_object rd)) s = (Ret 0, s\<lparr>ap_multi := v\<rparr>) \<and> fw_conns v = []"
proof -
  let ?p = "rd_pipeline rd"
  have inv: "file_transport.active_inv obj (ap_multi s) (pl_active ?p)" "list_all (file_transport.fresh obj) (pl_pending ?p)"
    "file_transport.owed_all obj (pl_active ?p @ pl_pending ?p) = []" "file_transport.alive_all (ap_multi s) (pl_active ?p)"
    using assms by (simp_all add: owes_def file_transport.pipe_inv_def file_transport.owed_pipe_def)
  have "owed obj f \<noteq> []" if "file_transport.fresh obj f" for f
  proof -
    have f: "valid_range obj f" "0 < ft_len f" "ft_bytes_done f = 0" using that by (simp_all add: file_transport.fresh_def)
    then have "length (owed obj f) = nat (ft_len f)" unfolding owed_def
      by (subst length_subbuf) (auto simp: valid_range_def)
    with f(2) show ?thesis by auto
  qed
  with inv(2,3) have "pl_pending ?p = []" by (cases "pl_pending ?p") (auto simp: file_transport.owed_all_simps)
  moreover have "\<forall>f \<in> set (pl_active ?p). ft_curl f \<noteq> Uninitialised"
  proof
    fix f assume "f \<in> set (pl_active ?p)"
    from file_transport.active_inv_member [OF inv(1) this] show "ft_curl f \<noteq> Uninitialised"
      by (auto simp: file_transport.fetch_inv_def)
  qed
  ultimately obtain v where v: "destroy_reader (lb_multi E) rd (ap_multi s) = (Ret (), v)"
    "\<And>h. conn v h = (if Handle h \<in> ft_curl ` set (pl_active ?p) then None else conn (ap_multi s) h)"
    using destroy_all_started [of "pl_active ?p" obj "ap_multi s"] assms(2) by (auto simp: destroy_reader_def destroy_pipeline_def)
  have "conn v h = None" for h using inv(4) v(2) [of h] by (auto simp: file_transport.alive_all_def)
  then have "fw_conns v = []" by (rule no_conn)
  with v(1) show ?thesis
    by (intro exI [of _ v])
      (simp add: qingstorCloseObject_def close_object_def then_call_def destroy_wrapper_def, simp add: read_object_def)
qed

section \<open>\<open>read.c\<close>\<close>

lemma length_fresh_block [simp]: "length (fresh_block fresh n) = n"
  by (simp add: fresh_block_def)

lemma open_context_run:
  assumes "ap_alloc (pc_api pr) = []" "k \<noteq> []" "c \<noteq> []"
  shows "open_context E k c sz pr = Some (Ret (Some (Configuration_direct client_location k c sz)), pr\<lparr>pc_contexts := Suc (pc_contexts pr)\<rparr>)"
  using assms
  by (simp add: open_context_def api_call_def in_api_def next_prog_def qingstorInitContext_def PARAMETER_ASSERT_def non_empty_def
      new_context_def then_call_def new_block_def malloc_block_def try_catch_def)

lemma close_context_run:
  "close_context (Some c) pr = Some (Ret (), pr\<lparr>pc_contexts := pc_contexts pr - 1\<rparr>)"
  by (simp add: close_context_def api_call_def in_api_def next_prog_def qingstorDestroyContext_def return_def)

lemma malloc_run:
  "ap_alloc (pc_api pr) = [] \<Longrightarrow>
    malloc_buffer fresh n pr = Some (Ret (Some (fresh_block fresh n)), pr\<lparr>pc_blocks := Suc (pc_blocks pr)\<rparr>)"
  by (simp add: malloc_buffer_def api_call_def in_api_def next_prog_def malloc_block_def)

definition client_config :: "int \<Rightarrow> Configuration" where
  "client_config sz = Configuration_direct client_location access_key_id secret_access_key sz"

lemma client_config_run:
  "ap_alloc (pc_api pr) = [] \<Longrightarrow> open_context E access_key_id secret_access_key sz pr =
    Some (Ret (Some (client_config sz)), pr\<lparr>pc_contexts := Suc (pc_contexts pr)\<rparr>)"
  by (simp add: open_context_run client_config_def access_key_id_def secret_access_key_def)

text \<open>What opening an object of \<open>alluxio\<close> for reading needs, and gives.\<close>

definition served_object :: "('j, 'w, file_world) libs \<Rightarrow> Configuration \<Rightarrow> string \<Rightarrow> ('w, file_world) api \<Rightarrow> byte list \<Rightarrow> bool" where
  "served_object E cfg filename s obj \<longleftrightarrow>
     (\<exists>h w. headObject (lb_http E) cfg ''alluxio'' filename (ap_world s) = (Ret h, w) \<and> hor_content_length h = int (length obj)) \<and>
     addressable cfg ''alluxio'' filename \<and> filename \<noteq> [] \<and> obj \<noteq> [] \<and> length obj < 2 ^ 31 \<and>
     lb_multi E = file_server obj \<and> lb_multi_init E \<and> fw_conns (ap_multi s) = [] \<and> ap_alloc s = []"

lemma served_opens:
  assumes "served_object E cfg filename s obj" and "0 < mNConnections cfg" and "0 < mChunkSize cfg" and "mChunkSize cfg < 2 ^ 62"
  shows "\<exists>rd w. qingstorGetObject E (Some cfg) (Some ''alluxio'') (Some filename) (-1) (-1) s =
      Some (Ret (Some (read_object rd)), s\<lparr>ap_world := w\<rparr>) \<and> owes obj rd (s\<lparr>ap_world := w\<rparr>) obj"
proof -
  obtain h w where h: "headObject (lb_http E) cfg ''alluxio'' filename (ap_world s) = (Ret h, w)"
    "hor_content_length h = int (length obj)" using assms(1) by (auto simp: served_object_def)
  have o: "obj \<noteq> []" "length obj < 2 ^ 31" "fw_conns (ap_multi s) = []" "ap_alloc s = []" "filename \<noteq> []" "lb_multi_init E"
    using assms(1) by (simp_all add: served_object_def)
  let ?ob = "\<lparr>obj_key = filename, obj_size = hor_content_length h, obj_range = requested (-1) (-1) h\<rparr>"
  have r: "readable cfg ''alluxio'' ?ob obj"
    using assms o h(2) by (simp add: readable_def requested_def served_object_def Suc_leI)
  have "range_bytes ?ob obj = obj" by (simp add: range_bytes_def requested_def h(2) subbuf_def)
  then obtain rd where rd: "QingStorReader cfg ''alluxio'' ?ob True = Some (Ret rd)"
    "file_transport.pipe_inv obj (rd_pipeline rd, ap_multi s)" "file_transport.owed_pipe obj (rd_pipeline rd) = obj"
    using reader_opens [OF r o(3)] by metis
  have "qingstorGetObject E (Some cfg) (Some ''alluxio'') (Some filename) (-1) (-1) s =
      Some (Ret (Some (read_object rd)), s\<lparr>ap_world := w\<rparr>)"
    by (rule getObject_opens [OF h(1)]) (use rd(1) o in simp_all)
  with rd show ?thesis by (intro exI [of _ rd] exI [of _ w]) (simp add: owes_def)
qed

text \<open>One file of \<open>read.c\<close>, in detail; what it leaves is ready for the next file.\<close>

lemma read_file_run:
  assumes "served_object E cfg filename (pc_api pr) obj" and "cfg = client_config read_qingstor_buffer_size"
    and "int (length obj) \<le> file_length"
  shows "\<exists>h1 pr1 h2 pr2 w v. read_file E fresh filename pr =
       Some (Ret (), pr\<lparr>pc_out := pc_out pr @ [''testGetObject '' @ filename @ ''.............''],
         pc_api := (pc_api pr)\<lparr>ap_world := w, ap_multi := v\<rparr>\<rparr>) \<and> fw_conns v = [] \<and>
     qingstorGetObject E (Some cfg) (Some ''alluxio'') (Some filename) (-1) (-1) (pc_api pr) = Some (Ret (Some h1), pc_api pr1) \<and>
     repeat 32 (fill_loop E (Some cfg) read_buffer_size 0) ((Some h1, Some (fresh_block fresh (nat read_buffer_size))), pr1) =
       Some (Ret (), (Some h2, Some (read_buffers (nat read_buffer_size) 32 obj (fresh_block fresh (nat read_buffer_size)))), pr2) \<and>
     qingstorCloseObject E (Some h2) (pc_api pr2) = (Ret 0, (pc_api pr)\<lparr>ap_world := w, ap_multi := v\<rparr>)"
proof -
  let ?n = "nat read_buffer_size" let ?b = "fresh_block fresh ?n"
  have c: "mNConnections cfg = 3" "mChunkSize cfg = 4 * 2 ^ 20"
    by (simp_all add: assms(2) client_config_def Configuration_direct_def read_qingstor_buffer_size_def)
  obtain rd w where o: "qingstorGetObject E (Some cfg) (Some ''alluxio'') (Some filename) (-1) (-1) (pc_api pr) =
      Some (Ret (Some (read_object rd)), (pc_api pr)\<lparr>ap_world := w\<rparr>)" "owes obj rd ((pc_api pr)\<lparr>ap_world := w\<rparr>) obj"
    using served_opens [OF assms(1)] by (auto simp: c)
  have e: "lb_multi E = file_server obj" "ap_alloc (pc_api pr) = []" "0 < ?n" using assms(1)
    by (simp_all add: served_object_def read_buffer_size_def)
  have n: "int ?n = read_buffer_size" "nat (file_length div read_buffer_size) = 32" "length obj \<le> 32 * ?n"
    using assms(3) by (simp_all add: read_buffer_size_def file_length_def)
  define t where "t = ''testGetObject '' @ filename @ ''.............''"
  let ?s1 = "(pc_api pr)\<lparr>ap_world := w\<rparr>"
  let ?pr1 = "pr\<lparr>pc_out := pc_out pr @ [t], pc_contexts := Suc (pc_contexts pr)\<rparr>"
  let ?pr3 = "?pr1\<lparr>pc_api := ?s1, pc_objects := Suc (pc_objects pr), pc_blocks := Suc (pc_blocks pr)\<rparr>"
  have p1: "printf t pr = Some (Ret (), pr\<lparr>pc_out := pc_out pr @ [t]\<rparr>)" by (rule printf_run)
  have p2: "open_context E access_key_id secret_access_key read_qingstor_buffer_size (pr\<lparr>pc_out := pc_out pr @ [t]\<rparr>) =
      Some (Ret (Some cfg), ?pr1)"
    using client_config_run [of "pr\<lparr>pc_out := pc_out pr @ [t]\<rparr>" E] e(2) by (simp add: assms(2))
  have p3: "opened (qingstorGetObject E (Some cfg) (Some ''alluxio'') (Some filename) (-1) (-1)) ?pr1 =
      Some (Ret (Some (read_object rd)), ?pr1\<lparr>pc_api := ?s1, pc_objects := Suc (pc_objects pr)\<rparr>)"
    by (simp add: opened_def in_api_def next_prog_def o(1))
  have p4: "malloc_buffer fresh ?n (?pr1\<lparr>pc_api := ?s1, pc_objects := Suc (pc_objects pr)\<rparr>) = Some (Ret (Some ?b), ?pr3)"
    by (subst malloc_run) (simp_all add: e(2))
  obtain rd' v where p5: "repeat 32 (fill_loop E (Some cfg) read_buffer_size 0) ((Some (read_object rd), Some ?b), ?pr3) =
      Some (Ret (), (Some (read_object rd'), Some (read_buffers ?n 32 obj ?b)), ?pr3\<lparr>pc_api := ?s1\<lparr>ap_multi := v\<rparr>\<rparr>)"
    and end_: "owes obj rd' (?s1\<lparr>ap_multi := v\<rparr>) []"
    using rounds_run [OF e(1,3), of rd ?pr3 obj ?b 32 cfg] o(2) n(1,3) by auto
  obtain v2 where cls: "qingstorCloseObject E (Some (read_object rd')) (?s1\<lparr>ap_multi := v\<rparr>) = (Ret 0, ?s1\<lparr>ap_multi := v2\<rparr>)"
    and conns: "fw_conns v2 = []" using close_after_end [OF end_ e(1)] by auto
  let ?pr' = "pr\<lparr>pc_out := pc_out pr @ [t], pc_api := ?s1\<lparr>ap_multi := v2\<rparr>\<rparr>"
  have "read_file E fresh filename pr = Some (Ret (), ?pr')"
    unfolding read_file_def n(2) t_def [symmetric]
    by (simp add: next_prog_def p1 p2 p3 p4 with_locals_def p5 close_handle_def api_call_def in_api_def cls
        free_buffer_def close_context_run)
  with o(1) p5 cls conns show ?thesis unfolding t_def [symmetric]
    by (intro exI [of _ "read_object rd"] exI [of _ ?pr3] exI [of _ "read_object rd'"]
        exI [of _ "?pr3\<lparr>pc_api := ?s1\<lparr>ap_multi := v\<rparr>\<rparr>"] exI [of _ w] exI [of _ v2]) simp
qed

text \<open>
  C11. \<open>read.c\<close> against an honest server: reading an object of at most 256 MiB prints its title
  and nothing else, closes and frees all it obtained and leaves \<open>errno\<close> and the message alone;
  between opening and closing, 32 rounds take the object 8 MiB at a time, up to its last byte.
\<close>

theorem read_client:
  assumes "served_object E cfg filename (pc_api pr) obj" and "cfg = client_config read_qingstor_buffer_size"
    and "int (length obj) \<le> file_length"
  shows "\<exists>h1 pr1 h2 pr2 pr'. read_file E fresh filename pr = Some (Ret (), pr') \<and>
     pc_out pr' = pc_out pr @ [''testGetObject '' @ filename @ ''.............''] \<and>
     pc_contexts pr' = pc_contexts pr \<and> pc_objects pr' = pc_objects pr \<and> pc_blocks pr' = pc_blocks pr \<and>
     ap_errno (pc_api pr') = ap_errno (pc_api pr) \<and> ap_message (pc_api pr') = ap_message (pc_api pr) \<and>
     qingstorGetObject E (Some cfg) (Some ''alluxio'') (Some filename) (-1) (-1) (pc_api pr) = Some (Ret (Some h1), pc_api pr1) \<and>
     repeat 32 (fill_loop E (Some cfg) read_buffer_size 0) ((Some h1, Some (fresh_block fresh (nat read_buffer_size))), pr1) =
       Some (Ret (), (Some h2, Some (read_buffers (nat read_buffer_size) 32 obj (fresh_block fresh (nat read_buffer_size)))), pr2) \<and>
     qingstorCloseObject E (Some h2) (pc_api pr2) = (Ret 0, pc_api pr')"
  using read_file_run [OF assms, of fresh] by fastforce

text \<open>A process that has just started.\<close>

definition example_process :: "(net, file_world) process" where
  "example_process = \<lparr>pc_api = example_state, pc_out = [], pc_contexts = 0, pc_objects = 0, pc_blocks = 0\<rparr>"

lemma client_addressable: "addressable (client_config sz) ''alluxio'' ''tmp/test_write_0''"
  by (simp add: addressable_def client_config_def Configuration_direct_def client_location_def bucket_host_def object_url_def
      IS_ALPHA_iff IS_HOST_CHAR_def IS_ALPHANUM_def IS_NUM_def IS_URL_CHAR_iff)

lemma example_served:
  assumes "obj \<noteq> []" and "length obj < 2 ^ 31"
  shows "served_object (download_libs obj) (client_config sz) ''tmp/test_write_0'' (pc_api example_process) obj"
  using served_head [OF client_addressable, of obj sz] client_addressable [of sz] assms
  by (auto simp: served_object_def example_process_def example_state_def download_libs_def example_libs_def)

theorem read_client_witness:
  "\<exists>pr'. read_file (download_libs ''abcde'') [] (client_file 0) example_process = Some (Ret (), pr') \<and>
     pc_out pr' = [''testGetObject tmp/test_write_0.............''] \<and> pc_contexts pr' = 0 \<and> pc_objects pr' = 0 \<and> pc_blocks pr' = 0"
proof -
  have f: "client_file 0 = ''tmp/test_write_0''" by code_simp
  have "int (length ''abcde'') \<le> file_length" by (simp add: file_length_def)
  from read_client [OF example_served [of "''abcde''"] refl this, of "[]"] show ?thesis
    by (auto simp: f example_process_def)
qed

text \<open>The names of the files are fit for a URL.\<close>

lemma client_file_addressable:
  assumes "i < 10 ^ 9" shows "addressable (client_config sz) ''alluxio'' (client_file i)"
proof -
  have "IS_URL_CHAR c" if "c \<in> set (show_nat i)" for c
    using show_nat_digits [OF that] by (auto simp: IS_URL_CHAR_iff is_digit_def)
  moreover have "length (show_nat i) \<le> 9" using show_nat_length [OF assms] by simp
  ultimately show ?thesis
    by (simp add: addressable_def client_config_def Configuration_direct_def client_location_def bucket_host_def object_url_def
        client_file_def list_all_iff IS_ALPHA_iff IS_HOST_CHAR_def IS_ALPHANUM_def IS_NUM_def IS_URL_CHAR_iff)
qed

text \<open>A server that always answers the request for the attributes of the files.\<close>

definition served_files :: "('j, 'w, file_world) libs \<Rightarrow> byte list \<Rightarrow> bool" where
  "served_files E obj \<longleftrightarrow> lb_multi E = file_server obj \<and> lb_multi_init E \<and>
     (\<forall>i < file_nums. \<forall>w. \<exists>h w'. headObject (lb_http E) (client_config read_qingstor_buffer_size) ''alluxio'' (client_file i) w = (Ret h, w') \<and>
        hor_content_length h = int (length obj))"

lemma files_read:
  assumes "served_files E obj" and "obj \<noteq> []" and "int (length obj) \<le> file_length"
  shows "set is \<subseteq> {..<file_nums} \<Longrightarrow> fw_conns (ap_multi (pc_api pr)) = [] \<Longrightarrow> ap_alloc (pc_api pr) = [] \<Longrightarrow>
    \<exists>w v. each_file (read_file E fresh) is pr =
      Some (Ret (), pr\<lparr>pc_out := pc_out pr @ map (\<lambda>i. ''testGetObject '' @ client_file i @ ''.............'') is,
        pc_api := (pc_api pr)\<lparr>ap_world := w, ap_multi := v\<rparr>\<rparr>) \<and> fw_conns v = []"
proof (induction "is" arbitrary: pr)
  case Nil
  then show ?case
    by (intro exI [of _ "ap_world (pc_api pr)"] exI [of _ "ap_multi (pc_api pr)"]) (simp add: skip_def)
next
  case (Cons i "is")
  let ?cfg = "client_config read_qingstor_buffer_size"
  have i: "i < file_nums" "i < 10 ^ 9" using Cons.prems(1) by (simp_all add: file_nums_def)
  have "served_object E ?cfg (client_file i) (pc_api pr) obj"
    using assms Cons.prems(2,3) client_file_addressable [OF i(2)] i(1)
    by (auto simp: served_object_def served_files_def file_length_def client_file_def)
  from read_file_run [OF this refl assms(3), of fresh] obtain w v where
    r: "read_file E fresh (client_file i) pr = Some (Ret (), pr\<lparr>pc_out := pc_out pr @ [''testGetObject '' @ client_file i @ ''.............''],
        pc_api := (pc_api pr)\<lparr>ap_world := w, ap_multi := v\<rparr>\<rparr>)" "fw_conns v = []" by blast
  define pr1 where "pr1 = pr\<lparr>pc_out := pc_out pr @ [''testGetObject '' @ client_file i @ ''.............''],
        pc_api := (pc_api pr)\<lparr>ap_world := w, ap_multi := v\<rparr>\<rparr>"
  have "fw_conns (ap_multi (pc_api pr1)) = []" "ap_alloc (pc_api pr1) = []" using r(2) Cons.prems(3) by (simp_all add: pr1_def)
  from Cons.IH [OF _ this] Cons.prems(1) obtain w2 v2 where
    "each_file (read_file E fresh) is pr1 = Some (Ret (), pr1\<lparr>pc_out := pc_out pr1 @ map (\<lambda>i. ''testGetObject '' @ client_file i @ ''.............'') is,
        pc_api := (pc_api pr1)\<lparr>ap_world := w2, ap_multi := v2\<rparr>\<rparr>)" "fw_conns v2 = []" by auto
  then show ?case
    by (intro exI [of _ w2] exI [of _ v2]) (simp add: next_prog_def r(1) [folded pr1_def], simp add: pr1_def)
qed

text \<open>
  C10. The whole of \<open>read.c\<close> against an honest server: \<open>main\<close> returns 0, prints one title for each of
  its sixteen files, in order, and the line with the elapsed time, holds nothing that it has
  not given back, and has left \<open>errno\<close> and the message alone.
\<close>

theorem read_program:
  assumes "served_files E obj" and "obj \<noteq> []" and "int (length obj) \<le> file_length"
    and "fw_conns (ap_multi (pc_api pr)) = []" and "ap_alloc (pc_api pr) = []"
  shows "\<exists>pr'. read_main E fresh clock report pr = Some (Ret 0, pr') \<and>
     pc_out pr' = pc_out pr @ map (\<lambda>i. ''testGetObject '' @ client_file i @ ''.............'') [0..<16] @
       [report (getcurrenttime (snd clock) - getcurrenttime (fst clock))] \<and>
     pc_contexts pr' = pc_contexts pr \<and> pc_objects pr' = pc_objects pr \<and> pc_blocks pr' = pc_blocks pr \<and>
     ap_errno (pc_api pr') = ap_errno (pc_api pr) \<and> ap_message (pc_api pr') = ap_message (pc_api pr) \<and>
     fw_conns (ap_multi (pc_api pr')) = []"
proof -
  define ts where "ts = map (\<lambda>i. ''testGetObject '' @ client_file i @ ''.............'') [0..<file_nums]"
  have sub: "set [0..<file_nums] \<subseteq> {..<file_nums}" by auto
  obtain w v where r: "each_file (read_file E fresh) [0..<file_nums] pr =
      Some (Ret (), pr\<lparr>pc_out := pc_out pr @ ts, pc_api := (pc_api pr)\<lparr>ap_world := w, ap_multi := v\<rparr>\<rparr>)" "fw_conns v = []"
    using files_read [OF assms(1-3) sub assms(4,5), of fresh, folded ts_def] by blast
  have "ts = map (\<lambda>i. ''testGetObject '' @ client_file i @ ''.............'') [0..<16]" by (simp only: ts_def file_nums_def)
  note ts = this [symmetric]
  show ?thesis unfolding ts by (simp add: read_main_def next_prog_def r printf_run)
qed

lemma example_files: "served_files (download_libs obj) obj"
  unfolding served_files_def
proof (intro conjI allI impI)
  fix i w assume "i < file_nums"
  then have "i < 10 ^ 9" by (simp add: file_nums_def)
  from served_head [OF client_file_addressable [OF this]]
  show "\<exists>h w'. headObject (lb_http (download_libs obj)) (client_config read_qingstor_buffer_size) ''alluxio'' (client_file i) w = (Ret h, w') \<and>
      hor_content_length h = int (length obj)" .
qed (simp_all add: download_libs_def example_libs_def)

theorem read_program_witness:
  "\<exists>pr'. read_main (download_libs ''abcde'') [] ((1, 0), (2, 500000)) show_int example_process = Some (Ret 0, pr') \<and>
     length (pc_out pr') = 17 \<and> last (pc_out pr') = ''1500'' \<and> pc_contexts pr' = 0 \<and> pc_objects pr' = 0 \<and> pc_blocks pr' = 0"
proof -
  note served = example_files [of "''abcde''"]
  have start: "fw_conns (ap_multi (pc_api example_process)) = []" "ap_alloc (pc_api example_process) = []"
    "''abcde'' \<noteq> []" "int (length ''abcde'') \<le> file_length"
    by (simp_all add: example_process_def example_state_def file_length_def)
  have t: "show_int (getcurrenttime (2, 500000) - getcurrenttime (1, 0)) = ''1500''" by code_simp
  from read_program [OF served start(3,4,1,2), of "[]" "((1, 0), (2, 500000))" show_int] show ?thesis
    by (auto simp: t example_process_def)
qed

section \<open>\<open>write.c\<close>\<close>

lemma write_from_run:
  assumes "qingstorWrite E ctx (Some ob) buf n (pc_api pr) = Some (r, ob', s')"
  shows "write_from E ctx buf n (Some ob, pr) = Some (r, ob', pr\<lparr>pc_api := s'\<rparr>)"
  using assms by (simp add: write_from_def)

lemma write_loop_calls:
  "write_calls E cfg (replicate n b) (ob, pc_api pr) = Some (replicate n (int (length b)), ob', s') \<Longrightarrow>
    write_loop E (Some cfg) (Some b) (int (length b)) n (Some ob, pr) = Some (Ret True, Some ob', pr\<lparr>pc_api := s'\<rparr>)"
proof (induction n arbitrary: ob pr)
  case (Suc n)
  then obtain ob1 s1 where w: "qingstorWrite E (Some cfg) (Some ob) (Some b) (int (length b)) (pc_api pr) =
      Some (Ret (int (length b)), Some ob1, s1)"
    and rest: "write_calls E cfg (replicate n b) (ob1, s1) = Some (replicate n (int (length b)), ob', s')"
    by (auto split: option.splits prod.splits outcome.splits)
  show ?case
    using Suc.IH [of ob1 "pr\<lparr>pc_api := s1\<rparr>"] rest by (simp add: next_prog_def write_from_run [OF w])
qed simp

text \<open>A server that answers the request opening the upload and accepts all that follow.\<close>

definition accepts_upload :: "('j, net, 'v) libs \<Rightarrow> 'j json_api \<Rightarrow> (nat \<Rightarrow> response) \<Rightarrow> Configuration \<Rightarrow> string \<Rightarrow> string \<Rightarrow>
    (net, 'v) api \<Rightarrow> bool" where
  "accepts_upload E J script cfg bucket key s \<longleftrightarrow>
     (\<exists>key2 t j ju uid jk. addressable cfg bucket key \<and> addressable cfg bucket key2 \<and> json_tokener_parse J t = Some j \<and>
        json_get_ex J j ''upload_id'' = Some ju \<and> json_get_string J ju = Some uid \<and>
        json_get_ex J j ''key'' = Some jk \<and> json_get_string J jk = Some key2 \<and>
        list_all IS_URL_CHAR uid \<and> length uid < 30000 \<and> NUL \<notin> set t \<and> script (length (ap_world s)) = json_response t) \<and>
     (\<forall>i > length (ap_world s). accepted_response (script i)) \<and>
     lb_http E = scripted J (careful script) \<and> ap_alloc s = [] \<and> bucket \<noteq> [] \<and> key \<noteq> []"

lemma accepts_uploadI:
  assumes "addressable cfg bucket key" "addressable cfg bucket key2" "json_tokener_parse J t = Some j"
    "json_get_ex J j ''upload_id'' = Some ju" "json_get_string J ju = Some uid"
    "json_get_ex J j ''key'' = Some jk" "json_get_string J jk = Some key2"
    "list_all IS_URL_CHAR uid" "length uid < 30000" "NUL \<notin> set t" "script (length (ap_world s)) = json_response t"
    "\<And>i. length (ap_world s) < i \<Longrightarrow> accepted_response (script i)"
    "lb_http E = scripted J (careful script)" "ap_alloc s = []" "bucket \<noteq> []" "key \<noteq> []"
  shows "accepts_upload E J script cfg bucket key s"
  using assms unfolding accepts_upload_def by blast

lemma accepts_handles:
  assumes "accepts_upload E J script cfg bucket key s" and "0 < mChunkSize cfg" and "mChunkSize cfg < 2 ^ 31" and "[] \<notin> set inputs"
  shows "\<exists>wr w1 wr2 w2 w3 parts rest.
           qingstorPutObject E (Some cfg) (Some bucket) (Some key) True s = (Ret (Some (write_object wr)), s\<lparr>ap_world := w1\<rparr>) \<and>
           write_calls E cfg inputs (write_object wr, s\<lparr>ap_world := w1\<rparr>) =
             Some (map (int \<circ> length) inputs, write_object wr2, s\<lparr>ap_world := w2\<rparr>) \<and>
           qingstorCloseObject E (Some (write_object wr2)) (s\<lparr>ap_world := w2\<rparr>) = (Ret 0, s\<lparr>ap_world := w3\<rparr>) \<and>
           stored_parts script w3 = stored_parts script (ap_world s) @ parts @ [rest] \<and> concat parts @ rest = concat inputs \<and>
           (\<forall>p \<in> set parts. int (length p) = mChunkSize cfg) \<and> int (length rest) < mChunkSize cfg"
proof -
  obtain key2 t j ju uid jk where a: "addressable cfg bucket key" "addressable cfg bucket key2" "json_tokener_parse J t = Some j"
    "json_get_ex J j ''upload_id'' = Some ju" "json_get_string J ju = Some uid"
    "json_get_ex J j ''key'' = Some jk" "json_get_string J jk = Some key2"
    "list_all IS_URL_CHAR uid" "length uid < 30000" "NUL \<notin> set t" "script (length (ap_world s)) = json_response t"
    using assms(1) unfolding accepts_upload_def by blast
  have b: "\<And>i. length (ap_world s) < i \<Longrightarrow> accepted_response (script i)" "lb_http E = scripted J (careful script)"
    "ap_alloc s = []" "bucket \<noteq> []" "key \<noteq> []" using assms(1) by (simp_all add: accepts_upload_def)
  show ?thesis by (rule upload_handles [OF a(1-9) a(11,10) b(1) assms(2,3) b(2-5) assms(4)])
qed

text \<open>256 MiB in parts of 48 MiB.\<close>

lemma part_sizes:
  assumes "concat parts @ rest = bytes" and "length bytes = 256 * 2 ^ 20"
    and "\<forall>p \<in> set parts. int (length p) = 48 * 2 ^ 20" and "int (length rest) < 48 * 2 ^ 20"
  shows "map length parts = replicate 5 (48 * 2 ^ 20) \<and> length rest = 16 * 2 ^ 20"
proof -
  have p: "map length parts = replicate (length parts) (48 * 2 ^ 20)"
    using assms(3) by (intro replicate_eqI) auto
  then have "length (concat parts) = length parts * (48 * 2 ^ 20)" by (simp add: length_concat sum_list_replicate)
  then have "length parts * (48 * 2 ^ 20) + length rest = 256 * 2 ^ 20" using arg_cong [OF assms(1), of length] assms(2) by simp
  then have e: "length parts * 50331648 + length rest = 268435456" by simp
  then have n: "length parts = 5" using assms(4) by simp
  with e have "length rest = 16 * 2 ^ 20" by simp
  with n p show ?thesis by simp
qed

text \<open>One file of \<open>write.c\<close>, in detail.\<close>

lemma write_file_run:
  assumes "accepts_upload E J script (client_config write_qingstor_buffer_size) ''alluxio'' filename (pc_api pr)"
    and "block = fresh_block fresh (nat write_buffer_size)"
  shows "\<exists>w parts rest. write_file E fresh filename pr = Some (Ret (), pr\<lparr>pc_out := pc_out pr @ [''testPutObject '' @ filename @ ''.............''],
       pc_api := (pc_api pr)\<lparr>ap_world := w\<rparr>\<rparr>) \<and>
     stored_parts script w = stored_parts script (ap_world (pc_api pr)) @ parts @ [rest] \<and>
     concat parts @ rest = concat (replicate 32 block) \<and>
     map length parts = replicate 5 (48 * 2 ^ 20) \<and> length rest = 16 * 2 ^ 20"
proof -
  let ?cfg = "client_config write_qingstor_buffer_size" let ?n = "nat write_buffer_size"
  have c: "mChunkSize ?cfg = 48 * 2 ^ 20"
    by (simp add: client_config_def Configuration_direct_def write_qingstor_buffer_size_def)
  have len: "length block = 8 * 2 ^ 20" by (simp add: assms(2) write_buffer_size_def)
  then have ne: "[] \<notin> set (replicate 32 block)" by auto
  have sizes: "0 < mChunkSize ?cfg" "mChunkSize ?cfg < 2 ^ 31" by (simp_all add: c)
  obtain wr w1 wr2 w2 w3 parts rest where
    put: "qingstorPutObject E (Some ?cfg) (Some ''alluxio'') (Some filename) True (pc_api pr) =
      (Ret (Some (write_object wr)), (pc_api pr)\<lparr>ap_world := w1\<rparr>)" and
    wrt: "write_calls E ?cfg (replicate 32 block) (write_object wr, (pc_api pr)\<lparr>ap_world := w1\<rparr>) =
      Some (map (int \<circ> length) (replicate 32 block), write_object wr2, (pc_api pr)\<lparr>ap_world := w2\<rparr>)" and
    cls: "qingstorCloseObject E (Some (write_object wr2)) ((pc_api pr)\<lparr>ap_world := w2\<rparr>) = (Ret 0, (pc_api pr)\<lparr>ap_world := w3\<rparr>)" and
    st: "stored_parts script w3 = stored_parts script (ap_world (pc_api pr)) @ parts @ [rest]"
      "concat parts @ rest = concat (replicate 32 block)"
      "\<forall>p \<in> set parts. int (length p) = mChunkSize ?cfg" "int (length rest) < mChunkSize ?cfg"
    using accepts_handles [OF assms(1) sizes ne] by blast
  have l: "map length parts = replicate 5 (48 * 2 ^ 20) \<and> length rest = 16 * 2 ^ 20"
    by (rule part_sizes [OF st(2)]) (use st(3,4) in \<open>simp_all add: c len sum_list_replicate length_concat\<close>)
  have e: "ap_alloc (pc_api pr) = []" using assms(1) by (simp add: accepts_upload_def)
  define t where "t = ''testPutObject '' @ filename @ ''.............''"
  let ?pr1 = "pr\<lparr>pc_out := pc_out pr @ [t], pc_contexts := Suc (pc_contexts pr)\<rparr>"
  let ?pr3 = "?pr1\<lparr>pc_api := (pc_api pr)\<lparr>ap_world := w1\<rparr>, pc_objects := Suc (pc_objects pr), pc_blocks := Suc (pc_blocks pr)\<rparr>"
  have p1: "printf t pr = Some (Ret (), pr\<lparr>pc_out := pc_out pr @ [t]\<rparr>)" by (rule printf_run)
  have p2: "open_context E access_key_id secret_access_key write_qingstor_buffer_size (pr\<lparr>pc_out := pc_out pr @ [t]\<rparr>) =
      Some (Ret (Some ?cfg), ?pr1)"
    using client_config_run [of "pr\<lparr>pc_out := pc_out pr @ [t]\<rparr>" E] e by simp
  have p3: "opened (\<lambda>s. Some (qingstorPutObject E (Some ?cfg) (Some ''alluxio'') (Some filename) True s)) ?pr1 =
      Some (Ret (Some (write_object wr)), ?pr1\<lparr>pc_api := (pc_api pr)\<lparr>ap_world := w1\<rparr>, pc_objects := Suc (pc_objects pr)\<rparr>)"
    by (simp add: opened_def in_api_def next_prog_def put)
  have p4: "malloc_buffer fresh ?n (?pr1\<lparr>pc_api := (pc_api pr)\<lparr>ap_world := w1\<rparr>, pc_objects := Suc (pc_objects pr)\<rparr>) =
      Some (Ret (Some block), ?pr3)"
    by (subst malloc_run) (simp_all add: e assms(2))
  have loop: "write_loop E (Some ?cfg) (Some block) write_buffer_size 32 (Some (write_object wr), ?pr3) =
      Some (Ret True, Some (write_object wr2), ?pr3\<lparr>pc_api := (pc_api pr)\<lparr>ap_world := w2\<rparr>\<rparr>)"
    using write_loop_calls [of E ?cfg 32 block "write_object wr" ?pr3 "write_object wr2" "(pc_api pr)\<lparr>ap_world := w2\<rparr>"] wrt len
    by (simp add: map_replicate write_buffer_size_def)
  have k: "nat (file_length div write_buffer_size) = 32" by (simp add: file_length_def write_buffer_size_def)
  have "write_file E fresh filename pr =
      Some (Ret (), pr\<lparr>pc_out := pc_out pr @ [t], pc_api := (pc_api pr)\<lparr>ap_world := w3\<rparr>\<rparr>)"
    unfolding write_file_def k t_def [symmetric]
    by (simp add: next_prog_def p1 p2 p3 p4 write_all_of_def loop close_handle_def api_call_def in_api_def cls
        free_buffer_def close_context_run)
  with st l show ?thesis unfolding t_def [symmetric]
    by (intro exI [of _ w3] exI [of _ parts] exI [of _ rest]) simp
qed

text \<open>
  C12. \<open>write.c\<close> against a server that accepts the upload: writing the file prints its title and
  nothing else, closes and frees all it obtained and leaves \<open>errno\<close> and the message alone, and
  the server has stored 32 times the block of 8 MiB, in five parts of 48 MiB and one of 16 MiB.
\<close>

theorem write_client:
  assumes "accepts_upload E J script (client_config write_qingstor_buffer_size) ''alluxio'' filename (pc_api pr)"
    and "block = fresh_block fresh (nat write_buffer_size)"
  shows "\<exists>pr' parts rest. write_file E fresh filename pr = Some (Ret (), pr') \<and>
     pc_out pr' = pc_out pr @ [''testPutObject '' @ filename @ ''.............''] \<and>
     pc_contexts pr' = pc_contexts pr \<and> pc_objects pr' = pc_objects pr \<and> pc_blocks pr' = pc_blocks pr \<and>
     ap_errno (pc_api pr') = ap_errno (pc_api pr) \<and> ap_message (pc_api pr') = ap_message (pc_api pr) \<and>
     stored_parts script (ap_world (pc_api pr')) = stored_parts script (ap_world (pc_api pr)) @ parts @ [rest] \<and>
     concat parts @ rest = concat (replicate 32 block) \<and>
     map length parts = replicate 5 (48 * 2 ^ 20) \<and> length rest = 16 * 2 ^ 20"
proof -
  obtain w parts rest where "write_file E fresh filename pr = Some (Ret (), pr\<lparr>pc_out := pc_out pr @ [''testPutObject '' @ filename @ ''.............''],
       pc_api := (pc_api pr)\<lparr>ap_world := w\<rparr>\<rparr>)"
    "stored_parts script w = stored_parts script (ap_world (pc_api pr)) @ parts @ [rest]" "concat parts @ rest = concat (replicate 32 block)"
    "map length parts = replicate 5 (48 * 2 ^ 20)" "length rest = 16 * 2 ^ 20"
    using write_file_run [OF assms] by blast
  then show ?thesis by (intro exI conjI) (assumption | simp)+
qed

lemma example_accepts:
  assumes "addressable cfg bucket key" and "addressable cfg bucket ''k''" and "bucket \<noteq> []" and "key \<noteq> []"
  shows "accepts_upload (example_libs []) example_json example_script cfg bucket key (pc_api example_process)"
proof -
  have st: "ap_world example_state = []" "ap_alloc example_state = []"
    "lb_http (example_libs []) = scripted example_json (careful example_script)"
    by (simp_all add: example_state_def example_libs_def)
  have open1: "example_script 0 = json_response ''opened''" by (simp add: example_script_def)
  have "\<And>i. 0 < i \<Longrightarrow> accepted_response (example_script i)"
    by (simp add: example_script_def accepted_response_def ok_response_def)
  then show ?thesis
    using accepts_uploadI [OF assms(1,2) example_json_facts(1,2,4,3,4), where script = example_script
        and s = "pc_api example_process" and E = "example_libs []"] assms(3,4) st open1
    by (simp add: IS_URL_CHAR_iff example_process_def)
qed

lemma client_accepts:
  "accepts_upload (example_libs []) example_json example_script (client_config sz) ''alluxio'' ''tmp/test_write_0'' (pc_api example_process)"
proof (rule example_accepts [OF client_addressable])
  show "addressable (client_config sz) ''alluxio'' ''k''"
    by (simp add: addressable_def client_config_def Configuration_direct_def client_location_def bucket_host_def object_url_def
        IS_ALPHA_iff IS_HOST_CHAR_def IS_ALPHANUM_def IS_NUM_def IS_URL_CHAR_iff)
qed simp_all

theorem write_client_witness:
  "\<exists>pr' parts rest. write_file (example_libs []) [] (client_file 0) example_process = Some (Ret (), pr') \<and>
     pc_out pr' = [''testPutObject tmp/test_write_0.............''] \<and> pc_contexts pr' = 0 \<and> pc_objects pr' = 0 \<and> pc_blocks pr' = 0 \<and>
     stored_parts example_script (ap_world (pc_api pr')) = parts @ [rest] \<and>
     map length parts = replicate 5 (48 * 2 ^ 20) \<and> length rest = 16 * 2 ^ 20"
proof -
  have f: "client_file 0 = ''tmp/test_write_0''" by code_simp
  have "stored_parts example_script (ap_world (pc_api example_process)) = []" by (simp add: example_process_def example_state_def)
  with write_client [OF client_accepts refl, of "[]"] show ?thesis
    by (auto simp: f) (auto simp: example_process_def)
qed

text \<open>The writes look at nothing of the process but the library.\<close>

lemma write_from_any:
  "write_from E ctx buf n (ob, pr) = Some (r, ob', pr') \<Longrightarrow> pc_api q = pc_api pr \<Longrightarrow>
    write_from E ctx buf n (ob, q) = Some (r, ob', q\<lparr>pc_api := pc_api pr'\<rparr>)"
  by (auto simp: write_from_def)

lemma write_loop_Suc_True:
  assumes "write_loop E ctx buf sz (Suc j) s = Some (Ret True, s')"
  shows "\<exists>s1. write_from E ctx buf sz s = Some (Ret sz, s1) \<and> write_loop E ctx buf sz j s1 = Some (Ret True, s')"
proof -
  obtain r s1 where w: "write_from E ctx buf sz s = Some (r, s1)"
    using assms by (auto simp: next_prog_def bind_eq_Some_conv)
  show ?thesis using assms w
    by (cases r) (auto simp: next_prog_def bind_eq_Some_conv on_process_def last_error_def printf_def split: if_splits)
qed

lemma write_loop_split:
  "write_loop E ctx buf sz j s = Some (Ret True, s') \<Longrightarrow> write_loop E ctx buf sz (j + k) s = write_loop E ctx buf sz k s'"
proof (induction j arbitrary: s)
  case (Suc j)
  with write_loop_Suc_True [OF Suc.prems] show ?case by (auto simp: next_prog_def)
qed simp

lemma write_loop_any:
  "write_loop E ctx buf sz j (ob, pr) = Some (Ret True, ob', pr') \<Longrightarrow> pc_api q = pc_api pr \<Longrightarrow>
    write_loop E ctx buf sz j (ob, q) = Some (Ret True, ob', q\<lparr>pc_api := pc_api pr'\<rparr>)"
proof (induction j arbitrary: ob pr q)
  case (Suc j)
  obtain ob1 pr1 where w: "write_from E ctx buf sz (ob, pr) = Some (Ret sz, ob1, pr1)"
    and l: "write_loop E ctx buf sz j (ob1, pr1) = Some (Ret True, ob', pr')"
    using write_loop_Suc_True [OF Suc.prems(1)] by auto
  show ?case
    using Suc.IH [OF l, of "q\<lparr>pc_api := pc_api pr1\<rparr>"] write_from_any [OF w Suc.prems(2)] by (simp add: next_prog_def)
qed auto

text \<open>
  C15. A failing write of \<open>write.c\<close>: the function returns with the context, the object and the
  buffer still allocated, and sends nothing more: the upload is neither completed nor aborted.
\<close>

theorem write_client_leaks:
  assumes "qingstorInitContext E (Some client_location) (Some access_key_id) (Some secret_access_key) write_qingstor_buffer_size (pc_api pr) =
      (Ret (Some cfg), s0)"
    and "qingstorPutObject E (Some cfg) (Some ''alluxio'') (Some filename) True s0 = (Ret (Some ob), s1)"
    and "malloc_block s1 = (Ret ok, s2)" and "buf = (if ok then Some (fresh_block fresh (nat write_buffer_size)) else None)"
    and "j < 32" and "pc_api pr0 = s2"
    and "write_loop E (Some cfg) buf write_buffer_size j (Some ob, pr0) = Some (Ret True, ob1, pr1)"
    and "write_from E (Some cfg) buf write_buffer_size (ob1, pr1) = Some (Ret v, ob2, pr2)" and "v \<noteq> write_buffer_size"
  shows "\<exists>pr'. write_file E fresh filename pr = Some (Ret (), pr') \<and> pc_api pr' = pc_api pr2 \<and>
     pc_contexts pr' = Suc (pc_contexts pr) \<and> pc_objects pr' = Suc (pc_objects pr) \<and>
     pc_blocks pr' = pc_blocks pr + (if ok then 1 else 0) \<and>
     pc_out pr' = pc_out pr @ [''testPutObject '' @ filename @ ''.............'',
       ''qingstor write failed with error message: '' @ qingstorGetLastError (pc_api pr2)]"
proof -
  define t where "t = ''testPutObject '' @ filename @ ''.............''"
  define m where "m = ''qingstor write failed with error message: ''"
  let ?n = "nat write_buffer_size"
  let ?pr1 = "pr\<lparr>pc_out := pc_out pr @ [t], pc_api := s0, pc_contexts := Suc (pc_contexts pr)\<rparr>"
  let ?pr0 = "pr\<lparr>pc_out := pc_out pr @ [t], pc_contexts := Suc (pc_contexts pr)\<rparr>"
  let ?pr2 = "?pr0\<lparr>pc_api := s1, pc_objects := Suc (pc_objects pr)\<rparr>"
  define nb where "nb = pc_blocks pr + (if ok then 1 else 0)"
  let ?pr3 = "?pr0\<lparr>pc_objects := Suc (pc_objects pr), pc_api := s2, pc_blocks := nb\<rparr>"
  let ?pr4 = "?pr3\<lparr>pc_api := pc_api pr2\<rparr>"
  have p1: "printf t pr = Some (Ret (), pr\<lparr>pc_out := pc_out pr @ [t]\<rparr>)" by (rule printf_run)
  have p2: "open_context E access_key_id secret_access_key write_qingstor_buffer_size (pr\<lparr>pc_out := pc_out pr @ [t]\<rparr>) =
      Some (Ret (Some cfg), ?pr1)"
    by (simp add: open_context_def api_call_def in_api_def next_prog_def assms(1))
  have p3: "opened (\<lambda>s. Some (qingstorPutObject E (Some cfg) (Some ''alluxio'') (Some filename) True s)) ?pr1 = Some (Ret (Some ob), ?pr2)"
    by (simp add: opened_def in_api_def next_prog_def assms(2))
  have p4: "malloc_buffer fresh ?n ?pr2 = Some (Ret buf, ?pr3)"
    by (simp add: malloc_buffer_def api_call_def in_api_def next_prog_def assms(3,4) nb_def)
  have "write_loop E (Some cfg) buf write_buffer_size j (Some ob, ?pr3) = Some (Ret True, ob1, ?pr3\<lparr>pc_api := pc_api pr1\<rparr>)"
    by (rule write_loop_any [OF assms(7)]) (simp add: assms(6))
  note split = write_loop_split [OF this, of "Suc (31 - j)"]
  have "j + Suc (31 - j) = 32" using assms(5) by simp
  with split have "write_loop E (Some cfg) buf write_buffer_size 32 (Some ob, ?pr3) =
      write_loop E (Some cfg) buf write_buffer_size (Suc (31 - j)) (ob1, ?pr3\<lparr>pc_api := pc_api pr1\<rparr>)"
    by (simp only:)
  moreover have "write_from E (Some cfg) buf write_buffer_size (ob1, ?pr3\<lparr>pc_api := pc_api pr1\<rparr>) = Some (Ret v, ob2, ?pr4)"
    by (subst write_from_any [OF assms(8)]) simp_all
  ultimately have loop: "write_loop E (Some cfg) buf write_buffer_size 32 (Some ob, ?pr3) =
      Some (Ret False, ob2, ?pr4\<lparr>pc_out := pc_out ?pr4 @ [m @ qingstorGetLastError (pc_api pr2)]\<rparr>)"
    using assms(9) by (simp add: m_def [symmetric] next_prog_def on_process_def last_error_def printf_def)
  have k: "nat (file_length div write_buffer_size) = 32" by (simp add: file_length_def write_buffer_size_def)
  have "write_file E fresh filename pr = Some (Ret (), ?pr4\<lparr>pc_out := pc_out ?pr4 @ [m @ qingstorGetLastError (pc_api pr2)]\<rparr>)"
    unfolding write_file_def k t_def [symmetric]
    by (simp add: next_prog_def p1 p2 p3 p4 write_all_of_def loop skip_def)
  then show ?thesis unfolding t_def [symmetric] m_def [symmetric] by (simp add: nb_def)
qed

text \<open>A process whose fifth allocation, the buffer of \<open>write.c\<close>, fails.\<close>

definition starved_process :: "(net, file_world) process" where
  "starved_process = example_process\<lparr>pc_api := example_state\<lparr>ap_alloc := [True, True, True, True, False]\<rparr>\<rparr>"

lemma starved_opens:
  "qingstorInitContext E (Some client_location) (Some access_key_id) (Some secret_access_key) sz (pc_api starved_process) =
     (Ret (Some (client_config sz)), example_state\<lparr>ap_alloc := [True, True, False]\<rparr>)"
  by (simp add: qingstorInitContext_def PARAMETER_ASSERT_def non_empty_def new_context_def then_call_def new_block_def
      malloc_block_def try_catch_def starved_process_def client_config_def access_key_id_def secret_access_key_def)

theorem write_client_leaks_witness:
  "\<exists>pr'. write_file (example_libs []) [] (client_file 0) starved_process = Some (Ret (), pr') \<and>
     pc_contexts pr' = 1 \<and> pc_objects pr' = 1 \<and> pc_blocks pr' = 0 \<and> length (pc_out pr') = 2"
proof -
  let ?E = "example_libs []" and ?cfg = "client_config write_qingstor_buffer_size" let ?n = write_buffer_size
  let ?s0 = "example_state\<lparr>ap_alloc := [True, True, False]\<rparr>"
  have f: "client_file 0 = ''tmp/test_write_0''" by code_simp
  have E: "lb_http ?E = scripted example_json example_script" by (simp add: example_libs_def careful_example)
  have "0 < mChunkSize ?cfg" "mChunkSize ?cfg < 2 ^ 31"
    by (simp_all add: client_config_def Configuration_direct_def write_qingstor_buffer_size_def)
  then obtain wr rq up where wr: "QingStorWriter (lb_http ?E) ?cfg ''alluxio'' ''tmp/test_write_0'' True [] = (Ret wr, [(rq, up)])"
    unfolding E using open_succeeds [where script = example_script and w = "[]" and cfg = ?cfg, OF client_addressable example_json_facts(1,2,4,3,4) example_opening]
    by auto
  let ?s1 = "?s0\<lparr>ap_world := [(rq, up)], ap_alloc := [False]\<rparr>"
  have put: "qingstorPutObject ?E (Some ?cfg) (Some ''alluxio'') (Some ''tmp/test_write_0'') True ?s0 = (Ret (Some (write_object wr)), ?s1)"
    using wr by (simp add: qingstorPutObject_def PARAMETER_ASSERT_def non_empty_def try_catch_def then_call_def new_block_def
        malloc_block_def in_http_def write_object_def new_wrapper_def example_state_def)
  have m: "malloc_block ?s1 = (Ret False, ?s1\<lparr>ap_alloc := []\<rparr>)" by (simp add: malloc_block_def)
  let ?pr = "starved_process\<lparr>pc_api := ?s1\<lparr>ap_alloc := []\<rparr>\<rparr>"
  have "\<exists>pr2. write_from ?E (Some ?cfg) None ?n (Some (write_object wr), ?pr) = Some (Ret (-1), Some (write_object wr), pr2)"
    by (simp add: write_from_def qingstorWrite_def)
  then obtain pr2 where w: "write_from ?E (Some ?cfg) None ?n (Some (write_object wr), ?pr) = Some (Ret (-1), Some (write_object wr), pr2)"
    by blast
  have nz: "-1 \<noteq> ?n" by (simp add: write_buffer_size_def)
  have c: "0 < (32 :: nat)" by simp
  have d: "None = (if False then Some (fresh_block [] (nat ?n)) else None)" by simp
  have e: "pc_api ?pr = ?s1\<lparr>ap_alloc := []\<rparr>" by simp
  have g: "write_loop ?E (Some ?cfg) None ?n 0 (Some (write_object wr), ?pr) = Some (Ret True, Some (write_object wr), ?pr)" by simp
  obtain pr' where "write_file ?E [] ''tmp/test_write_0'' starved_process = Some (Ret (), pr')"
    "pc_contexts pr' = Suc (pc_contexts starved_process)" "pc_objects pr' = Suc (pc_objects starved_process)"
    "pc_blocks pr' = pc_blocks starved_process + (if False then 1 else 0)" "length (pc_out pr') = length (pc_out starved_process) + 2"
    using write_client_leaks [OF starved_opens put m d c e g w nz] by auto
  then show ?thesis by (simp add: f) (simp add: starved_process_def example_process_def)
qed

section \<open>A handle that has just been opened\<close>

lemma example_handle:
  "\<exists>rd s. qingstorGetObject (download_libs ''abcde'') (Some (client_config 4)) (Some ''alluxio'') (Some ''tmp/test_write_0'') (-1) (-1) example_state =
     Some (Ret (Some (read_object rd)), s) \<and> owes ''abcde'' rd s ''abcde''"
proof -
  have "0 < mNConnections (client_config 4)" "0 < mChunkSize (client_config 4)" "mChunkSize (client_config 4) < 2 ^ 62"
    by (simp_all add: client_config_def Configuration_direct_def)
  from served_opens [OF example_served this, of "''abcde''"] show ?thesis by (auto simp: example_process_def)
qed

theorem read_within_buffer_witness:
  "\<exists>h s d h2 s2. qingstorGetObject (download_libs ''abcde'') (Some (client_config 4)) (Some ''alluxio'') (Some ''tmp/test_write_0'') (-1) (-1) example_state =
       Some (Ret (Some h), s) \<and>
     qingstorRead (download_libs ''abcde'') (Some (client_config 4)) (Some h) True 3 s = Some (Ret (int (length d), d), Some h2, s2) \<and>
     d \<noteq> [] \<and> length d \<le> 3"
proof -
  obtain rd s where o: "qingstorGetObject (download_libs ''abcde'') (Some (client_config 4)) (Some ''alluxio'') (Some ''tmp/test_write_0'') (-1) (-1)
      example_state = Some (Ret (Some (read_object rd)), s)" "owes ''abcde'' rd s ''abcde''" using example_handle by blast
  have E: "lb_multi (download_libs ''abcde'') = file_server ''abcde''" by (simp add: download_libs_def example_libs_def)
  obtain d rd' v where r: "qingstorRead (download_libs ''abcde'') (Some (client_config 4)) (Some (read_object rd)) True 3 s =
      Some (Ret (int (length d), d), Some (read_object rd'), s\<lparr>ap_multi := v\<rparr>)" "d \<noteq> []"
    using read_step [OF E o(2), of 3 "client_config 4"] by auto
  have "length d \<le> 3" using read_within_buffer [OF r(1)] by simp
  with o(1) r show ?thesis by blast
qed

section \<open>\<open>write.c\<close>, then \<open>read.c\<close>\<close>

text \<open>Reading an object of \<open>k\<close> copies of a block, a block at a time, leaves the block in the buffer.\<close>

lemma read_copies:
  "length block = n \<Longrightarrow> length buf = n \<Longrightarrow> read_buffers n (Suc k) (concat (replicate (Suc k) block)) buf = block"
proof (induction k arbitrary: buf)
  case (Suc k)
  from Suc.IH [of "overwrite 0 block buf"] Suc.prems show ?case by simp
qed (simp add: overwrite_def)



end
