(* ===== verification/QS_Hello_Facts.thy ===== *)
theory QS_Hello_Facts
  imports QS_Clients_Facts QS_Hello
begin

text \<open>
  \<open>dist/hello.c\<close> over the library: when its reading loop ends, and what its cancelled upload
  leaves at the server.
\<close>

section \<open>The reading loop\<close>

lemma drain_ends:
  assumes "lb_multi E = file_server obj" "0 < n"
  shows "owes obj rd (pc_api pr) rest \<Longrightarrow> int n \<le> int (length buf) \<Longrightarrow> left \<le> int (length rest) \<Longrightarrow> left \<le> INT64_MAX \<Longrightarrow>
    \<exists>s'. drain_loop E (Some cfg) (int n) left ((Some (read_object rd), Some buf), pr) = Some (Ret (), s')"
proof (induction "nat left" arbitrary: rd pr rest buf left rule: less_induct)
  case less
  show ?case
  proof (cases "left > 0")
    case True
    obtain d rd' v where r: "read_into E (Some cfg) 0 (int n) ((Some (read_object rd), Some buf), pr) =
        Some (Ret (int (length d)), (Some (read_object rd'), Some (overwrite 0 d buf)), pr\<lparr>pc_api := (pc_api pr)\<lparr>ap_multi := v\<rparr>\<rparr>)"
      "int (length d) \<le> int n" "owes obj rd' ((pc_api pr)\<lparr>ap_multi := v\<rparr>) (drop (length d) rest)" "d = [] \<longrightarrow> rest = []"
      using read_into_step [OF assms(1) less.prems(1), of "int n" 0 buf cfg] less.prems(2) assms(2) by auto
    have d: "0 < length d" using r(4) True less.prems(3) by auto
    have "\<exists>s'. drain_loop E (Some cfg) (int n) (left - int (length d))
        ((Some (read_object rd'), Some (overwrite 0 d buf)), pr\<lparr>pc_api := (pc_api pr)\<lparr>ap_multi := v\<rparr>\<rparr>) = Some (Ret (), s')"
      by (rule less.hyps [of "left - int (length d)" rd' _ "drop (length d) rest"])
        (use True d r(2,3) less.prems in \<open>simp_all\<close>)
    then show ?thesis using True d r(1) less.prems(4) by (subst drain_loop.simps) simp
  qed (simp add: drain_loop.simps)
qed

lemma drain_stuck:
  assumes "drain_loop E ctx n left s = Some y" and "lb_multi E = file_server obj" and "ctx = Some cfg" and "0 < n"
  shows "s = ((Some (read_object rd), Some buf), pr) \<Longrightarrow> owes obj rd (pc_api pr) rest \<Longrightarrow> n \<le> int (length buf) \<Longrightarrow>
    int (length rest) < left \<Longrightarrow> left \<le> INT64_MAX \<Longrightarrow> False"
  using assms
proof (induction arbitrary: rd buf pr rest rule: drain_loop.raw_induct [rotated, consumes 1])
  case (1 loop E ctx n left s y)
  obtain d rd' v where r: "read_into E (Some cfg) 0 n ((Some (read_object rd), Some buf), pr) =
      Some (Ret (int (length d)), (Some (read_object rd'), Some (overwrite 0 d buf)), pr\<lparr>pc_api := (pc_api pr)\<lparr>ap_multi := v\<rparr>\<rparr>)"
    "int (length d) \<le> n" "take (length d) rest = d" "owes obj rd' ((pc_api pr)\<lparr>ap_multi := v\<rparr>) (drop (length d) rest)"
    using read_into_step [OF "1"(8) "1"(4), of n 0 buf cfg] "1"(5,10) by auto
  let ?pr = "pr\<lparr>pc_api := (pc_api pr)\<lparr>ap_multi := v\<rparr>\<rparr>"
  have d: "length d \<le> length rest" using arg_cong [OF r(3), of length] by simp
  have l: "loop E ctx n (left - int (length d)) ((Some (read_object rd'), Some (overwrite 0 d buf)), ?pr) = Some y"
    using "1"(2,3,6,7,9) r(1) by (auto split: if_splits)
  have o: "owes obj rd' (pc_api ?pr) (drop (length d) rest)" using r(4) by simp
  have b: "n \<le> int (length (overwrite 0 d buf))" using "1"(5) r(2) by (simp)
  show ?case
    by (rule "1"(1) [OF l refl o b _ _ "1"(8,9,10)]) (use "1"(6,7) d in simp_all)
qed

text \<open>
  C16. The loop of \<open>hello.c\<close> that reads \<open>left\<close> bytes returns if and only if the handle still owes
  that many: past the end of the object every read returns 0 and the loop never ends.
\<close>

theorem hello_reads_end:
  assumes "lb_multi E = file_server obj" and "owes obj rd (pc_api pr) rest" and "0 < n" and "n \<le> int (length buf)"
    and "left \<le> INT64_MAX"
  shows "drain_loop E (Some cfg) n left ((Some (read_object rd), Some buf), pr) \<noteq> None \<longleftrightarrow> left \<le> int (length rest)"
proof
  show "drain_loop E (Some cfg) n left ((Some (read_object rd), Some buf), pr) \<noteq> None" if "left \<le> int (length rest)"
    using drain_ends [OF assms(1) _ assms(2), of "nat n" buf left cfg] assms(3-5) that by auto
  show "left \<le> int (length rest)" if "drain_loop E (Some cfg) n left ((Some (read_object rd), Some buf), pr) \<noteq> None"
    using that drain_stuck [OF _ assms(1) refl assms(3) refl assms(2,4) _ assms(5)] by (meson not_le option.exhaust)
qed

theorem hello_reads_end_witness:
  "\<exists>h s. qingstorGetObject (download_libs ''abcde'') (Some (client_config 4)) (Some ''alluxio'') (Some ''tmp/test_write_0'') (-1) (-1) example_state =
       Some (Ret (Some h), s) \<and>
     drain_loop (download_libs ''abcde'') (Some (client_config 4)) 2 5 ((Some h, Some ''zz''), example_process\<lparr>pc_api := s\<rparr>) \<noteq> None \<and>
     drain_loop (download_libs ''abcde'') (Some (client_config 4)) 2 6 ((Some h, Some ''zz''), example_process\<lparr>pc_api := s\<rparr>) = None"
proof -
  obtain rd s where o: "qingstorGetObject (download_libs ''abcde'') (Some (client_config 4)) (Some ''alluxio'') (Some ''tmp/test_write_0'') (-1) (-1)
      example_state = Some (Ret (Some (read_object rd)), s)" "owes ''abcde'' rd s ''abcde''" using example_handle by blast
  have E: "lb_multi (download_libs ''abcde'') = file_server ''abcde''" by (simp add: download_libs_def example_libs_def)
  have w: "owes ''abcde'' rd (pc_api (example_process\<lparr>pc_api := s\<rparr>)) ''abcde''" using o(2) by simp
  have b: "(0 :: int) < 2" "2 \<le> int (length ''zz'')" "5 \<le> INT64_MAX" "6 \<le> INT64_MAX" by (simp_all add: INT64_MAX_def)
  let ?run = "\<lambda>n. drain_loop (download_libs ''abcde'') (Some (client_config 4)) 2 n
    ((Some (read_object rd), Some ''zz''), example_process\<lparr>pc_api := s\<rparr>)"
  have a: "?run 5 \<noteq> None" unfolding hello_reads_end [OF E w b(1,2,3)] by simp
  have "\<not> ?run 6 \<noteq> None" unfolding hello_reads_end [OF E w b(1,2,4)] by simp
  then have "?run 6 = None" by (rule notnotD)
  then show ?thesis by (intro exI [of _ "read_object rd"] exI [of _ s] conjI o(1) a)
qed

section \<open>A cancelled upload\<close>

lemma request_sent:
  assumes "qs_parse_url blank_url url = Ret pq" and "accepting script w" and "qsrt = QSRT_ABORT_MP_UPLOAD"
  shows "\<exists>h. DoGetJSON (scripted J script) host url bucket location cred qsrt None retries w =
           (Ret None, None, w @ [(make_request url qsrt None h, [])])"
proof -
  let ?E = "scripted J script"
  obtain h where h: "request_headers ?E blank_url (env_date ?E w) host url bucket location cred qsrt None = Ret h"
    using headers_succeed [OF assms(1), of qsrt None ?E "env_date ?E w" host bucket location cred] assms(3) by (auto simp: is_upload_def)
  have "handle_response ?E qsrt (script (length w)) = Ret None"
    using assms(2,3) by (auto simp: accepting_def handle_response_def Let_def accepted_response_def buffer_text_def empty_buffer_def run_writes_def)
  then have "DoGetJSON_Internal ?E host url bucket location cred qsrt None w =
      (Ret None, None, w @ [(make_request url qsrt None (HeaderContent_GetList h), [])])"
    using assms(3) h by (simp add: DoGetJSON_Internal_def Let_def is_upload_def)
  then show ?thesis
    unfolding DoGetJSON_def by (subst retry_loop_step) (auto simp: throws_def)
qed

lemma cancel_sent:
  assumes "writable wr" and "accepting script w"
  shows "\<exists>h. writer_cancel (scripted J script) (wr, w) =
           (Ret (), wr\<lparr>wr_part_num := 0, wr_canceled := True\<rparr>, w @ [(make_request (upload_url wr) QSRT_ABORT_MP_UPLOAD None h, [])])"
proof -
  obtain pq where url: "qs_parse_url blank_url (upload_url wr) = Ret pq"
    using writer_urls_parse(2) [of wr blank_url] assms(1) by (auto simp: writable_def)
  show ?thesis
    using request_sent [OF url assms(2) refl, of J "writer_host wr" "Some (wr_bucket wr)" None "wr_cred wr"
        "mConnectionRetries (wr_configuration wr)"]
    by (auto simp: writer_cancel_def abortMultipartUpload_def rethrowing_def then_call_def get_json_def)
qed

lemma close_canceled:
  "wr_canceled wr \<Longrightarrow> writer_close E (wr, w) = (Ret (), wr\<lparr>wr_buffer := None\<rparr>, w)"
  by (simp add: writer_close_def then_call_def)

lemma cancel_loop_calls:
  "write_calls E cfg (replicate (length is) b) (ob, pc_api pr) = Some (replicate (length is) (int (length b)), ob', s') \<Longrightarrow>
    512 \<notin> set is \<Longrightarrow>
    cancel_loop E (Some cfg) (Some b) (int (length b)) (is @ js) (Some ob, pr) =
      cancel_loop E (Some cfg) (Some b) (int (length b)) js (Some ob', pr\<lparr>pc_api := s'\<rparr>)"
proof (induction "is" arbitrary: ob pr)
  case (Cons i "is")
  then obtain ob1 s1 where w: "qingstorWrite E (Some cfg) (Some ob) (Some b) (int (length b)) (pc_api pr) =
      Some (Ret (int (length b)), Some ob1, s1)"
    and rest: "write_calls E cfg (replicate (length is) b) (ob1, s1) = Some (replicate (length is) (int (length b)), ob', s')"
    by (auto split: option.splits prod.splits outcome.splits)
  have "i \<noteq> 512" "512 \<notin> set is" using Cons.prems(2) by auto
  then show ?case
    using Cons.IH [of ob1 "pr\<lparr>pc_api := s1\<rparr>"] rest by (simp add: next_prog_def write_from_run [OF w] skip_def)
qed auto

definition hello_config :: Configuration where
  "hello_config = Configuration_direct client_location hello_key_id hello_secret hello_buffer_size"

lemma length_zero_buffer: "length zero_buffer = 2 ^ 20"
  by (simp add: zero_buffer_def hello_mega_def)

text \<open>512 MiB in parts of 4 MiB leave nothing over.\<close>

lemma even_parts:
  assumes "concat parts @ rest = bytes" and "length bytes = 512 * 2 ^ 20"
    and "\<forall>p \<in> set parts. int (length p) = 4 * 2 ^ 20" and "int (length rest) < 4 * 2 ^ 20"
  shows "map length parts = replicate 128 (4 * 2 ^ 20) \<and> concat parts = bytes"
proof -
  have p: "map length parts = replicate (length parts) (4 * 2 ^ 20)"
    using assms(3) by (intro replicate_eqI) auto
  then have "length (concat parts) = length parts * (4 * 2 ^ 20)" by (simp add: length_concat sum_list_replicate)
  then have "length parts * (4 * 2 ^ 20) + length rest = 512 * 2 ^ 20" using arg_cong [OF assms(1), of length] assms(2) by simp
  then have e: "length parts * 4194304 + length rest = 536870912" by simp
  then have n: "length parts = 128" using assms(4) by simp
  with e have "rest = []" by simp
  with n p assms(1) show ?thesis by simp
qed

text \<open>The writes of an upload that the server accepts, without the completion.\<close>

lemma accepted_writes:
  assumes "accepts_upload E J script cfg bucket key s" and "0 < mChunkSize cfg" and "mChunkSize cfg < 2 ^ 31" and "[] \<notin> set inputs"
  shows "\<exists>wr w1 wr2 w2 parts rest.
           qingstorPutObject E (Some cfg) (Some bucket) (Some key) True s = (Ret (Some (write_object wr)), s\<lparr>ap_world := w1\<rparr>) \<and>
           write_calls E cfg inputs (write_object wr, s\<lparr>ap_world := w1\<rparr>) =
             Some (map (int \<circ> length) inputs, write_object wr2, s\<lparr>ap_world := w2\<rparr>) \<and>
           writable wr2 \<and> accepting (careful script) w2 \<and>
           stored_parts script w2 = stored_parts script (ap_world s) @ parts \<and> concat parts @ rest = concat inputs \<and>
           (\<forall>p \<in> set parts. int (length p) = mChunkSize cfg) \<and> int (length rest) < mChunkSize cfg"
proof -
  obtain key2 t j ju uid jk where a: "addressable cfg bucket key" "addressable cfg bucket key2" "json_tokener_parse J t = Some j"
    "json_get_ex J j ''upload_id'' = Some ju" "json_get_string J ju = Some uid"
    "json_get_ex J j ''key'' = Some jk" "json_get_string J jk = Some key2"
    "list_all IS_URL_CHAR uid" "length uid < 30000" "NUL \<notin> set t" "script (length (ap_world s)) = json_response t"
    using assms(1) unfolding accepts_upload_def by blast
  have b: "\<And>i. length (ap_world s) < i \<Longrightarrow> accepted_response (script i)" "lb_http E = scripted J (careful script)"
    "ap_alloc s = []" "bucket \<noteq> []" "key \<noteq> []" using assms(1) by (simp_all add: accepts_upload_def)
  obtain wr rq up where o: "QingStorWriter (lb_http E) cfg bucket key True (ap_world s) = (Ret wr, ap_world s @ [(rq, up)])"
      "wr_configuration wr = cfg" "wr_bucket wr = bucket" "wr_upload_id wr = uid" "wr_key wr = key2" "caching wr"
    unfolding b(2) using open_succeeds [where script = "careful script" and w = "ap_world s",
        OF a(1,3-7) careful_opening [of script, OF a(11)] a(10) assms(2,3)] by blast
  have w: "writable wr" using o a(2,8,9) by (simp add: writable_def)
  have ac: "accepting (careful script) (ap_world s @ [(rq, up)])" using b(1) by (simp add: accepting_def)
  obtain wr2 w2 where all: "write_all (lb_http E) inputs (wr, ap_world s @ [(rq, up)]) = Some (Ret (), wr2, w2)"
      "writable wr2" "accepting (careful script) w2"
    unfolding b(2) using write_all_succeeds [OF w ac] by blast
  note start = QingStorWriter_caching [OF o(1) assms(2,3)]
  have st: "stored_parts script (ap_world s @ [(rq, up)]) = stored_parts script (ap_world s)"
    by (rule net.QingStorWriter_stored [OF o(1) [unfolded b(2)]])
  obtain parts where p: "stored_parts script w2 = stored_parts script (ap_world s) @ parts"
      "\<forall>p \<in> set parts. int (length p) = wr_buff_size wr" "concat parts @ pending wr2 = concat inputs" "same_upload wr wr2" "caching wr2"
    using net.write_all_Ret [OF o(6) all(1) [unfolded b(2)]] st start(2) by auto
  have "int (length (pending wr2)) < wr_buff_size wr2"
    using p(5) by (auto simp: caching_def pending_def buffer_block_def)
  then have "int (length (pending wr2)) < mChunkSize cfg" using same_uploadD(1) [OF p(4)] start(5) by simp
  moreover have "qingstorPutObject E (Some cfg) (Some bucket) (Some key) True s =
      (Ret (Some (write_object wr)), s\<lparr>ap_world := ap_world s @ [(rq, up)]\<rparr>)"
    using putObject_opens [OF o(1) b(3-5)] .
  moreover have "write_calls E cfg inputs (write_object wr, s\<lparr>ap_world := ap_world s @ [(rq, up)]\<rparr>) =
      Some (map (int \<circ> length) inputs, write_object wr2, s\<lparr>ap_world := w2\<rparr>)"
    using write_calls_all [of E inputs wr "s\<lparr>ap_world := ap_world s @ [(rq, up)]\<rparr>"] all(1) assms(4) by simp
  ultimately show ?thesis using all(2,3) p(1-3) start(5)
    by (intro exI [of _ wr] exI [of _ "ap_world s @ [(rq, up)]"] exI [of _ wr2] exI [of _ w2] exI [of _ parts] exI [of _ "pending wr2"]) simp
qed

text \<open>The handles and states of an upload of 512 MiB that is cancelled.\<close>

lemma cancelled_upload:
  assumes "accepts_upload E J script hello_config bucket key s"
  shows "\<exists>ob1 s1 ob2 s2 ob3 s3 w rq parts.
     qingstorPutObject E (Some hello_config) (Some bucket) (Some key) True s = (Ret (Some ob1), s1) \<and>
     write_calls E hello_config (replicate 512 zero_buffer) (ob1, s1) = Some (replicate 512 hello_mega, ob2, s2) \<and>
     qingstorCancelObject E (Some hello_config) (Some ob2) s2 = (Ret 0, Some ob3, s3) \<and>
     qingstorCloseObject E (Some ob3) s3 = (Ret 0, s3) \<and>
     s3 = s\<lparr>ap_world := w @ [(rq, [])]\<rparr> \<and> rq_custom rq = Some ''DELETE'' \<and>
     stored_parts script w = stored_parts script (ap_world s) @ parts \<and>
     concat parts = concat (replicate 512 zero_buffer) \<and> map length parts = replicate 128 (4 * 2 ^ 20)"
proof -
  let ?cfg = hello_config
  have c: "mChunkSize ?cfg = 4 * 2 ^ 20" by (simp add: hello_config_def Configuration_direct_def hello_buffer_size_def)
  have "zero_buffer \<noteq> []" by (simp add: length_zero_buffer flip: length_greater_0_conv)
  then have ne: "[] \<notin> set (replicate 512 zero_buffer)" by auto
  have sizes: "0 < mChunkSize ?cfg" "mChunkSize ?cfg < 2 ^ 31" by (simp_all add: c)
  obtain wr w1 wr2 w2 parts rest where
    put: "qingstorPutObject E (Some ?cfg) (Some bucket) (Some key) True s = (Ret (Some (write_object wr)), s\<lparr>ap_world := w1\<rparr>)" and
    wrt: "write_calls E ?cfg (replicate 512 zero_buffer) (write_object wr, s\<lparr>ap_world := w1\<rparr>) =
      Some (map (int \<circ> length) (replicate 512 zero_buffer), write_object wr2, s\<lparr>ap_world := w2\<rparr>)" and
    wr2: "writable wr2" "accepting (careful script) w2" and
    st: "stored_parts script w2 = stored_parts script (ap_world s) @ parts"
      "concat parts @ rest = concat (replicate 512 zero_buffer)"
      "\<forall>p \<in> set parts. int (length p) = mChunkSize ?cfg" "int (length rest) < mChunkSize ?cfg"
    using accepted_writes [OF assms sizes ne] by blast
  have l: "map length parts = replicate 128 (4 * 2 ^ 20) \<and> concat parts = concat (replicate 512 zero_buffer)"
    by (rule even_parts [OF st(2)]) (use st(3,4) in \<open>simp_all add: c length_zero_buffer sum_list_replicate length_concat\<close>)
  have E: "lb_http E = scripted J (careful script)" using assms by (simp add: accepts_upload_def)
  obtain h where cnl: "writer_cancel (lb_http E) (wr2, w2) =
      (Ret (), wr2\<lparr>wr_part_num := 0, wr_canceled := True\<rparr>, w2 @ [(make_request (upload_url wr2) QSRT_ABORT_MP_UPLOAD None h, [])])"
    unfolding E using cancel_sent [OF wr2] by blast
  define rq where "rq = make_request (upload_url wr2) QSRT_ABORT_MP_UPLOAD None h"
  define wr3 where "wr3 = wr2\<lparr>wr_part_num := 0, wr_canceled := True\<rparr>"
  note cnl = cnl [folded rq_def wr3_def]
  let ?s3 = "s\<lparr>ap_world := w2 @ [(rq, [])]\<rparr>"
  have "qingstorCancelObject E (Some ?cfg) (Some (write_object wr2)) (s\<lparr>ap_world := w2\<rparr>) = (Ret 0, Some (write_object wr3), ?s3)"
    by (simp add: qingstorCancelObject_def with_writer_def cnl)
  moreover have "wr_canceled wr3" by (simp add: wr3_def)
  then have "qingstorCloseObject E (Some (write_object wr3)) ?s3 = (Ret 0, ?s3)"
    using closeObject_writer [of E wr3 ?s3 "()" _ "w2 @ [(rq, [])]"] close_canceled [of wr3 "lb_http E" "w2 @ [(rq, [])]"] by simp
  moreover have "map (int \<circ> length) (replicate 512 zero_buffer) = replicate 512 hello_mega"
    by (simp add: map_replicate length_zero_buffer hello_mega_def)
  moreover have "rq_custom rq = Some ''DELETE''" by (simp add: rq_def make_request_def)
  ultimately show ?thesis using put wrt st(1) l by (intro exI conjI) (assumption | simp)+
qed

lemma loop_indices: "[0..<1024] = [0..<512] @ 512 # [513..<1024 :: nat]"
proof -
  have "[0..<1024] = [0..<512] @ [512..<1024 :: nat]" using upt_add_eq_append [of 0 512 512] by simp
  also have "[512..<1024 :: nat] = 512 # [513..<1024]" by (subst upt_conv_Cons) simp_all
  finally show ?thesis .
qed

text \<open>
  C13. \<open>hello.c\<close>, whose \<open>main\<close> cancels an upload after 512 MiB, against a server that accepts
  everything: it prints its title and nothing else, closes all it obtained and returns 0. The
  server has got 128 parts of 4 MiB and, as the last request, the \<open>DELETE\<close> that aborts the upload:
  closing a cancelled object sends nothing.
\<close>

theorem hello_cancels:
  assumes "accepts_upload E J script hello_config ''alluxio'' ''test'' (pc_api pr)"
  shows "\<exists>pr' parts w rq. hello_main E pr = Some (Ret 0, pr') \<and>
     pc_out pr' = pc_out pr @ [''testPutObject.....................''] \<and>
     pc_contexts pr' = pc_contexts pr \<and> pc_objects pr' = pc_objects pr \<and> pc_blocks pr' = pc_blocks pr \<and>
     ap_errno (pc_api pr') = ap_errno (pc_api pr) \<and> ap_message (pc_api pr') = ap_message (pc_api pr) \<and>
     ap_world (pc_api pr') = w @ [(rq, [])] \<and> rq_custom rq = Some ''DELETE'' \<and>
     stored_parts script w = stored_parts script (ap_world (pc_api pr)) @ parts \<and>
     concat parts = concat (replicate 512 zero_buffer) \<and> map length parts = replicate 128 (4 * 2 ^ 20)"
proof -
  obtain ob1 s1 ob2 s2 ob3 s3 w rq parts where
    put: "qingstorPutObject E (Some hello_config) (Some ''alluxio'') (Some ''test'') True (pc_api pr) = (Ret (Some ob1), s1)" and
    wrt: "write_calls E hello_config (replicate 512 zero_buffer) (ob1, s1) = Some (replicate 512 hello_mega, ob2, s2)" and
    cnl: "qingstorCancelObject E (Some hello_config) (Some ob2) s2 = (Ret 0, Some ob3, s3)" and
    cls: "qingstorCloseObject E (Some ob3) s3 = (Ret 0, s3)" and s3: "s3 = (pc_api pr)\<lparr>ap_world := w @ [(rq, [])]\<rparr>" and
    st: "rq_custom rq = Some ''DELETE''" "stored_parts script w = stored_parts script (ap_world (pc_api pr)) @ parts"
      "concat parts = concat (replicate 512 zero_buffer)" "map length parts = replicate 128 (4 * 2 ^ 20)"
    using cancelled_upload [OF assms] by blast
  have e: "ap_alloc (pc_api pr) = []" using assms by (simp add: accepts_upload_def)
  define t where "t = ''testPutObject.....................''"
  let ?pr1 = "pr\<lparr>pc_out := pc_out pr @ [t], pc_contexts := Suc (pc_contexts pr)\<rparr>"
  let ?pr3 = "?pr1\<lparr>pc_api := s1, pc_objects := Suc (pc_objects pr)\<rparr>"
  have p1: "printf t pr = Some (Ret (), pr\<lparr>pc_out := pc_out pr @ [t]\<rparr>)" by (rule printf_run)
  have p2: "open_context E hello_key_id hello_secret hello_buffer_size (pr\<lparr>pc_out := pc_out pr @ [t]\<rparr>) = Some (Ret (Some hello_config), ?pr1)"
    using open_context_run [of "pr\<lparr>pc_out := pc_out pr @ [t]\<rparr>" hello_key_id hello_secret E hello_buffer_size] e
    by (simp add: hello_config_def) (simp add: hello_key_id_def hello_secret_def)
  have p3: "opened (\<lambda>s. Some (qingstorPutObject E (Some hello_config) (Some ''alluxio'') (Some ''test'') True s)) ?pr1 = Some (Ret (Some ob1), ?pr3)"
    by (simp add: opened_def in_api_def next_prog_def put)
  have sz: "int (length zero_buffer) = hello_mega" by (simp add: length_zero_buffer hello_mega_def)
  have "write_calls E hello_config (replicate (length [0..<512 :: nat]) zero_buffer) (ob1, pc_api ?pr3) =
      Some (replicate (length [0..<512 :: nat]) (int (length zero_buffer)), ob2, s2)"
    using wrt by (simp add: sz)
  from cancel_loop_calls [OF this, of "512 # [513..<1024]"]
  have loop: "cancel_loop E (Some hello_config) (Some zero_buffer) hello_mega [0..<1024] (Some ob1, ?pr3) = Some (Ret (), Some ob3, ?pr3\<lparr>pc_api := s3\<rparr>)"
    unfolding loop_indices sz by (simp add: next_prog_def cancel_handle_def cnl skip_def)
  have "hello_main E pr = Some (Ret 0, pr\<lparr>pc_out := pc_out pr @ [t], pc_api := s3\<rparr>)"
    unfolding hello_main_def testPutObject_negative_def hello_test_def t_def [symmetric]
    by (simp add: next_prog_def p1 p2 p3 with_locals_def loop close_handle_def api_call_def in_api_def cls close_context_run)
  with st s3 show ?thesis unfolding t_def [symmetric]
    by (intro exI [of _ "pr\<lparr>pc_out := pc_out pr @ [t], pc_api := s3\<rparr>"] exI [of _ parts] exI [of _ w] exI [of _ rq]) simp
qed

theorem hello_cancels_witness:
  "\<exists>pr' parts w rq. hello_main (example_libs []) example_process = Some (Ret 0, pr') \<and>
     pc_out pr' = [''testPutObject.....................''] \<and> pc_contexts pr' = 0 \<and> pc_objects pr' = 0 \<and>
     ap_world (pc_api pr') = w @ [(rq, [])] \<and> rq_custom rq = Some ''DELETE'' \<and>
     stored_parts example_script w = parts \<and> map length parts = replicate 128 (4 * 2 ^ 20)"
proof -
  have st: "ap_world example_state = []" by (simp add: example_state_def)
  have "addressable hello_config ''alluxio'' ''test''" "addressable hello_config ''alluxio'' ''k''"
    by (simp_all add: addressable_def hello_config_def Configuration_direct_def client_location_def bucket_host_def object_url_def
        IS_ALPHA_iff IS_HOST_CHAR_def IS_ALPHANUM_def IS_NUM_def IS_URL_CHAR_iff)
  then have "accepts_upload (example_libs []) example_json example_script hello_config ''alluxio'' ''test'' (pc_api example_process)"
    by (rule example_accepts) simp_all
  from hello_cancels [OF this] obtain pr' parts w rq where
    r: "hello_main (example_libs []) example_process = Some (Ret 0, pr')"
    "pc_out pr' = pc_out example_process @ [''testPutObject.....................'']" "pc_contexts pr' = pc_contexts example_process"
    "pc_objects pr' = pc_objects example_process" "ap_world (pc_api pr') = w @ [(rq, [])]" "rq_custom rq = Some ''DELETE''"
    "stored_parts example_script w = stored_parts example_script (ap_world (pc_api example_process)) @ parts"
    "map length parts = replicate 128 (4 * 2 ^ 20)" by blast
  have "stored_parts example_script w = parts" using r(7) by (simp add: example_process_def st)
  with r(1-6,8) show ?thesis
    by (intro exI [of _ pr'] exI [of _ parts] exI [of _ w] exI [of _ rq]) (simp add: example_process_def)
qed

end
